(* ===== verification/Prelude.thy ===== *)
theory Prelude
  imports Main "HOL-Library.Word" "HOL-Library.Char_ord" "HOL-Library.List_Lexorder"
begin

text \<open>
  Shared vocabulary of the development: machine integers, instants, the error values of the
  program, the two ways an operation can fail (a pure \<open>Result\<close>, and a \<open>Result\<close> together with
  the state the operation leaves behind), and the list facts the components share.
\<close>

unbundle bit_operations_syntax

section \<open>Machine integers and time\<close>

type_synonym u8 = "8 word"
type_synonym u16 = "16 word"
type_synonym u32 = "32 word"
type_synonym u64 = "64 word"

text \<open>
  \<open>Instant\<close> is a monotonic clock reading. It is modelled as nanoseconds since boot, an unbounded
  natural number; a \<open>Duration\<close> is a number of nanoseconds.
\<close>

type_synonym instant = nat

definition secs :: "nat \<Rightarrow> nat" where
  "secs n = n * 1000000000"

definition millis :: "nat \<Rightarrow> nat" where
  "millis n = n * 1000000"

lemma secs_mono [simp]: "secs a \<le> secs b \<longleftrightarrow> a \<le> b"
  by (simp add: secs_def)

lemma secs_less [simp]: "secs a < secs b \<longleftrightarrow> a < b"
  by (simp add: secs_def)

lemma secs_0 [simp]: "secs 0 = 0"
  by (simp add: secs_def)

section \<open>Errors\<close>

text \<open>
  The error kinds of \<open>std::io::Error\<close> the program tells apart, the raw OS error number when the
  error came from a system call, and the error values of \<open>anyhow::Error\<close>: a message, a wrapped
  I/O error, or one of the library's parse errors.
\<close>

datatype io_kind =
  WouldBlock | WriteZero | UnexpectedEof | InvalidData | Interrupted | NotFound | OtherIo

datatype io_error = IoError (io_kind_of: io_kind) (io_os: "nat option") (io_text: string)

datatype err =
    Msg string
  | Io io_error
  | Utf8Err
  | ParseIntErr
  | Base64Err
  | TimeoutErr

text \<open>The text of an error, as \<open>Display\<close> renders it.\<close>

definition err_text :: "err \<Rightarrow> string" where
  "err_text e =
     (case e of Msg m \<Rightarrow> m | Io i \<Rightarrow> io_text i | Utf8Err \<Rightarrow> ''invalid utf-8 sequence''
      | ParseIntErr \<Rightarrow> ''invalid digit found in string'' | Base64Err \<Rightarrow> ''invalid base64''
      | TimeoutErr \<Rightarrow> ''timed out waiting on channel'')"

abbreviation io_err :: "io_kind \<Rightarrow> string \<Rightarrow> err" where
  "io_err k m \<equiv> Io (IoError k None m)"

section \<open>Results\<close>

text \<open>
  \<open>rbind\<close> is Rust's question mark on a pure \<open>Result\<close>, \<open>ensure\<close> is anyhow's \<open>ensure!\<close>.
\<close>

definition rbind :: "('e + 'a) \<Rightarrow> ('a \<Rightarrow> 'e + 'b) \<Rightarrow> 'e + 'b" where
  "rbind m f = (case m of Inl e \<Rightarrow> Inl e | Inr x \<Rightarrow> f x)"

definition ensure :: "bool \<Rightarrow> 'e \<Rightarrow> 'e + unit" where
  "ensure b e = (if b then Inr () else Inl e)"

fun is_ok :: "'e + 'a \<Rightarrow> bool" where
  "is_ok (Inr _) = True"
| "is_ok (Inl _) = False"

lemma rbind_Inl [simp]: "rbind (Inl e) f = Inl e"
  and rbind_Inr [simp]: "rbind (Inr x) f = f x"
  by (simp_all add: rbind_def)

lemma rbind_eq_Inr_iff [simp]:
  "rbind m f = Inr y \<longleftrightarrow> (\<exists>x. m = Inr x \<and> f x = Inr y)"
  by (cases m) auto

lemma rbind_eq_Inl_iff:
  "rbind m f = Inl e \<longleftrightarrow> m = Inl e \<or> (\<exists>x. m = Inr x \<and> f x = Inl e)"
  by (cases m) auto

lemma rbind_cong [fundef_cong]:
  "m = m' \<Longrightarrow> (\<And>x. m' = Inr x \<Longrightarrow> f x = g x) \<Longrightarrow> rbind m f = rbind m' g"
  by (cases m') auto

lemma ensure_eq_Inr_iff [simp]: "ensure b e = Inr u \<longleftrightarrow> b"
  and ensure_eq_Inl_iff [simp]: "ensure b e = Inl e' \<longleftrightarrow> \<not> b \<and> e' = e"
  and ensure_True [simp]: "ensure True e = Inr ()"
  and ensure_False [simp]: "ensure False e = Inl e"
  by (auto simp: ensure_def)

lemma is_ok_iff: "is_ok r \<longleftrightarrow> (\<exists>x. r = Inr x)"
  by (cases r) auto

lemma not_is_ok_iff: "\<not> is_ok r \<longleftrightarrow> (\<exists>e. r = Inl e)"
  by (cases r) auto

text \<open>
  A \<open>&mut self\<close> method that returns a \<open>Result\<close> leaves its state changed also when it fails, so
  its model returns the result and the state. \<open>sbind\<close> is the question mark there: an error
  returns at once, with the state reached so far.
\<close>

type_synonym ('a, 's) outcome = "(err + 'a) \<times> 's"

definition sbind :: "('a, 's) outcome \<Rightarrow> ('a \<Rightarrow> 's \<Rightarrow> ('b, 's) outcome) \<Rightarrow> ('b, 's) outcome" where
  "sbind m f = (case fst m of Inl e \<Rightarrow> (Inl e, snd m) | Inr x \<Rightarrow> f x (snd m))"

lemma sbind_Inl [simp]: "sbind (Inl e, s) f = (Inl e, s)"
  and sbind_Inr [simp]: "sbind (Inr x, s) f = f x s"
  by (simp_all add: sbind_def)

lemma sbind_eq_Inr_iff:
  "sbind m f = (Inr y, t) \<longleftrightarrow> (\<exists>x s. m = (Inr x, s) \<and> f x s = (Inr y, t))"
  by (cases m; cases "fst m") auto

lemma sbind_cong [fundef_cong]:
  "m = m' \<Longrightarrow> (\<And>x s. m' = (Inr x, s) \<Longrightarrow> f x s = g x s) \<Longrightarrow> sbind m f = sbind m' g"
  by (cases m'; cases "fst m'") auto

text \<open>An invariant of the state passes through \<open>sbind\<close> when both parts keep it.\<close>

lemma sbind_keeps:
  assumes "P (snd m)" and "\<And>x s. m = (Inr x, s) \<Longrightarrow> P s \<Longrightarrow> P (snd (f x s))"
  shows "P (snd (sbind m f))"
  using assms by (cases m; cases "fst m") auto

section \<open>Lists\<close>

text \<open>\<open>strip_prefix\<close> and \<open>split_once\<close> of Rust's \<open>str\<close>, on lists.\<close>

fun strip_prefix :: "'a list \<Rightarrow> 'a list \<Rightarrow> 'a list option" where
  "strip_prefix [] s = Some s"
| "strip_prefix (_ # _) [] = None"
| "strip_prefix (p # ps) (x # xs) = (if p = x then strip_prefix ps xs else None)"

fun split_once :: "'a \<Rightarrow> 'a list \<Rightarrow> ('a list \<times> 'a list) option" where
  "split_once c [] = None"
| "split_once c (x # xs) =
     (if x = c then Some ([], xs)
      else map_option (\<lambda>(a, b). (x # a, b)) (split_once c xs))"

text \<open>\<open>str::split\<close> on the characters that satisfy a test: never empty, one piece per separator
  more.\<close>

fun split_on :: "('a \<Rightarrow> bool) \<Rightarrow> 'a list \<Rightarrow> 'a list list" where
  "split_on p [] = [[]]"
| "split_on p (x # xs) =
     (if p x then [] # split_on p xs
      else (case split_on p xs of [] \<Rightarrow> [[x]] | w # ws \<Rightarrow> (x # w) # ws))"

definition starts_with :: "'a list \<Rightarrow> 'a list \<Rightarrow> bool" where
  "starts_with s p = (strip_prefix p s \<noteq> None)"

lemma strip_prefix_iff [simp]: "strip_prefix p s = Some t \<longleftrightarrow> s = p @ t"
  by (induction p s rule: strip_prefix.induct) auto

lemma strip_prefix_append [simp]: "strip_prefix p (p @ t) = Some t"
  by simp

lemma strip_prefix_None_iff: "strip_prefix p s = None \<longleftrightarrow> (\<forall>t. s \<noteq> p @ t)"
proof -
  have "strip_prefix p s = None \<longleftrightarrow> (\<forall>t. strip_prefix p s \<noteq> Some t)"
    by (cases "strip_prefix p s") auto
  then show ?thesis by simp
qed

lemma starts_with_iff: "starts_with s p \<longleftrightarrow> (\<exists>t. s = p @ t)"
  by (auto simp: starts_with_def strip_prefix_None_iff)

lemma split_once_iff:
  "split_once c s = Some (a, b) \<longleftrightarrow> s = a @ c # b \<and> c \<notin> set a"
proof (induction s arbitrary: a)
  case Nil
  then show ?case by simp
next
  case (Cons x s)
  then show ?case by (cases a) auto
qed

lemma split_once_None_iff: "split_once c s = None \<longleftrightarrow> c \<notin> set s"
  by (induction s) auto

lemma split_on_not_Nil [simp]: "split_on p xs \<noteq> []"
  by (cases xs) (auto split: list.splits)

lemma split_on_append_sep:
  "(\<And>x. x \<in> set w \<Longrightarrow> \<not> p x) \<Longrightarrow> p c \<Longrightarrow> split_on p (w @ c # xs) = w # split_on p xs"
  by (induction w) auto

lemma split_on_word: "(\<And>x. x \<in> set w \<Longrightarrow> \<not> p x) \<Longrightarrow> split_on p w = [w]"
  by (induction w) auto

lemma split_on_no_sep: "w \<in> set (split_on p xs) \<Longrightarrow> x \<in> set w \<Longrightarrow> \<not> p x"
proof (induction xs arbitrary: w)
  case Nil
  then show ?case by simp
next
  case (Cons a xs)
  obtain v vs where v: "split_on p xs = v # vs"
    by (cases "split_on p xs") auto
  show ?case
  proof (cases "p a")
    case True
    with Cons.prems Cons.IH show ?thesis by auto
  next
    case False
    with Cons.prems v have "w = a # v \<or> w \<in> set vs" by simp
    with Cons.IH [of v] Cons.IH [of w] Cons.prems(2) v False show ?thesis by auto
  qed
qed

lemma sum_list_map_le_member:
  fixes f :: "'a \<Rightarrow> nat"
  shows "x \<in> set xs \<Longrightarrow> f x \<le> sum_list (map f xs)"
  by (induction xs) auto

lemma sum_list_filter_le:
  fixes f :: "'a \<Rightarrow> nat"
  shows "sum_list (map f (filter p xs)) \<le> sum_list (map f xs)"
  by (induction xs) auto

lemma take_drop_split: "n \<le> length r \<Longrightarrow> r = take n r @ drop n r"
  by simp

end
