(* ===== verification/Bytes.thy ===== *)
theory Bytes
  imports Prelude
begin

text \<open>
  Byte strings: little-endian and big-endian integers (\<open>to_le_bytes\<close>, \<open>from_be_bytes\<close> and their
  kin), \<open>read_exact\<close>, and the correspondence of Rust strings with byte lists. A Rust \<open>str\<close> is
  modelled as the list of its UTF-8 bytes, one \<open>char\<close> per byte, so \<open>length\<close> is \<open>str::len\<close>.
\<close>

section \<open>Integers as bytes\<close>

fun le_bytes :: "nat \<Rightarrow> nat \<Rightarrow> u8 list" where
  "le_bytes 0 n = []"
| "le_bytes (Suc k) n = word_of_nat n # le_bytes k (n div 256)"

fun le_nat :: "u8 list \<Rightarrow> nat" where
  "le_nat [] = 0"
| "le_nat (b # bs) = unat b + 256 * le_nat bs"

lemma length_le_bytes [simp]: "length (le_bytes k n) = k"
  by (induction k arbitrary: n) auto

lemma unat_u8_of_nat: "unat (word_of_nat n :: u8) = n mod 256"
  by (simp add: unat_of_nat)

lemma le_nat_le_bytes [simp]: "le_nat (le_bytes k n) = n mod 256 ^ k"
proof (induction k arbitrary: n)
  case 0
  then show ?case by simp
next
  case (Suc k)
  have "n mod 256 ^ Suc k = 256 * (n div 256 mod 256 ^ k) + n mod 256"
    by (simp add: mod_mult2_eq)
  with Suc show ?case by (simp add: unat_u8_of_nat)
qed

lemma unat_u8_less [simp]: "unat (b :: u8) < 256"
  using unsigned_less [where 'a = nat, of b] by simp

lemma unat_u8_div_16 [simp]: "unat (b :: u8) div 16 < 16"
  by (rule less_mult_imp_div_less) simp

lemma unat_u16_less [simp]: "unat (b :: u16) < 65536"
  using unsigned_less [where 'a = nat, of b] by simp

lemma unat_u32_less [simp]: "unat (b :: u32) < 4294967296"
  using unsigned_less [where 'a = nat, of b] by simp

lemma unat_u64_less [simp]: "unat (b :: u64) < 18446744073709551616"
  using unsigned_less [where 'a = nat, of b] by simp

lemma le_nat_less: "le_nat bs < 256 ^ length bs"
proof (induction bs)
  case Nil
  then show ?case by simp
next
  case (Cons b bs)
  obtain P :: nat where P: "P = 256 ^ length bs" by simp
  have "unat b < 256" by simp
  moreover have "le_nat bs < P" using Cons P by simp
  ultimately have "unat b + 256 * le_nat bs < 256 * P" by arith
  with P show ?case by simp
qed

lemma le_bytes_le_nat [simp]: "le_bytes (length bs) (le_nat bs) = bs"
proof (induction bs)
  case Nil
  then show ?case by simp
next
  case (Cons b bs)
  have "(unat b + 256 * le_nat bs) div 256 = le_nat bs"
    using unat_u8_less [of b] by simp
  moreover have "word_of_nat (unat b + 256 * le_nat bs) = b"
  proof -
    have "unat (word_of_nat (unat b + 256 * le_nat bs) :: u8) = unat b"
      by (simp only: unat_u8_of_nat) simp
    then show ?thesis by (simp only: word_unat_eq_iff)
  qed
  ultimately show ?case using Cons by simp
qed

definition to_le32 :: "u32 \<Rightarrow> u8 list" where
  "to_le32 w = le_bytes 4 (unat w)"

definition from_le32 :: "u8 list \<Rightarrow> u32" where
  "from_le32 bs = word_of_nat (le_nat bs)"

definition to_le64 :: "u64 \<Rightarrow> u8 list" where
  "to_le64 w = le_bytes 8 (unat w)"

definition to_be16 :: "u16 \<Rightarrow> u8 list" where
  "to_be16 w = rev (le_bytes 2 (unat w))"

definition from_be16 :: "u8 list \<Rightarrow> u16" where
  "from_be16 bs = word_of_nat (le_nat (rev bs))"

definition to_be32 :: "u32 \<Rightarrow> u8 list" where
  "to_be32 w = rev (le_bytes 4 (unat w))"

definition from_be32 :: "u8 list \<Rightarrow> u32" where
  "from_be32 bs = word_of_nat (le_nat (rev bs))"

lemma length_to_bytes [simp]:
  "length (to_le32 w) = 4" "length (to_le64 x) = 8" "length (to_be16 y) = 2" "length (to_be32 w) = 4"
  by (simp_all add: to_le32_def to_le64_def to_be16_def to_be32_def)

lemma from_to_le32 [simp]: "from_le32 (to_le32 w) = w"
  by (simp add: from_le32_def to_le32_def)

lemma to_from_le32 [simp]: "length bs = 4 \<Longrightarrow> to_le32 (from_le32 bs) = bs"
  using le_nat_less [of bs] le_bytes_le_nat [of bs]
  by (simp add: from_le32_def to_le32_def unat_of_nat del: le_bytes_le_nat)

lemma from_to_be32 [simp]: "from_be32 (to_be32 w) = w"
  by (simp add: from_be32_def to_be32_def)

lemma to_from_be32 [simp]: "length bs = 4 \<Longrightarrow> to_be32 (from_be32 bs) = bs"
  using le_nat_less [of "rev bs"] le_bytes_le_nat [of "rev bs"]
  by (simp add: from_be32_def to_be32_def unat_of_nat del: le_bytes_le_nat)

lemma from_to_be16 [simp]: "from_be16 (to_be16 w) = w"
  by (simp add: from_be16_def to_be16_def)

lemma to_from_be16 [simp]: "length bs = 2 \<Longrightarrow> to_be16 (from_be16 bs) = bs"
  using le_nat_less [of "rev bs"] le_bytes_le_nat [of "rev bs"]
  by (simp add: from_be16_def to_be16_def unat_of_nat del: le_bytes_le_nat)

lemma unat_u32_of_nat [simp]: "n < 2 ^ 32 \<Longrightarrow> unat (word_of_nat n :: u32) = n"
  by (simp add: unat_of_nat)

section \<open>Reading exactly n bytes\<close>

text \<open>
  A blocking reader is the list of the bytes it still delivers before end of file.
  \<open>read_exact\<close> fails with \<open>UnexpectedEof\<close> when fewer than \<open>n\<close> are left.
\<close>

definition read_exact :: "nat \<Rightarrow> u8 list \<Rightarrow> err + (u8 list \<times> u8 list)" where
  "read_exact n r =
     (if n \<le> length r then Inr (take n r, drop n r)
      else Inl (io_err UnexpectedEof ''failed to fill whole buffer''))"

lemma read_exact_iff [simp]:
  "read_exact n r = Inr (a, b) \<longleftrightarrow> length a = n \<and> r = a @ b"
  by (auto simp: read_exact_def)

lemma read_exact_append [simp]: "length a = n \<Longrightarrow> read_exact n (a @ b) = Inr (a, b)"
  by simp

lemma read_exact_short:
  "length r < n \<Longrightarrow> read_exact n r = Inl (io_err UnexpectedEof ''failed to fill whole buffer'')"
  by (simp add: read_exact_def)

section \<open>Strings\<close>

definition str_bytes :: "string \<Rightarrow> u8 list" where
  "str_bytes s = map (\<lambda>c. word_of_nat (of_char c)) s"

definition bytes_str :: "u8 list \<Rightarrow> string" where
  "bytes_str bs = map (\<lambda>b. char_of (unat b)) bs"

lemma length_str_bytes [simp]: "length (str_bytes s) = length s"
  and length_bytes_str [simp]: "length (bytes_str bs) = length bs"
  by (simp_all add: str_bytes_def bytes_str_def)

lemma bytes_str_bytes [simp]: "bytes_str (str_bytes s) = s"
proof -
  have "(of_char c :: nat) < 256" for c :: char
    using nat_of_char_less_256 by simp
  then show ?thesis
    by (simp add: bytes_str_def str_bytes_def unat_u8_of_nat map_idI)
qed

lemma str_bytes_str [simp]: "str_bytes (bytes_str bs) = bs"
  by (simp add: bytes_str_def str_bytes_def map_idI)

lemma str_bytes_append [simp]: "str_bytes (s @ t) = str_bytes s @ str_bytes t"
  by (simp add: str_bytes_def)

lemma str_bytes_Nil [simp]: "str_bytes [] = []"
  by (simp add: str_bytes_def)

lemma bytes_str_append [simp]: "bytes_str (s @ t) = bytes_str s @ bytes_str t"
  by (simp add: bytes_str_def)

lemma bytes_str_Nil [simp]: "bytes_str [] = []"
  by (simp add: bytes_str_def)

text \<open>The NUL byte; \<open>str::contains(char)\<close> for an ASCII character is membership.\<close>

abbreviation NUL :: char where
  "NUL \<equiv> CHR 0x00"

text \<open>
  \<open>str::from_utf8\<close>: well-formed UTF-8 as the standard defines it (no overlong forms, no
  surrogates, nothing above U+10FFFF), read left to right.
\<close>

definition utf8_cont :: "u8 \<Rightarrow> bool" where
  "utf8_cont b = (0x80 \<le> b \<and> b \<le> 0xBF)"

fun utf8_valid :: "u8 list \<Rightarrow> bool" where
  "utf8_valid [] = True"
| "utf8_valid (a # r) =
     (if a \<le> 0x7F then utf8_valid r
      else if 0xC2 \<le> a \<and> a \<le> 0xDF then
        (case r of b # r' \<Rightarrow> utf8_cont b \<and> utf8_valid r' | _ \<Rightarrow> False)
      else if 0xE0 \<le> a \<and> a \<le> 0xEF then
        (case r of b # c # r' \<Rightarrow>
           utf8_cont b \<and> utf8_cont c \<and> (a = 0xE0 \<longrightarrow> 0xA0 \<le> b) \<and> (a = 0xED \<longrightarrow> b \<le> 0x9F)
             \<and> utf8_valid r'
         | _ \<Rightarrow> False)
      else if 0xF0 \<le> a \<and> a \<le> 0xF4 then
        (case r of b # c # d # r' \<Rightarrow>
           utf8_cont b \<and> utf8_cont c \<and> utf8_cont d
             \<and> (a = 0xF0 \<longrightarrow> 0x90 \<le> b) \<and> (a = 0xF4 \<longrightarrow> b \<le> 0x8F) \<and> utf8_valid r'
         | _ \<Rightarrow> False)
      else False)"

definition from_utf8 :: "u8 list \<Rightarrow> err + string" where
  "from_utf8 bs = (if utf8_valid bs then Inr (bytes_str bs) else Inl Utf8Err)"

lemma from_utf8_iff [simp]: "from_utf8 bs = Inr s \<longleftrightarrow> utf8_valid bs \<and> s = bytes_str bs"
  by (auto simp: from_utf8_def)

lemma utf8_valid_ascii: "(\<And>b. b \<in> set bs \<Longrightarrow> b \<le> 0x7F) \<Longrightarrow> utf8_valid bs"
  by (induction bs) auto

section \<open>Characters\<close>

text \<open>The byte of a character.\<close>

abbreviation code :: "char \<Rightarrow> nat" where
  "code c \<equiv> of_char c"

lemma code_less [simp]: "code c < 256"
  using nat_of_char_less_256 by simp

lemma code_char_of [simp]: "n < 256 \<Longrightarrow> code (char_of n) = n"
  by simp

lemma char_eq_code: "c = d \<longleftrightarrow> code c = code d"
  by (metis char_of_char)

definition is_ascii :: "string \<Rightarrow> bool" where
  "is_ascii s = list_all (\<lambda>c. code c < 128) s"

definition is_digit :: "char \<Rightarrow> bool" where
  "is_digit c = (48 \<le> code c \<and> code c \<le> 57)"

definition digit_val :: "char \<Rightarrow> nat" where
  "digit_val c = code c - 48"

text \<open>
  \<open>str::parse::<u16>\<close> and \<open>::<u32>\<close>: an optional plus sign, then one or more ASCII digits whose
  value fits the type; anything else is an error.
\<close>

definition parse_digits :: "string \<Rightarrow> nat option" where
  "parse_digits s =
     (if s \<noteq> [] \<and> list_all is_digit s
      then Some (foldl (\<lambda>a c. 10 * a + digit_val c) 0 s) else None)"

definition parse_uint :: "nat \<Rightarrow> string \<Rightarrow> err + nat" where
  "parse_uint bound s =
     (case parse_digits (case s of c # t \<Rightarrow> if c = CHR ''+'' then t else s | [] \<Rightarrow> s) of
        None \<Rightarrow> Inl ParseIntErr
      | Some n \<Rightarrow> if n < bound then Inr n else Inl ParseIntErr)"

definition parse_u16 :: "string \<Rightarrow> err + u16" where
  "parse_u16 s = rbind (parse_uint (2 ^ 16) s) (\<lambda>n. Inr (word_of_nat n))"

definition parse_u32 :: "string \<Rightarrow> err + u32" where
  "parse_u32 s = rbind (parse_uint (2 ^ 32) s) (\<lambda>n. Inr (word_of_nat n))"

text \<open>\<open>char::to_ascii_lowercase\<close> on a byte of a string.\<close>

definition to_lower :: "char \<Rightarrow> char" where
  "to_lower c = (if 65 \<le> code c \<and> code c \<le> 90 then char_of (code c + 32) else c)"

lemma from_utf8_ascii:
  assumes "is_ascii s"
  shows "from_utf8 (str_bytes s) = Inr s"
proof -
  have "word_of_nat (code c) \<le> (0x7F :: u8)" if "c \<in> set s" for c
  proof -
    have "code c < 128" using assms that by (auto simp: is_ascii_def list_all_iff)
    then show ?thesis by (simp add: word_le_nat_alt unat_of_nat)
  qed
  then have "utf8_valid (str_bytes s)"
    by (intro utf8_valid_ascii) (auto simp: str_bytes_def)
  then show ?thesis by simp
qed

text \<open>A string cut into its characters, each the list of its UTF-8 bytes.\<close>

definition utf8_extra :: "char \<Rightarrow> nat" where
  "utf8_extra c = (let n = code c
     in if n < 0x80 then 0 else if n < 0xE0 then 1 else if n < 0xF0 then 2 else 3)"

function utf8_chars :: "string \<Rightarrow> string list" where
  "utf8_chars [] = []"
| "utf8_chars (c # s) = (c # take (utf8_extra c) s) # utf8_chars (drop (utf8_extra c) s)"
  by pat_completeness auto
termination
  by (relation "measure length") auto

definition code_point :: "string \<Rightarrow> nat" where
  "code_point s =
     (case map (\<lambda>c. code c) s of
        [a] \<Rightarrow> a
      | [a, b] \<Rightarrow> (a - 0xC0) * 64 + (b - 0x80)
      | [a, b, c] \<Rightarrow> ((a - 0xE0) * 64 + (b - 0x80)) * 64 + (c - 0x80)
      | [a, b, c, d] \<Rightarrow> (((a - 0xF0) * 64 + (b - 0x80)) * 64 + (c - 0x80)) * 64 + (d - 0x80)
      | _ \<Rightarrow> 0)"

text \<open>\<open>char::is_whitespace\<close> (Unicode White_Space) and \<open>char::is_control\<close> (category Cc).\<close>

definition is_whitespace :: "string \<Rightarrow> bool" where
  "is_whitespace s = (let n = code_point s in
     9 \<le> n \<and> n \<le> 13 \<or> n = 32 \<or> n = 0x85 \<or> n = 0xA0 \<or> n = 0x1680 \<or> 0x2000 \<le> n \<and> n \<le> 0x200A
       \<or> n = 0x2028 \<or> n = 0x2029 \<or> n = 0x202F \<or> n = 0x205F \<or> n = 0x3000)"

definition is_control :: "string \<Rightarrow> bool" where
  "is_control s = (let n = code_point s in n < 32 \<or> 127 \<le> n \<and> n < 160)"

text \<open>\<open>str::trim\<close>.\<close>

definition trim :: "string \<Rightarrow> string" where
  "trim s = concat (rev (dropWhile is_whitespace (rev (dropWhile is_whitespace (utf8_chars s)))))"

definition is_alnum :: "char \<Rightarrow> bool" where
  "is_alnum c = (is_digit c \<or> 65 \<le> code c \<and> code c \<le> 90 \<or> 97 \<le> code c \<and> code c \<le> 122)"

definition to_upper :: "char \<Rightarrow> char" where
  "to_upper c = (if 97 \<le> code c \<and> code c \<le> 122 then char_of (code c - 32) else c)"

text \<open>Decimal rendering of a natural number (\<open>Display\<close> of the unsigned types).\<close>

fun show_nat :: "nat \<Rightarrow> string" where
  "show_nat n =
     (if n < 10 then [char_of (48 + n)] else show_nat (n div 10) @ [char_of (48 + n mod 10)])"

declare show_nat.simps [simp del]

definition hex_digit :: "nat \<Rightarrow> char" where
  "hex_digit n = (if n < 10 then char_of (48 + n) else char_of (87 + n))"

text \<open>\<open>{:04x}\<close>: lower-case hexadecimal, padded with zeros to four digits.\<close>

fun show_hex :: "nat \<Rightarrow> string" where
  "show_hex n = (if n < 16 then [hex_digit n] else show_hex (n div 16) @ [hex_digit (n mod 16)])"

declare show_hex.simps [simp del]

definition show_hex4 :: "nat \<Rightarrow> string" where
  "show_hex4 n = replicate (4 - length (show_hex n)) (CHR ''0'') @ show_hex n"

end
