(* ===== verification/Protocol.thy ===== *)
theory Protocol
  imports Bytes
begin

text \<open>
  \<open>src/src/protocol.rs\<close>: the ADB packet and the shell frame. A reader is the byte list it still
  delivers; a writer receives the bytes of one \<open>write_all\<close>, which \<open>packet_write\<close> returns.
\<close>

section \<open>Constants\<close>

definition cmd_id :: "string \<Rightarrow> u32" where
  "cmd_id s = from_le32 (str_bytes s)"

definition VERSION :: u32 where "VERSION = 0x01000001"
definition STLS_VERSION :: u32 where "STLS_VERSION = 0x01000000"
definition MAX_PAYLOAD :: nat where "MAX_PAYLOAD = 1024 * 1024"
definition CHUNK :: nat where "CHUNK = 64 * 1024"
definition CNXN :: u32 where "CNXN = cmd_id ''CNXN''"
definition STLS :: u32 where "STLS = cmd_id ''STLS''"
definition OPEN :: u32 where "OPEN = cmd_id ''OPEN''"
definition OKAY :: u32 where "OKAY = cmd_id ''OKAY''"
definition WRTE :: u32 where "WRTE = cmd_id ''WRTE''"
definition CLSE :: u32 where "CLSE = cmd_id ''CLSE''"
definition FEATURES :: string where
  "FEATURES = ''shell_v2,cmd,stat_v2,ls_v2,sendrecv_v2''"

lemma command_values:
  "CNXN = 0x4e584e43" "STLS = 0x534c5453" "OPEN = 0x4e45504f"
  "OKAY = 0x59414b4f" "WRTE = 0x45545257" "CLSE = 0x45534c43"
  by (simp_all add: CNXN_def STLS_def OPEN_def OKAY_def WRTE_def CLSE_def cmd_id_def
      from_le32_def str_bytes_def)

section \<open>Packets\<close>

definition invalid :: "string \<Rightarrow> err" where
  "invalid s = io_err InvalidData s"

record packet =
  p_command :: u32
  p_arg0 :: u32
  p_arg1 :: u32
  p_data :: "u8 list"

definition packet_new :: "u32 \<Rightarrow> u32 \<Rightarrow> u32 \<Rightarrow> u8 list \<Rightarrow> packet" where
  "packet_new c a b d = \<lparr>p_command = c, p_arg0 = a, p_arg1 = b, p_data = d\<rparr>"

definition checksum_of :: "u8 list \<Rightarrow> u32" where
  "checksum_of d = foldl (\<lambda>a x. a + ucast x) 0 d"

definition header_field :: "u8 list \<Rightarrow> nat \<Rightarrow> u32" where
  "header_field h i = from_le32 (take 4 (drop (4 * i) h))"

definition packet_read :: "u8 list \<Rightarrow> nat \<Rightarrow> bool \<Rightarrow> err + (packet \<times> u8 list)" where
  "packet_read r lim checksum =
     rbind (read_exact 24 r) (\<lambda>(h, r).
     if header_field h 0 XOR header_field h 5 \<noteq> - 1 then Inl (invalid ''bad ADB magic'')
     else
       let len = unat (header_field h 3)
       in if min lim MAX_PAYLOAD < len then Inl (invalid ''ADB packet exceeds limit'')
          else rbind (read_exact len r) (\<lambda>(data, r).
            if checksum \<and> checksum_of data \<noteq> header_field h 4
            then Inl (invalid ''bad ADB checksum'')
            else Inr (packet_new (header_field h 0) (header_field h 1) (header_field h 2) data, r)))"

definition packet_write :: "packet \<Rightarrow> bool \<Rightarrow> err + u8 list" where
  "packet_write p checksum =
     (if MAX_PAYLOAD < length (p_data p) then Inl (invalid ''ADB packet exceeds limit'')
      else
        let cs = (if checksum then checksum_of (p_data p) else 0)
        in Inr (concat (map to_le32
             [p_command p, p_arg0 p, p_arg1 p, word_of_nat (length (p_data p)), cs,
              p_command p XOR (- 1)]) @ p_data p))"

section \<open>Shell frames\<close>

definition shell_frame :: "u8 \<Rightarrow> u8 list \<Rightarrow> u8 list" where
  "shell_frame channel data = [channel] @ to_le32 (word_of_nat (length data)) @ data"

definition shell_read :: "u8 list \<Rightarrow> err + ((u8 \<times> u8 list) \<times> u8 list)" where
  "shell_read r =
     rbind (read_exact 5 r) (\<lambda>(h, r).
     let len = unat (from_le32 (drop 1 h))
     in if MAX_PAYLOAD < len then Inl (invalid ''shell frame exceeds limit'')
        else rbind (read_exact len r) (\<lambda>(data, r). Inr ((hd h, data), r)))"

section \<open>What a packet looks like on the wire\<close>

definition packet_header :: "packet \<Rightarrow> u32 \<Rightarrow> u8 list" where
  "packet_header p cs =
     to_le32 (p_command p) @ to_le32 (p_arg0 p) @ to_le32 (p_arg1 p)
       @ to_le32 (word_of_nat (length (p_data p))) @ to_le32 cs @ to_le32 (p_command p XOR (- 1))"

lemma length_packet_header [simp]: "length (packet_header p s) = 24"
  by (simp add: packet_header_def)

lemma packet_write_eq:
  "packet_write p c = Inr b \<longleftrightarrow>
     length (p_data p) \<le> MAX_PAYLOAD
       \<and> b = packet_header p (if c then checksum_of (p_data p) else 0) @ p_data p"
  by (auto simp: packet_write_def packet_header_def Let_def)

lemma header_fields [simp]:
  "header_field (packet_header p s) 0 = p_command p"
  "header_field (packet_header p s) (Suc 0) = p_arg0 p"
  "header_field (packet_header p s) 2 = p_arg1 p"
  "header_field (packet_header p s) 3 = word_of_nat (length (p_data p))"
  "header_field (packet_header p s) 4 = s"
  "header_field (packet_header p s) 5 = p_command p XOR (- 1)"
  by (simp_all add: header_field_def packet_header_def)

text \<open>A list of 24 bytes is the concatenation of its six fields.\<close>

lemma header_split:
  assumes "length h = 24"
  shows "h = concat (map (\<lambda>i. to_le32 (header_field h i)) [0, 1, 2, 3, 4, 5])"
proof -
  have "to_le32 (header_field h i) = take 4 (drop (4 * i) h)" if "4 * i + 4 \<le> 24" for i
    using that assms by (simp add: header_field_def)
  then have "concat (map (\<lambda>i. to_le32 (header_field h i)) [0, 1, 2, 3, 4, 5])
      = take 4 h @ take 4 (drop 4 h) @ take 4 (drop 8 h) @ take 4 (drop 12 h)
        @ take 4 (drop 16 h) @ take 4 (drop 20 h)"
    by simp
  moreover have step: "drop n h = take 4 (drop n h) @ drop (4 + n) h" for n
    by (metis append_take_drop_id drop_drop)
  have "h = take 4 h @ take 4 (drop 4 h) @ take 4 (drop 8 h) @ take 4 (drop 12 h)
        @ take 4 (drop 16 h) @ take 4 (drop 20 h)"
    using step [of 0] step [of 4] step [of 8] step [of 12] step [of 16] step [of 20] assms
    by simp
  ultimately show ?thesis by simp
qed

lemma xor_minus_one: "a XOR b = (- 1 :: u32) \<longleftrightarrow> b = a XOR (- 1)"
proof
  assume "a XOR b = - 1"
  then have "a XOR (a XOR b) = a XOR (- 1)" by simp
  then show "b = a XOR (- 1)" by (simp flip: xor.assoc)
qed (simp flip: xor.assoc)

text \<open>
  The reader accepts exactly a header that names the packet, carries the complement of the
  command and any checksum field (the right one when checksums are on), and the payload.
\<close>

lemma packet_read_general:
  "packet_read r lim checksum = Inr (p, rest) \<longleftrightarrow>
     length (p_data p) \<le> min lim MAX_PAYLOAD
       \<and> (\<exists>s. (checksum \<longrightarrow> s = checksum_of (p_data p)) \<and> r = packet_header p s @ p_data p @ rest)"
    (is "?L = ?R")
proof
  assume ?L
  then obtain h d where h: "length h = 24" "r = h @ d @ rest"
    and magic: "header_field h 0 XOR header_field h 5 = - 1"
    and len: "\<not> min lim MAX_PAYLOAD < unat (header_field h 3)" "length d = unat (header_field h 3)"
    and sum: "checksum \<Longrightarrow> checksum_of d = header_field h 4"
    and p: "p = packet_new (header_field h 0) (header_field h 1) (header_field h 2) d"
    by (auto simp: packet_read_def Let_def split: if_splits)
  have "h = packet_header p (header_field h 4)"
    using header_split [OF h(1)] magic len(2)
    by (simp add: packet_header_def p packet_new_def xor_minus_one)
  with h len sum p show ?R by (fastforce simp: packet_new_def)
next
  assume ?R
  then obtain s where s: "length (p_data p) \<le> min lim MAX_PAYLOAD"
      "checksum \<Longrightarrow> s = checksum_of (p_data p)" "r = packet_header p s @ p_data p @ rest"
    by blast
  then have "length (p_data p) < 2 ^ 32" by (simp add: MAX_PAYLOAD_def)
  with s show ?L
    by (auto simp: packet_read_def packet_new_def xor_minus_one Let_def)
qed

lemma packet_read_short:
  assumes "length r < 24"
  shows "packet_read r lim checksum = Inl (io_err UnexpectedEof ''failed to fill whole buffer'')"
  using assms by (simp add: packet_read_def read_exact_short)

lemma packet_read_short_payload:
  assumes "length (p_data p) \<le> min lim MAX_PAYLOAD" and "length d < length (p_data p)"
  shows "packet_read (packet_header p s @ d) lim checksum
    = Inl (io_err UnexpectedEof ''failed to fill whole buffer'')"
proof -
  have "length (p_data p) < 2 ^ 32" using assms(1) by (simp add: MAX_PAYLOAD_def)
  with assms show ?thesis
    by (auto simp: packet_read_def Let_def read_exact_short xor_minus_one)
qed

lemma shell_frame_header:
  "shell_frame c d = (c # to_le32 (word_of_nat (length d))) @ d"
  by (simp add: shell_frame_def)

text \<open>
  C29: with checksums on, reading is the exact inverse of writing. A packet is read from a byte
  string, leaving \<open>rest\<close>, precisely when the string is what \<open>write\<close> produces for that packet
  followed by \<open>rest\<close> and the payload is within both the caller's and the protocol's limit. No
  other byte string is accepted, and no packet has two encodings.
\<close>

theorem packet_read_write_iff:
  "packet_read r lim True = Inr (p, rest) \<longleftrightarrow>
     length (p_data p) \<le> lim \<and> (\<exists>b. packet_write p True = Inr b \<and> r = b @ rest)"
  by (auto simp: packet_read_general packet_write_eq)

text \<open>
  A packet cut short anywhere is rejected as an unexpected end of file, whatever the
  checksum setting of the two sides: no prefix of an encoding is taken for a packet.
\<close>

theorem packet_truncation_rejected:
  assumes "packet_write p c = Inr b" and "length (p_data p) \<le> lim" and "n < length b"
  shows "packet_read (take n b) lim c' = Inl (io_err UnexpectedEof ''failed to fill whole buffer'')"
proof (cases "n < 24")
  case True
  then show ?thesis by (simp add: packet_read_short)
next
  case False
  obtain s where b: "b = packet_header p s @ p_data p" and len: "length (p_data p) \<le> MAX_PAYLOAD"
    using assms(1) by (auto simp: packet_write_eq)
  from False b have "take n b = packet_header p s @ take (n - 24) (p_data p)"
    by simp
  moreover have "length (take (n - 24) (p_data p)) < length (p_data p)"
    using False assms(3) b by auto
  ultimately show ?thesis using len assms(2) by (simp add: packet_read_short_payload)
qed

theorem packet_truncation_rejected_witness:
  "packet_read (take 26 (packet_header (packet_new WRTE 1 2 [104, 105, 0]) 209 @ [104, 105, 0])) 4096 False
     = Inl (io_err UnexpectedEof ''failed to fill whole buffer'')"
proof (rule packet_truncation_rejected)
  show "packet_write (packet_new WRTE 1 2 [104, 105, 0]) True
      = Inr (packet_header (packet_new WRTE 1 2 [104, 105, 0]) 209 @ [104, 105, 0])"
    by (simp add: packet_write_eq packet_new_def checksum_of_def MAX_PAYLOAD_def)
qed (simp_all add: packet_new_def)

lemma shell_read_frame:
  assumes "length d \<le> MAX_PAYLOAD"
  shows "shell_read (shell_frame c d @ rest) = Inr ((c, d), rest)"
proof -
  have "length d < 2 ^ 32" using assms by (simp add: MAX_PAYLOAD_def)
  then have "shell_read ((c # to_le32 (word_of_nat (length d))) @ d @ rest) = Inr ((c, d), rest)"
    unfolding shell_read_def using assms by (subst read_exact_append) (auto simp: Let_def)
  then show ?thesis by (simp add: shell_frame_def)
qed

lemma shell_read_progress: "shell_read r = Inr (x, rest) \<Longrightarrow> length rest < length r"
  by (auto simp: shell_read_def Let_def split: if_splits)

text \<open>
  The shell v2 frame has exactly one reading: a frame is read off a byte string precisely
  when the string starts with the encoding of that frame, and frames above 1 MiB never are.
\<close>

theorem shell_read_frame_iff:
  "shell_read r = Inr ((c, d), rest) \<longleftrightarrow>
     length d \<le> MAX_PAYLOAD \<and> r = shell_frame c d @ rest"
    (is "?L = ?R")
proof
  assume ?L
  then obtain h where h: "length h = 5" "r = h @ d @ rest" "c = hd h"
      "length d = unat (from_le32 (drop 1 h))" "length d \<le> MAX_PAYLOAD"
    by (auto simp: shell_read_def Let_def split: if_splits)
  then obtain t where t: "h = c # t" "length t = 4" by (cases h) auto
  have "from_le32 t = word_of_nat (length d)" unfolding h(4) t(1) by simp
  with to_from_le32 [OF t(2)] have "t = to_le32 (word_of_nat (length d))" by metis
  with h(2,5) t(1) show ?R by (simp add: shell_frame_def)
next
  assume ?R
  then show ?L using shell_read_frame by simp
qed

end
