(* ===== verification/Config.thy ===== *)
theory Config
  imports Bytes
begin

text \<open>
  \<open>src/src/config.rs\<close>: the limits of the program, the user's settings and their validation, the
  record of a paired computer, and the requests of the control socket. Their JSON form is
  serde's and is not modelled.
\<close>

section \<open>Limits\<close>

definition MIN_KSU :: u32 where "MIN_KSU = 32525"
definition MAX_HOSTS :: nat where "MAX_HOSTS = 32"
definition MAX_TRANSPORTS :: nat where "MAX_TRANSPORTS = 8"
definition MAX_STREAMS :: nat where "MAX_STREAMS = 64"
definition PAIR_SECONDS :: nat where "PAIR_SECONDS = 300"
definition MAX_PAIR_FAILURES :: nat where "MAX_PAIR_FAILURES = 10"

lemmas limit_defs = MAX_HOSTS_def MAX_TRANSPORTS_def MAX_STREAMS_def PAIR_SECONDS_def
  MAX_PAIR_FAILURES_def

section \<open>Settings\<close>

datatype port_mode = Random | Fixed

record config =
  cf_enabled :: bool
  cf_port_mode :: port_mode
  cf_fixed_port :: u16
  cf_allow_adb_root :: bool
  cf_allow_shell_root :: bool

definition default_config :: config where
  "default_config =
     \<lparr>cf_enabled = True, cf_port_mode = Random, cf_fixed_port = 5555,
      cf_allow_adb_root = False, cf_allow_shell_root = False\<rparr>"

definition config_validate :: "config \<Rightarrow> err + unit" where
  "config_validate c = ensure (cf_fixed_port c \<ge> 1024) 
     (Msg (''fixed port must be 1024'' @ [CHR 0xE2, CHR 0x80, CHR 0x93] @ ''65535''))"

definition config_port :: "config \<Rightarrow> u16" where
  "config_port c = (if cf_port_mode c = Random then 0 else cf_fixed_port c)"

section \<open>Paired computers and control requests\<close>

record host =
  h_fingerprint :: string
  h_public_key :: string
  h_name :: string
  h_paired_at :: u64
  h_last_connected :: "u64 option"

datatype control =
    CStatus
  | CConfigure config
  | CPairStart
  | CPairStop
  | CRevoke string
  | CLogs
  | CStop

text \<open>A validated configuration never asks for a privileged port: it asks for a random one (0)
  or for one from 1024 up; the defaults are valid and grant no root.\<close>

lemma config_port_validated:
  "config_validate c = Inr () \<Longrightarrow> config_port c = 0 \<or> 1024 \<le> config_port c"
  by (simp add: config_validate_def config_port_def)

lemma default_config_valid:
  "config_validate default_config = Inr ()" "config_port default_config = 0"
  by (simp_all add: config_validate_def config_port_def default_config_def)

end
