(* ===== verification/Ordered_Map.thy ===== *)
theory Ordered_Map
  imports Prelude
begin

text \<open>
  \<open>std::collections::BTreeMap\<close> as the list of its entries in key order, with the operations the
  program uses. \<open>HashMap\<close> values are modelled by the same type: the program never lets the
  iteration order of a \<open>HashMap\<close> show. The contract of a map is the locale \<open>finite_map\<close>; what the
  clients need of it is proved there once and instantiated for the entry lists.
\<close>

section \<open>Entry lists\<close>

type_synonym ('k, 'v) btree = "('k \<times> 'v) list"

definition bt_get :: "('k, 'v) btree \<Rightarrow> 'k \<Rightarrow> 'v option" where
  "bt_get m k = map_of m k"

fun bt_insert :: "'k::linorder \<Rightarrow> 'v \<Rightarrow> ('k, 'v) btree \<Rightarrow> ('k, 'v) btree" where
  "bt_insert k v [] = [(k, v)]"
| "bt_insert k v ((k', v') # m) =
     (if k < k' then (k, v) # (k', v') # m
      else if k = k' then (k, v) # m
      else (k', v') # bt_insert k v m)"

definition bt_remove :: "'k \<Rightarrow> ('k, 'v) btree \<Rightarrow> ('k, 'v) btree" where
  "bt_remove k m = filter (\<lambda>e. fst e \<noteq> k) m"

text \<open>\<open>get_mut\<close> followed by a write through the reference.\<close>

definition bt_update :: "'k \<Rightarrow> 'v \<Rightarrow> ('k, 'v) btree \<Rightarrow> ('k, 'v) btree" where
  "bt_update k v m = map (\<lambda>e. if fst e = k then (k, v) else e) m"

definition bt_keys :: "('k, 'v) btree \<Rightarrow> 'k list" where
  "bt_keys m = map fst m"

definition bt_values :: "('k, 'v) btree \<Rightarrow> 'v list" where
  "bt_values m = map snd m"

definition bt_ok :: "('k::linorder, 'v) btree \<Rightarrow> bool" where
  "bt_ok m = sorted_wrt (<) (bt_keys m)"

abbreviation bt_contains :: "('k, 'v) btree \<Rightarrow> 'k \<Rightarrow> bool" where
  "bt_contains m k \<equiv> bt_get m k \<noteq> None"

lemma bt_ok_Nil [simp]: "bt_ok []"
  by (simp add: bt_ok_def bt_keys_def)

lemma bt_get_Nil [simp]: "bt_get [] k = None"
  by (simp add: bt_get_def)

lemma bt_keys_Nil [simp]: "bt_keys [] = []"
  and bt_values_Nil [simp]: "bt_values [] = []"
  by (simp_all add: bt_keys_def bt_values_def)

lemma set_bt_insert_keys: "set (bt_keys (bt_insert k v m)) = insert k (set (bt_keys m))"
  by (induction k v m rule: bt_insert.induct) (auto simp: bt_keys_def)

lemma bt_ok_insert [simp]: "bt_ok m \<Longrightarrow> bt_ok (bt_insert k v m)"
proof (induction k v m rule: bt_insert.induct)
  case (1 k v)
  then show ?case by (simp add: bt_ok_def bt_keys_def)
next
  case (2 k v k' v' m)
  then show ?case
    using set_bt_insert_keys [of k v m] by (auto simp: bt_ok_def bt_keys_def)
qed

lemma bt_get_insert [simp]: "bt_ok m \<Longrightarrow> bt_get (bt_insert k v m) = (bt_get m)(k \<mapsto> v)"
proof (induction k v m rule: bt_insert.induct)
  case (1 k v)
  then show ?case by (auto simp: bt_get_def)
next
  case (2 k v k' v' m)
  then show ?case by (auto simp: bt_get_def bt_ok_def bt_keys_def fun_eq_iff)
qed

lemma length_bt_insert:
  "bt_ok m \<Longrightarrow> length (bt_insert k v m) = (if bt_contains m k then length m else Suc (length m))"
proof (induction k v m rule: bt_insert.induct)
  case (1 k v)
  then show ?case by simp
next
  case (2 k v k' v' m)
  have "k < k' \<Longrightarrow> bt_get m k = None"
  proof -
    assume "k < k'"
    then have "k \<notin> fst ` set m" using 2 by (auto simp: bt_ok_def bt_keys_def)
    then show "bt_get m k = None" by (metis bt_get_def map_of_eq_None_iff)
  qed
  with 2 show ?case by (auto simp: bt_get_def bt_ok_def bt_keys_def)
qed

lemma bt_ok_remove [simp]: "bt_ok m \<Longrightarrow> bt_ok (bt_remove k m)"
  by (induction m) (auto simp: bt_ok_def bt_keys_def bt_remove_def)

lemma bt_get_remove [simp]: "bt_get (bt_remove k m) = (bt_get m)(k := None)"
  by (induction m) (auto simp: bt_get_def bt_remove_def fun_eq_iff)

lemma length_bt_remove: "length (bt_remove k m) \<le> length m"
  by (simp add: bt_remove_def)

lemma bt_keys_update [simp]: "bt_keys (bt_update k v m) = bt_keys m"
  by (induction m) (auto simp: bt_keys_def bt_update_def)

lemma bt_ok_update [simp]: "bt_ok (bt_update k v m) = bt_ok m"
  by (simp add: bt_ok_def)

lemma length_bt_update [simp]: "length (bt_update k v m) = length m"
  by (simp add: bt_update_def)

lemma bt_get_update:
  "bt_get (bt_update k v m) = (if bt_contains m k then (bt_get m)(k \<mapsto> v) else bt_get m)"
  by (induction m) (auto simp: bt_get_def bt_update_def fun_eq_iff split: if_splits)

lemma bt_ok_distinct: "bt_ok m \<Longrightarrow> distinct (bt_keys m)"
  by (simp add: bt_ok_def strict_sorted_iff)

lemma bt_get_iff: "bt_ok m \<Longrightarrow> bt_get m k = Some v \<longleftrightarrow> (k, v) \<in> set m"
  using bt_ok_distinct [of m] by (simp add: bt_get_def bt_keys_def)

lemma bt_get_SomeD: "bt_get m k = Some v \<Longrightarrow> (k, v) \<in> set m"
  by (simp add: bt_get_def map_of_SomeD)

lemma bt_get_None_iff: "bt_get m k = None \<longleftrightarrow> k \<notin> set (bt_keys m)"
  by (simp add: bt_get_def bt_keys_def map_of_eq_None_iff)

lemma set_bt_insert: "bt_ok m \<Longrightarrow>
  set (bt_insert k v m) = insert (k, v) {e \<in> set m. fst e \<noteq> k}"
proof (induction k v m rule: bt_insert.induct)
  case (1 k v)
  then show ?case by simp
next
  case (2 k v k' v' m)
  then show ?case by (auto simp: bt_ok_def bt_keys_def)
qed

lemma set_bt_remove: "set (bt_remove k m) = {e \<in> set m. fst e \<noteq> k}"
  by (auto simp: bt_remove_def)

lemma set_bt_update: "set (bt_update k v m) \<subseteq> insert (k, v) {e \<in> set m. fst e \<noteq> k}"
  by (auto simp: bt_update_def)

section \<open>The contract of a map\<close>

locale finite_map =
  fixes lookup :: "'m \<Rightarrow> 'k \<Rightarrow> 'v option"
    and ins :: "'k \<Rightarrow> 'v \<Rightarrow> 'm \<Rightarrow> 'm"
    and del :: "'k \<Rightarrow> 'm \<Rightarrow> 'm"
    and entries :: "'m \<Rightarrow> nat"
    and invar :: "'m \<Rightarrow> bool"
  assumes lookup_ins: "invar m \<Longrightarrow> lookup (ins k v m) = (lookup m)(k \<mapsto> v)"
    and lookup_del: "invar m \<Longrightarrow> lookup (del k m) = (lookup m)(k := None)"
    and invar_ins: "invar m \<Longrightarrow> invar (ins k v m)"
    and invar_del: "invar m \<Longrightarrow> invar (del k m)"
    and entries_ins: "invar m \<Longrightarrow>
      entries (ins k v m) = (if lookup m k = None then Suc (entries m) else entries m)"
    and entries_del: "entries (del k m) \<le> entries m"
begin

text \<open>
  What the clients rely on: a test of every entry survives insertion and removal, a bound on
  the number of entries survives a guarded insertion, and what was inserted can be looked up.
\<close>

lemma all_ins:
  "invar m \<Longrightarrow> (\<And>j w. lookup m j = Some w \<Longrightarrow> P j w) \<Longrightarrow> P k v
     \<Longrightarrow> lookup (ins k v m) j = Some w \<Longrightarrow> P j w"
  by (auto simp: lookup_ins split: if_splits)

lemma all_del:
  "invar m \<Longrightarrow> (\<And>j w. lookup m j = Some w \<Longrightarrow> P j w) \<Longrightarrow> lookup (del k m) j = Some w \<Longrightarrow> P j w"
  by (auto simp: lookup_del split: if_splits)

lemma bounded_ins: "invar m \<Longrightarrow> entries m < n \<Longrightarrow> entries (ins k v m) \<le> n"
  by (simp add: entries_ins)

lemma bounded_del: "entries m \<le> n \<Longrightarrow> entries (del k m) \<le> n"
  using entries_del le_trans by blast

lemma lookup_ins_same: "invar m \<Longrightarrow> lookup (ins k v m) k = Some v"
  by (simp add: lookup_ins)

lemma lookup_del_same: "invar m \<Longrightarrow> lookup (del k m) k = None"
  by (simp add: lookup_del)

lemma del_ins: "invar m \<Longrightarrow> lookup m k = None \<Longrightarrow> lookup (del k (ins k v m)) = lookup m"
  by (simp add: lookup_ins lookup_del invar_ins fun_eq_iff)

end

interpretation bt: finite_map bt_get bt_insert bt_remove length bt_ok
proof unfold_locales
  fix m :: "('k::linorder, 'v) btree" and k :: 'k and v :: 'v
  show "bt_ok m \<Longrightarrow> length (bt_insert k v m) = (if bt_get m k = None then Suc (length m) else length m)"
    by (simp add: length_bt_insert)
qed (auto simp: length_bt_remove)

end
