(* ===== verification/Sockets.thy ===== *)
theory Sockets
  imports Bytes
begin

text \<open>
  The operating system's side of a stream socket. What the peer and the kernel will do is a
  script: the results the next reads and writes give, in order. A script that is used up leaves
  the socket with nothing to read and no room to write, so it would block (or, for a blocking
  socket with a timeout, time out, which Rust reports as the same \<open>WouldBlock\<close>). Theorems
  hold for every script, so for every behaviour of the peer up to any moment.

  \<open>s_sent\<close> collects the bytes the kernel accepted, in order.
\<close>

datatype rx_event = RData "u8 list" | RErr io_error
datatype tx_event = TAccept nat | TErr io_error

record sock =
  s_rx :: "rx_event list"
  s_tx :: "tx_event list"
  s_sent :: "u8 list"
  s_shut :: bool

abbreviation would_block :: io_error where
  "would_block \<equiv> IoError WouldBlock None ''would block''"

definition sock_new :: "rx_event list \<Rightarrow> tx_event list \<Rightarrow> sock" where
  "sock_new r t = \<lparr>s_rx = r, s_tx = t, s_sent = [], s_shut = False\<rparr>"

text \<open>\<open>Read::read\<close> into a buffer of \<open>n\<close> bytes; the empty list is end of file.\<close>

definition sock_read :: "nat \<Rightarrow> sock \<Rightarrow> (io_error + u8 list) \<times> sock" where
  "sock_read n s =
     (case s_rx s of
        [] \<Rightarrow> (Inl would_block, s)
      | RErr e # r \<Rightarrow> (Inl e, s\<lparr>s_rx := r\<rparr>)
      | RData b # r \<Rightarrow>
          if length b \<le> n then (Inr b, s\<lparr>s_rx := r\<rparr>)
          else (Inr (take n b), s\<lparr>s_rx := RData (drop n b) # r\<rparr>))"

text \<open>\<open>Write::write\<close>: the kernel accepts a prefix, possibly empty, or reports an error.\<close>

definition sock_write :: "u8 list \<Rightarrow> sock \<Rightarrow> (io_error + nat) \<times> sock" where
  "sock_write b s =
     (case s_tx s of
        [] \<Rightarrow> (Inl would_block, s)
      | TErr e # r \<Rightarrow> (Inl e, s\<lparr>s_tx := r\<rparr>)
      | TAccept k # r \<Rightarrow>
          (Inr (min k (length b)), s\<lparr>s_tx := r, s_sent := s_sent s @ take k b\<rparr>))"

definition sock_shutdown :: "sock \<Rightarrow> sock" where
  "sock_shutdown s = s\<lparr>s_shut := True\<rparr>"

lemma sock_write_InrD:
  "sock_write b s = (Inr n, s') \<Longrightarrow>
     n \<le> length b \<and> s_sent s' = s_sent s @ take n b \<and> length (s_tx s') < length (s_tx s)
       \<and> s_rx s' = s_rx s \<and> s_shut s' = s_shut s"
  by (auto simp: sock_write_def min_def split: list.splits tx_event.splits)

lemma sock_write_InlD:
  "sock_write b s = (Inl e, s') \<Longrightarrow> s_sent s' = s_sent s \<and> s_rx s' = s_rx s \<and> s_shut s' = s_shut s"
  by (auto simp: sock_write_def split: list.splits tx_event.splits)

lemma sock_read_sent: "sock_read n s = (r, s') \<Longrightarrow> s_sent s' = s_sent s \<and> s_tx s' = s_tx s"
  by (auto simp: sock_read_def split: list.splits rx_event.splits if_splits)

lemma sock_read_length: "sock_read n s = (Inr b, s') \<Longrightarrow> length b \<le> n"
  by (auto simp: sock_read_def split: list.splits rx_event.splits if_splits)

text \<open>
  A read uses up script: the measure counts the events and the bytes they hold, so a loop that
  reads into a non-empty buffer makes progress.
\<close>

definition rx_size :: "sock \<Rightarrow> nat" where
  "rx_size s = sum_list (map (\<lambda>e. case e of RData b \<Rightarrow> Suc (length b) | RErr _ \<Rightarrow> 1) (s_rx s))"

lemma sock_read_progress:
  "sock_read n s = (Inr b, s') \<Longrightarrow> 0 < n \<Longrightarrow> rx_size s' < rx_size s"
  by (auto simp: sock_read_def rx_size_def split: list.splits rx_event.splits if_splits)

end
