(* ===== verification/Crypto.thy ===== *)
theory Crypto
  imports Bytes Config
begin

text \<open>
  \<open>src/src/crypto.rs\<close>, the parts that are not TLS: hexadecimal, the six-digit code, the
  validation of a host key, and the SPAKE2 session with its message counters (whose C side is
  \<open>src/native/crypto.c\<close>). BoringSSL and the base64 crate are parameters.
\<close>

section \<open>Hexadecimal\<close>

definition hex_byte :: "u8 \<Rightarrow> string" where
  "hex_byte x = [hex_digit (unat x div 16), hex_digit (unat x mod 16)]"

definition hex :: "u8 list \<Rightarrow> string" where
  "hex b = concat (map hex_byte b)"

definition hex_val :: "char \<Rightarrow> nat option" where
  "hex_val c =
     (if is_digit c then Some (code c - 48)
      else if 97 \<le> code c \<and> code c \<le> 102 then Some (code c - 87)
      else if 65 \<le> code c \<and> code c \<le> 70 then Some (code c - 55)
      else None)"

text \<open>\<open>u8::from_str_radix(_, 16)\<close> on two characters; it lets a plus sign stand for the first.\<close>

definition hex_pair :: "char \<Rightarrow> char \<Rightarrow> err + u8" where
  "hex_pair a b =
     (if a = CHR ''+'' then
        (case hex_val b of Some y \<Rightarrow> Inr (word_of_nat y) | None \<Rightarrow> Inl ParseIntErr)
      else
        (case (hex_val a, hex_val b) of
           (Some x, Some y) \<Rightarrow> Inr (word_of_nat (16 * x + y))
         | _ \<Rightarrow> Inl ParseIntErr))"

fun unhex_pairs :: "string \<Rightarrow> err + u8 list" where
  "unhex_pairs (a # b # s) =
     rbind (hex_pair a b) (\<lambda>x. rbind (unhex_pairs s) (\<lambda>xs. Inr (x # xs)))"
| "unhex_pairs _ = Inr []"

definition unhex :: "string \<Rightarrow> err + u8 list" where
  "unhex s =
     rbind (ensure (length s mod 2 = 0 \<and> is_ascii s) (Msg ''invalid hex'')) (\<lambda>_. unhex_pairs s)"

section \<open>The pairing code\<close>

text \<open>\<open>{:06}\<close>: decimal, padded with zeros to six digits.\<close>

definition show6 :: "nat \<Rightarrow> string" where
  "show6 n = map (\<lambda>i. char_of (48 + n div 10 ^ (5 - i) mod 10)) [0..<6]"

text \<open>
  The loop draws 32-bit numbers until one is below 4294000000. The draws are a script: \<open>None\<close>
  is a failing random source; when the script ends the loop has not returned yet.
\<close>

fun pairing_code :: "u32 option list \<Rightarrow> (err + string) option" where
  "pairing_code [] = None"
| "pairing_code (None # _) = Some (Inl (Msg ''secure random unavailable''))"
| "pairing_code (Some n # r) =
     (if n < 4294000000 then Some (Inr (show6 (unat (n mod 1000000)))) else pairing_code r)"

section \<open>Host keys\<close>

text \<open>\<open>splitn(2, char::is_whitespace)\<close>: the text before the first white-space character, and
  what follows it when there is one.\<close>

definition splitn2_ws :: "string \<Rightarrow> string \<times> string option" where
  "splitn2_ws s =
     (let cs = utf8_chars s; w = takeWhile (\<lambda>c. \<not> is_whitespace c) cs
      in (concat w,
          case dropWhile (\<lambda>c. \<not> is_whitespace c) cs of [] \<Rightarrow> None | _ # r \<Rightarrow> Some (concat r)))"

text \<open>
  \<open>altdb_android_key_fingerprint\<close>: the checks of the 524-byte Android RSA public key are C code
  of the repository; the SHA-256 of the SubjectPublicKeyInfo of (modulus, exponent) is
  BoringSSL's and a parameter, which may fail.
\<close>

type_synonym spki_digest = "u8 list \<Rightarrow> u32 \<Rightarrow> u8 list option"

definition android_key_fingerprint :: "spki_digest \<Rightarrow> u8 list \<Rightarrow> u8 list option" where
  "android_key_fingerprint spki raw =
     (if length raw \<noteq> 524 \<or> raw ! 0 \<noteq> 64 \<or> raw ! 1 \<noteq> 0 \<or> raw ! 2 \<noteq> 0 \<or> raw ! 3 \<noteq> 0 then None
      else
        let modulus = rev (take 256 (drop 8 raw));
            exponent = from_le32 (take 4 (drop 520 raw))
        in if exponent \<noteq> 65537 \<or> modulus ! 255 AND 1 = 0 \<or> modulus ! 0 AND 128 = 0 then None
           else spki modulus exponent)"

definition host_key ::
    "(string \<Rightarrow> (u8 list) option) \<Rightarrow> spki_digest \<Rightarrow> string \<Rightarrow> err + (string \<times> string)" where
  "host_key b64 spki key =
     rbind (ensure (length key \<le> 8190 \<and> NUL \<notin> set key) (Msg ''invalid host key'')) (\<lambda>_.
     let (encoded, rest) = splitn2_ws key
     in case b64 encoded of
          None \<Rightarrow> Inl Base64Err
        | Some raw \<Rightarrow>
            (case android_key_fingerprint spki raw of
               None \<Rightarrow> Inl (Msg ''invalid Android RSA key'')
             | Some fp \<Rightarrow>
                 Inr (hex fp,
                   concat (take 128 (filter (\<lambda>c. \<not> is_control c)
                     (utf8_chars (case rest of None \<Rightarrow> ''Computer'' | Some n \<Rightarrow> n)))))))"

text \<open>The key check as its callers use it, with the parameters filled in.\<close>

type_synonym key_check = "string \<Rightarrow> err + (string \<times> string)"

section \<open>The device identity\<close>

record identity =
  id_key :: string
  id_certificate :: string
  id_guid :: string

text \<open>
  \<open>Identity::generate\<close>: BoringSSL makes the key and the certificate (\<open>made\<close>, with its result code),
  the GUID is drawn.
\<close>

definition identity_generate :: "int \<times> u8 list \<times> u8 list \<Rightarrow> u8 list option \<Rightarrow> err + identity" where
  "identity_generate made draw =
     (let (ok, k, c) = made
      in rbind (ensure (ok = 1) (Msg ''identity generation failed'')) (\<lambda>_.
         rbind (from_utf8 k) (\<lambda>key.
         rbind (from_utf8 c) (\<lambda>certificate.
         case draw of
           None \<Rightarrow> Inl (Msg ''secure random unavailable'')
         | Some r \<Rightarrow> Inr \<lparr>id_key = key, id_certificate = certificate, id_guid = ''altdb-'' @ hex r\<rparr>))))"

section \<open>Facts\<close>

lemma length_hex [simp]: "length (hex b) = 2 * length b"
  by (induction b) (auto simp: hex_def hex_byte_def)

lemma hex_Nil [simp]: "hex [] = []"
  and hex_Cons: "hex (x # b) = hex_byte x @ hex b"
  by (simp_all add: hex_def)

lemma code_hex_digit: "n < 16 \<Longrightarrow> code (hex_digit n) = (if n < 10 then 48 + n else 87 + n)"
  by (simp add: hex_digit_def)

lemma hex_val_digit [simp]: "n < 16 \<Longrightarrow> hex_val (hex_digit n) = Some n"
  by (simp add: hex_val_def is_digit_def code_hex_digit)

lemma hex_digit_not_plus: "n < 16 \<Longrightarrow> hex_digit n \<noteq> CHR ''+''"
  by (simp add: char_eq_code [of "hex_digit n"] code_hex_digit)

lemma hex_digit_ascii: "n < 16 \<Longrightarrow> code (hex_digit n) < 128"
  by (simp add: code_hex_digit)

lemma hex_pair_byte:
  "hex_pair (hex_digit (unat x div 16)) (hex_digit (unat x mod 16)) = Inr x"
proof -
  have "16 * (unat x div 16) + unat x mod 16 = unat x" by simp
  then show ?thesis
    by (simp add: hex_pair_def hex_digit_not_plus del: mult_div_mod_eq)
qed

lemma is_ascii_hex: "is_ascii (hex b)"
proof (induction b)
  case Nil
  then show ?case by (simp add: is_ascii_def)
next
  case (Cons x b)
  then show ?case by (simp add: is_ascii_def hex_Cons hex_byte_def hex_digit_ascii)
qed

lemma unhex_pairs_hex: "unhex_pairs (hex b) = Inr b"
  by (induction b) (auto simp: hex_Cons hex_byte_def hex_pair_byte)

text \<open>
  Fingerprints survive the trip through their stored form: \<open>unhex\<close> reads back exactly the
  bytes \<open>hex\<close> rendered.
\<close>

theorem unhex_hex: "unhex (hex b) = Inr b"
  by (simp add: unhex_def is_ascii_hex unhex_pairs_hex)

subsection \<open>The distribution of the pairing codes\<close>

lemma length_show6 [simp]: "length (show6 n) = 6"
  by (simp add: show6_def)

lemma digits_show6: "list_all is_digit (show6 n)"
proof -
  have "m mod 10 < 10" for m :: nat by simp
  then have "is_digit (char_of (48 + m mod 10))" for m :: nat
    by (simp add: is_digit_def less_Suc_eq_le less_imp_le)
  then show ?thesis by (simp add: show6_def list_all_iff del: of_char_of)
qed

lemma decimal_split6:
  assumes "n < (1000000::nat)"
  shows "n = n div 100000 mod 10 * 100000 + n div 10000 mod 10 * 10000 + n div 1000 mod 10 * 1000
           + n div 100 mod 10 * 100 + n div 10 mod 10 * 10 + n mod 10"
proof -
  have step: "m = m div 10 * 10 + m mod 10" for m :: nat by simp
  have e: "n div 100000 mod 10 = n div 100000"
    using assms by (simp add: less_mult_imp_div_less)
  have "n = n div 10 * 10 + n mod 10" by simp
  moreover have "n div 10 = n div 100 * 10 + n div 10 mod 10"
    using step [of "n div 10"] by (simp flip: div_mult2_eq)
  moreover have "n div 100 = n div 1000 * 10 + n div 100 mod 10"
    using step [of "n div 100"] by (simp flip: div_mult2_eq)
  moreover have "n div 1000 = n div 10000 * 10 + n div 1000 mod 10"
    using step [of "n div 1000"] by (simp flip: div_mult2_eq)
  moreover have "n div 10000 = n div 100000 * 10 + n div 10000 mod 10"
    using step [of "n div 10000"] by (simp flip: div_mult2_eq)
  ultimately show ?thesis unfolding e by linarith
qed

lemma show6_digit: "i < 6 \<Longrightarrow> code (show6 n ! i) = 48 + n div 10 ^ (5 - i) mod 10"
proof -
  assume "i < 6"
  have "n div 10 ^ (5 - i) mod 10 < 10" by simp
  with \<open>i < 6\<close> show ?thesis by (simp add: show6_def)
qed

lemma inj_show6: "inj_on show6 {..<1000000}"
proof (rule inj_onI)
  fix n m :: nat
  assume n: "n \<in> {..<1000000}" and m: "m \<in> {..<1000000}" and eq: "show6 n = show6 m"
  have d: "n div 10 ^ (5 - i) mod 10 = m div 10 ^ (5 - i) mod 10" if "i < 6" for i
    using show6_digit [OF that, of n] show6_digit [OF that, of m] eq by simp
  have "n div 100000 mod 10 = m div 100000 mod 10" using d [of 0] by simp
  moreover have "n div 10000 mod 10 = m div 10000 mod 10" using d [of 1] by simp
  moreover have "n div 1000 mod 10 = m div 1000 mod 10" using d [of 2] by simp
  moreover have "n div 100 mod 10 = m div 100 mod 10" using d [of 3] by simp
  moreover have "n div 10 mod 10 = m div 10 mod 10" using d [of 4] by simp
  moreover have "n mod 10 = m mod 10" using d [of 5] by simp
  moreover have "n < 1000000" "m < 1000000" using n m by auto
  ultimately show "n = m" by (subst decimal_split6 [of n], simp, subst decimal_split6 [of m], simp, simp only:)
qed

lemma finite_digits: "finite {c. is_digit c}" "card {c. is_digit c} = 10"
proof -
  have "{c. is_digit c} = char_of ` {48..<(58::nat)}"
  proof (intro equalityI subsetI)
    fix c assume "c \<in> {c. is_digit c}"
    then have "code c \<in> {48..<58}" by (auto simp: is_digit_def)
    then show "c \<in> char_of ` {48..<(58::nat)}" by (metis char_of_char imageI)
  qed (auto simp: is_digit_def)
  moreover have "inj_on (char_of :: nat \<Rightarrow> char) {48..<58}"
  proof (rule inj_onI)
    fix x y :: nat
    assume "x \<in> {48..<58}" "y \<in> {48..<58}" "(char_of x :: char) = char_of y"
    then show "x = y" using code_char_of [of x] code_char_of [of y] by auto
  qed
  ultimately show "finite {c. is_digit c}" "card {c. is_digit c} = 10"
    by (simp_all add: card_image)
qed

text \<open>Every string of six digits is the rendering of a number below a million, by counting.\<close>

lemma show6_surj:
  assumes "length c = 6" and "list_all is_digit c"
  obtains k where "k < 1000000" and "show6 k = c"
proof -
  let ?C = "{c. set c \<subseteq> {c. is_digit c} \<and> length c = 6}"
  have C: "finite ?C" "card ?C = 1000000"
    using card_lists_length_eq [OF finite_digits(1), of 6]
      finite_lists_length_eq [OF finite_digits(1), of 6] finite_digits(2) by simp_all
  have sub: "show6 ` {..<1000000} \<subseteq> ?C"
    using digits_show6 by (auto simp: list_all_iff)
  have "card (show6 ` {..<1000000}) = card ?C"
    unfolding C(2) card_image [OF inj_show6] card_lessThan ..
  then have "show6 ` {..<1000000} = ?C" by (rule card_subset_eq [OF C(1) sub])
  moreover have "c \<in> ?C" using assms by (auto simp: list_all_iff)
  ultimately have "c \<in> show6 ` {..<1000000}" by (simp only:)
  then show thesis using that by auto
qed

lemma pairing_code_one_iff:
  assumes "k < 1000000"
  shows "pairing_code [Some n] = Some (Inr (show6 k)) \<longleftrightarrow>
    unat n < 4294000000 \<and> unat n mod 1000000 = k"
proof -
  have "unat (n mod 1000000) = unat n mod 1000000" by (simp add: unat_mod)
  moreover have "show6 (unat n mod 1000000) = show6 k \<longleftrightarrow> unat n mod 1000000 = k"
    using inj_show6 assms by (auto simp: inj_on_eq_iff)
  ultimately show ?thesis by (auto simp: word_less_nat_alt)
qed

lemma card_draws:
  assumes "k < 1000000"
  shows "card {n :: u32. unat n < 4294000000 \<and> unat n mod 1000000 = k} = 4294"
proof -
  let ?f = "\<lambda>q. word_of_nat (q * 1000000 + k) :: u32"
  have f: "unat (?f q) = q * 1000000 + k" if "q < 4294" for q
    using that assms by (intro unat_u32_of_nat) simp
  have "{n :: u32. unat n < 4294000000 \<and> unat n mod 1000000 = k} = ?f ` {..<4294}"
  proof (intro equalityI subsetI)
    fix n :: u32
    assume "n \<in> {n. unat n < 4294000000 \<and> unat n mod 1000000 = k}"
    then have n: "unat n < 4294000000" "unat n mod 1000000 = k" by auto
    have "unat n div 1000000 * 1000000 + k = unat n" unfolding n(2) [symmetric] by simp
    then have "?f (unat n div 1000000) = n" by (simp del: of_nat_add of_nat_mult)
    then have "n = ?f (unat n div 1000000)" by (rule sym)
    moreover have "unat n div 1000000 < 4294" using n(1) by (simp add: less_mult_imp_div_less)
    ultimately show "n \<in> ?f ` {..<4294}" by blast
  next
    fix n :: u32
    assume "n \<in> ?f ` {..<4294}"
    then obtain q where "q < 4294" "n = ?f q" by auto
    with f [of q] assms show "n \<in> {n. unat n < 4294000000 \<and> unat n mod 1000000 = k}" by simp
  qed
  moreover have "inj_on ?f {..<4294}"
  proof (rule inj_onI)
    fix x y assume "x \<in> {..<4294}" "y \<in> {..<4294}" "?f x = ?f y"
    then show "x = y" using f [of x] f [of y] by simp
  qed
  ultimately show ?thesis by (simp add: card_image)
qed

text \<open>
  C30: the pairing code is unbiased. Each string of six decimal digits is the answer for exactly
  4294 of the values one 32-bit draw can take (the rejected draws are those from 4294000000 up),
  so all million codes are equally likely.
\<close>

theorem pairing_code_uniform:
  assumes "length c = 6" and "list_all is_digit c"
  shows "card {n. pairing_code [Some n] = Some (Inr c)} = 4294"
proof -
  obtain k where "k < 1000000" "show6 k = c" using assms by (rule show6_surj)
  then show ?thesis using pairing_code_one_iff [of k] card_draws [of k] by simp
qed

theorem pairing_code_uniform_witness:
  "card {n. pairing_code [Some n] = Some (Inr ''004217'')} = 4294"
  by (rule pairing_code_uniform) (simp_all add: is_digit_def)

end
