(* ===== verification/Tls.thy ===== *)
theory Tls
  imports Sockets Protocol Crypto
begin

text \<open>
  The \<open>Tls\<close> object of \<open>src/src/crypto.rs\<close>: one SSL session over memory BIOs, its socket, and
  the queue of ciphertext the socket has not accepted yet (\<open>outgoing\<close> from \<open>offset\<close> on).
  BoringSSL is a parameter, the record \<open>ssl_lib\<close>. The field \<open>t_plain\<close> is a history variable: the
  plaintext SSL has accepted so far. No operation reads it.
\<close>

section \<open>The library and the object\<close>

text \<open>
  \<open>ssl_drain\<close> reads at most so many bytes of ciphertext from the write BIO; the empty list
  stands for its results below one.
\<close>

record 'ssl ssl_lib =
  ssl_handshake :: "'ssl \<Rightarrow> int \<times> 'ssl"
  ssl_error :: "'ssl \<Rightarrow> int \<Rightarrow> int"
  ssl_read :: "'ssl \<Rightarrow> nat \<Rightarrow> (int \<times> u8 list) \<times> 'ssl"
  ssl_write :: "'ssl \<Rightarrow> u8 list \<Rightarrow> int \<times> 'ssl"
  ssl_feed :: "'ssl \<Rightarrow> u8 list \<Rightarrow> int \<times> 'ssl"
  ssl_drain :: "'ssl \<Rightarrow> nat \<Rightarrow> u8 list \<times> 'ssl"

record 'ssl tls =
  t_ssl :: 'ssl
  t_sock :: sock
  t_out :: "u8 list"
  t_off :: nat
  t_plain :: "u8 list"

abbreviation I32_MAX :: nat where
  "I32_MAX \<equiv> 2147483647"

abbreviation QUEUE_LIMIT :: nat where
  "QUEUE_LIMIT \<equiv> 8388608"

definition tls_queued :: "'ssl tls \<Rightarrow> nat" where
  "tls_queued t = length (t_out t) - t_off t"

section \<open>Queueing ciphertext and writing it out\<close>

text \<open>
  The loop of \<open>drain\<close> over a queue whose sent prefix has been dropped (\<open>offset\<close> is 0). Every
  turn either stops or adds a byte, and a queue above 8 MiB stops it, so it ends whatever the
  library answers.
\<close>

function drain_loop :: "'ssl ssl_lib \<Rightarrow> 'ssl \<Rightarrow> u8 list \<Rightarrow> (io_error + unit) \<times> 'ssl \<times> u8 list" where
  "drain_loop lib ssl out =
     (let (b, ssl') = ssl_drain lib ssl 65536
      in if b = [] then (Inr (), ssl', out)
         else if QUEUE_LIMIT < length (out @ b)
         then (Inl (IoError OtherIo None ''TLS output queue limit''), ssl', out @ b)
         else drain_loop lib ssl' (out @ b))"
  by pat_completeness auto
termination
  by (relation "measure (\<lambda>(lib, ssl, out). Suc QUEUE_LIMIT - length out)")
    (auto intro!: diff_less_mono2)

declare drain_loop.simps [simp del]

definition tls_drain :: "'ssl ssl_lib \<Rightarrow> 'ssl tls \<Rightarrow> (io_error + unit) \<times> 'ssl tls" where
  "tls_drain lib t =
     (let (r, ssl', out') = drain_loop lib (t_ssl t) (drop (t_off t) (t_out t))
      in (r, t\<lparr>t_ssl := ssl', t_out := out', t_off := 0\<rparr>))"

text \<open>The loop of \<open>flush\<close> over the socket.\<close>

function flush_loop :: "sock \<Rightarrow> u8 list \<Rightarrow> nat \<Rightarrow> (io_error + unit) \<times> sock \<times> nat" where
  "flush_loop s out off =
     (if off < length out then
        (case sock_write (drop off out) s of
           (Inl e, s') \<Rightarrow> (Inl e, s', off)
         | (Inr n, s') \<Rightarrow>
             if n = 0 then (Inl (IoError WriteZero None ''TLS socket closed''), s', off)
             else flush_loop s' out (off + n))
      else (Inr (), s, off))"
  by pat_completeness auto
termination
  by (relation "measure (\<lambda>(s, out, off). length out - off)")
    (auto dest!: sym [of "sock_write _ _"] sock_write_InrD)

declare flush_loop.simps [simp del]

definition tls_flush :: "'ssl ssl_lib \<Rightarrow> 'ssl tls \<Rightarrow> (io_error + unit) \<times> 'ssl tls" where
  "tls_flush lib t =
     (case tls_drain lib t of
        (Inl e, t) \<Rightarrow> (Inl e, t)
      | (Inr _, t) \<Rightarrow>
          (case flush_loop (t_sock t) (t_out t) (t_off t) of
             (Inl e, s, off) \<Rightarrow> (Inl e, t\<lparr>t_sock := s, t_off := off\<rparr>)
           | (Inr _, s, off) \<Rightarrow> (Inr (), t\<lparr>t_sock := s, t_out := [], t_off := 0\<rparr>)))"

section \<open>Writing plaintext\<close>

definition tls_write :: "'ssl ssl_lib \<Rightarrow> u8 list \<Rightarrow> 'ssl tls \<Rightarrow> (io_error + nat) \<times> 'ssl tls" where
  "tls_write lib buf t =
     (if buf = [] then (Inr 0, t)
      else
        let (n, ssl') = ssl_write lib (t_ssl t) (take I32_MAX buf)
        in if n \<le> 0 then (Inl (IoError OtherIo None ''TLS write failed''), t\<lparr>t_ssl := ssl'\<rparr>)
           else
             let t = t\<lparr>t_ssl := ssl', t_plain := t_plain t @ take (nat n) buf\<rparr>
             in case tls_drain lib t of
                  (Inl e, t) \<Rightarrow> (Inl e, t)
                | (Inr _, t) \<Rightarrow>
                    (case tls_flush lib t of
                       (Inl e, t) \<Rightarrow>
                         if io_kind_of e = WouldBlock then (Inr (nat n), t) else (Inl e, t)
                     | (Inr _, t) \<Rightarrow> (Inr (nat n), t)))"

section \<open>Reading plaintext\<close>

definition tls_feed :: "'ssl ssl_lib \<Rightarrow> 'ssl tls \<Rightarrow> (io_error + unit) \<times> 'ssl tls" where
  "tls_feed lib t =
     (case sock_read 65536 (t_sock t) of
        (Inl e, s) \<Rightarrow> (Inl e, t\<lparr>t_sock := s\<rparr>)
      | (Inr b, s) \<Rightarrow>
          if b = [] then (Inl (IoError UnexpectedEof None ''TLS peer disconnected''), t\<lparr>t_sock := s\<rparr>)
          else
            let (n, ssl') = ssl_feed lib (t_ssl t) b;
                t = t\<lparr>t_sock := s, t_ssl := ssl'\<rparr>
            in if n \<noteq> int (length b) then (Inl (IoError OtherIo None ''TLS input failed''), t)
               else (Inr (), t))"

text \<open>
  The loop of \<open>read\<close> may run for ever (a library that always wants to write), so it is a partial
  function: \<open>None\<close> is a call that does not return. The empty list is end of file.
\<close>

partial_function (option) tls_read_loop ::
    "'ssl ssl_lib \<Rightarrow> nat \<Rightarrow> 'ssl tls \<Rightarrow> ((io_error + u8 list) \<times> 'ssl tls) option" where
  "tls_read_loop lib n t =
     (let ((r, b), ssl') = ssl_read lib (t_ssl t) (min n I32_MAX);
          t = t\<lparr>t_ssl := ssl'\<rparr>
      in if r > 0 then Some (Inr (take (nat r) b), t)
         else let e = ssl_error lib (t_ssl t) r
           in if e = 2 then
                let (f, t') = tls_feed lib t
                in (case f of Inl x \<Rightarrow> Some (Inl x, t') | Inr _ \<Rightarrow> tls_read_loop lib n t')
              else if e = 3 then
                let (f, t') = tls_flush lib t
                in (case f of Inl x \<Rightarrow> Some (Inl x, t') | Inr _ \<Rightarrow> tls_read_loop lib n t')
              else if e = 6 then Some (Inr [], t)
              else Some (Inl (IoError OtherIo None ''TLS read failed''), t))"

definition tls_read :: "'ssl ssl_lib \<Rightarrow> nat \<Rightarrow> 'ssl tls \<Rightarrow> ((io_error + u8 list) \<times> 'ssl tls) option" where
  "tls_read lib n t = (if n = 0 then Some (Inr [], t) else tls_read_loop lib n t)"

section \<open>The handshake\<close>

text \<open>
  The rest of the library: creating a session (key, certificate, pairing mode, the allowed
  fingerprints and their number), adding a CA name, the keying-material exporter and the peer's
  key fingerprint.
\<close>

record 'ssl ssl_ctx =
  sx_new :: "string \<Rightarrow> string \<Rightarrow> bool \<Rightarrow> u8 list \<Rightarrow> nat \<Rightarrow> 'ssl option"
  sx_add_ca :: "'ssl \<Rightarrow> string \<Rightarrow> int \<times> 'ssl"
  sx_export :: "'ssl \<Rightarrow> u8 list option"
  sx_peer :: "'ssl \<Rightarrow> u8 list"

fun allowed_keys :: "string list \<Rightarrow> err + u8 list" where
  "allowed_keys [] = Inr []"
| "allowed_keys (fp # fps) =
     rbind (unhex fp) (\<lambda>b.
     rbind (ensure (length b = 32) (Msg ''invalid fingerprint'')) (\<lambda>_.
     rbind (allowed_keys fps) (\<lambda>ks. Inr (b @ ks))))"

fun add_cas :: "'ssl ssl_ctx \<Rightarrow> string list \<Rightarrow> 'ssl \<Rightarrow> (unit, 'ssl) outcome" where
  "add_cas cx [] ssl = (Inr (), ssl)"
| "add_cas cx (fp # fps) ssl =
     (let (n, ssl') = sx_add_ca cx ssl (map to_upper fp)
      in if n = 1 then add_cas cx fps ssl' else (Inl (Msg ''TLS CA list failed''), ssl'))"

text \<open>
  The handshake loop reads the clock at every turn: the readings are the list; when they are
  used up the loop has not returned yet.
\<close>

fun accept_loop :: "'ssl ssl_lib \<Rightarrow> instant \<Rightarrow> instant list \<Rightarrow> 'ssl tls \<Rightarrow> (unit, 'ssl tls) outcome option" where
  "accept_loop lib deadline [] t = None"
| "accept_loop lib deadline (now # clock) t =
     (if \<not> now < deadline then Some (Inl (Msg ''TLS handshake timeout''), t)
      else
        let (n, ssl') = ssl_handshake lib (t_ssl t);
            e = (if n = 1 then 0 else ssl_error lib ssl' n);
            (f, t') = tls_flush lib (t\<lparr>t_ssl := ssl'\<rparr>)
        in case f of
             Inl x \<Rightarrow> Some (Inl (Io x), t')
           | Inr _ \<Rightarrow>
               if n = 1 then Some (Inr (), t')
               else if e = 2 then
                 (case tls_feed lib t' of
                    (Inl x, t'') \<Rightarrow> Some (Inl (Io x), t'')
                  | (Inr _, t'') \<Rightarrow> accept_loop lib deadline clock t'')
               else if e = 3 then accept_loop lib deadline clock t'
               else Some (Inl (Msg ''TLS handshake rejected''), t'))"

text \<open>
  \<open>opt\<close> is the outcome of the \<open>i\<close>-th socket option call (no delay, read and write timeout). The
  first clock reading sets the deadline.
\<close>

definition opt_result :: "io_error option \<Rightarrow> err + unit" where
  "opt_result r = (case r of None \<Rightarrow> Inr () | Some e \<Rightarrow> Inl (Io e))"

definition tls_accept ::
    "'ssl ssl_ctx \<Rightarrow> 'ssl ssl_lib \<Rightarrow> (nat \<Rightarrow> io_error option) \<Rightarrow> instant \<Rightarrow> instant list
       \<Rightarrow> sock \<Rightarrow> string \<Rightarrow> string \<Rightarrow> string list \<Rightarrow> bool \<Rightarrow> (err + 'ssl tls) option" where
  "tls_accept cx lib opt start clock socket key certificate allowed pairing =
     (case rbind (opt_result (opt 0)) (\<lambda>_. allowed_keys allowed) of
        Inl e \<Rightarrow> Some (Inl e)
      | Inr keys \<Rightarrow>
          (case sx_new cx key certificate pairing keys (length allowed) of
             None \<Rightarrow> Some (Inl (Msg ''TLS context creation failed''))
           | Some ssl \<Rightarrow>
               let (r, ssl) = add_cas cx allowed ssl
               in (case rbind r (\<lambda>_. rbind (opt_result (opt 1)) (\<lambda>_. opt_result (opt 2))) of
                     Inl e \<Rightarrow> Some (Inl e)
                   | Inr _ \<Rightarrow>
                       (case accept_loop lib (start + secs 10) clock
                           \<lparr>t_ssl = ssl, t_sock = socket, t_out = [], t_off = 0, t_plain = []\<rparr> of
                          None \<Rightarrow> None
                        | Some (Inl e, t) \<Rightarrow> Some (Inl e)
                        | Some (Inr _, t) \<Rightarrow> Some (Inr t)))))"

definition tls_exporter :: "'ssl ssl_ctx \<Rightarrow> 'ssl tls \<Rightarrow> err + u8 list" where
  "tls_exporter cx t =
     (case sx_export cx (t_ssl t) of None \<Rightarrow> Inl (Msg ''TLS exporter failed'') | Some k \<Rightarrow> Inr k)"

definition tls_peer :: "'ssl ssl_ctx \<Rightarrow> 'ssl tls \<Rightarrow> string" where
  "tls_peer cx t = hex (sx_peer cx (t_ssl t))"

subsection \<open>Progress of the socket's script\<close>

lemma flush_loop_tx:
  "flush_loop s out off = (r, s', off') \<Longrightarrow>
     length (s_tx s') \<le> length (s_tx s)
       \<and> (\<forall>e. r = Inl e \<longrightarrow> io_kind_of e = Interrupted \<longrightarrow> length (s_tx s') < length (s_tx s))"
proof (induction s out off rule: flush_loop.induct)
  case (1 s out off)
  show ?case
  proof (cases "sock_write (drop off out) s")
    case (Pair a s1)
    show ?thesis
    proof (cases a)
      case (Inl e)
      with Pair "1.prems" show ?thesis
        by (auto simp: flush_loop.simps [of s out off] sock_write_def
            split: if_splits list.splits tx_event.splits)
    next
      case (Inr n)
      with Pair have "length (s_tx s1) < length (s_tx s)" using sock_write_InrD by blast
      with 1 Pair Inr show ?thesis
        by (fastforce simp: flush_loop.simps [of s out off] split: if_splits)
    qed
  qed
qed

abbreviation tx_left :: "'ssl tls \<Rightarrow> nat" where
  "tx_left t \<equiv> length (s_tx (t_sock t))"

lemma drain_loop_error:
  "drain_loop lib ssl out = (Inl e, r) \<Longrightarrow> io_kind_of e = OtherIo"
  by (induction lib ssl out rule: drain_loop.induct)
    (auto simp: drain_loop.simps [of _ _ "_ :: u8 list"] Let_def split: prod.splits if_splits)

lemma tls_drain_frame:
  "tls_drain lib t = (r, t') \<Longrightarrow>
     t_sock t' = t_sock t \<and> t_plain t' = t_plain t \<and> t_off t' = 0
       \<and> (\<forall>e. r = Inl e \<longrightarrow> io_kind_of e = OtherIo)"
  by (auto simp: tls_drain_def split: prod.splits dest: drain_loop_error)

lemma tls_flush_frame:
  assumes "tls_flush lib t = (r, t')"
  shows "t_plain t' = t_plain t \<and> tx_left t' \<le> tx_left t
    \<and> (\<forall>e. r = Inl e \<longrightarrow> io_kind_of e = Interrupted \<longrightarrow> tx_left t' < tx_left t)"
  using assms
  by (auto simp: tls_flush_def split: prod.splits sum.splits
      dest!: tls_drain_frame flush_loop_tx)

lemma tls_write_frame:
  assumes "tls_write lib buf t = (r, t')"
  shows "tx_left t' \<le> tx_left t
    \<and> (\<forall>e. r = Inl e \<longrightarrow> io_kind_of e = Interrupted \<longrightarrow> tx_left t' < tx_left t)"
  using assms
  by (auto simp: tls_write_def Let_def split: prod.splits sum.splits if_splits
      dest!: tls_drain_frame tls_flush_frame)

lemma tls_write_step:
  assumes "(r, t') = tls_write lib buf t" and "buf \<noteq> []" and "0 < n"
  shows "length buf - n + tx_left t' < length buf + tx_left t"
proof -
  have "tx_left t' \<le> tx_left t" using tls_write_frame [of lib buf t r t'] assms(1) by simp
  moreover have "length buf - n < length buf" using assms by simp
  ultimately show ?thesis by arith
qed

subsection \<open>The standard library's \<open>write_all\<close>\<close>

text \<open>
  \<open>Write::write_all\<close> writes what is left until nothing is, and starts a write again that was
  interrupted. It ends: a write that returned took bytes off the buffer, and an interrupted one
  used up an event of the socket's script.
\<close>

function tls_write_all :: "'ssl ssl_lib \<Rightarrow> u8 list \<Rightarrow> 'ssl tls \<Rightarrow> (io_error + unit) \<times> 'ssl tls" where
  "tls_write_all lib buf t =
     (if buf = [] then (Inr (), t)
      else
        (case tls_write lib buf t of
           (Inr n, t') \<Rightarrow>
             if n = 0 then (Inl (IoError WriteZero None ''failed to write whole buffer''), t')
             else tls_write_all lib (drop n buf) t'
         | (Inl e, t') \<Rightarrow>
             if io_kind_of e = Interrupted then tls_write_all lib buf t' else (Inl e, t')))"
  by pat_completeness auto
termination
  by (relation "measure (\<lambda>(lib, buf, t). length buf + tx_left t)")
    (auto simp: tls_write_step dest!: tls_write_frame [OF sym])

declare tls_write_all.simps [simp del]

section \<open>No ciphertext is lost, reordered or sent twice\<close>

text \<open>
  What is known of the library: a view \<open>em\<close> of its state, the ciphertext taken out of its write
  BIO so far, to which \<open>ssl_drain\<close> appends what it returns and which writing plaintext leaves
  alone; and a drain returns at most the bytes it was asked for.
\<close>

definition emits :: "'ssl ssl_lib \<Rightarrow> ('ssl \<Rightarrow> u8 list) \<Rightarrow> bool" where
  "emits lib em \<longleftrightarrow>
     (\<forall>s n. em (snd (ssl_drain lib s n)) = em s @ fst (ssl_drain lib s n)
        \<and> length (fst (ssl_drain lib s n)) \<le> n)
       \<and> (\<forall>s b. em (snd (ssl_write lib s b)) = em s)"

lemma emits_drainD:
  assumes "emits lib em" and "ssl_drain lib s n = (b, s')"
  shows "em s' = em s @ b \<and> length b \<le> n"
proof -
  from assms(1) have "em (snd (ssl_drain lib s n)) = em s @ fst (ssl_drain lib s n)
      \<and> length (fst (ssl_drain lib s n)) \<le> n"
    unfolding emits_def by blast
  with assms(2) show ?thesis by simp
qed

lemma emits_writeD: "emits lib em \<Longrightarrow> ssl_write lib s b = (n, s') \<Longrightarrow> em s' = em s"
  unfolding emits_def by (metis snd_conv)

text \<open>The bytes on the wire and, behind them, those queued for it.\<close>

definition tls_wire :: "'ssl tls \<Rightarrow> u8 list" where
  "tls_wire t = s_sent (t_sock t) @ drop (t_off t) (t_out t)"

lemma drain_loop_emits:
  "emits lib em \<Longrightarrow> drain_loop lib ssl out = (r, ssl', out') \<Longrightarrow>
    \<exists>b. em ssl' = em ssl @ b \<and> out' = out @ b
      \<and> (length out \<le> QUEUE_LIMIT \<longrightarrow> length out' \<le> QUEUE_LIMIT + 65536)
      \<and> (r = Inr () \<longrightarrow> length out \<le> QUEUE_LIMIT \<longrightarrow> length out' \<le> QUEUE_LIMIT)"
proof (induction lib ssl out rule: drain_loop.induct)
  case (1 lib ssl out)
  obtain b ssl1 where d: "ssl_drain lib ssl 65536 = (b, ssl1)" by fastforce
  have em: "em ssl1 = em ssl @ b" "length b \<le> 65536"
    using emits_drainD [OF "1.prems"(1) d] by simp_all
  have loop: "(if b = [] then (Inr (), ssl1, out)
      else if QUEUE_LIMIT < length (out @ b)
      then (Inl (IoError OtherIo None ''TLS output queue limit''), ssl1, out @ b)
      else drain_loop lib ssl1 (out @ b)) = (r, ssl', out')"
    using "1.prems"(2) d by (subst (asm) drain_loop.simps) simp
  consider "b = []" | "b \<noteq> []" "QUEUE_LIMIT < length (out @ b)"
    | "b \<noteq> []" "\<not> QUEUE_LIMIT < length (out @ b)" by blast
  then show ?case
  proof cases
    case 1
    with loop em show ?thesis by auto
  next
    case 2
    with loop have "r = Inl (IoError OtherIo None ''TLS output queue limit'')" "ssl' = ssl1"
      "out' = out @ b" by auto
    with em 2 show ?thesis by auto
  next
    case 3
    with loop have l: "drain_loop lib ssl1 (out @ b) = (r, ssl', out')" by simp
    obtain c where
      "em ssl' = em ssl1 @ c" "out' = (out @ b) @ c"
      "length out' \<le> QUEUE_LIMIT + 65536" "r = Inr () \<longrightarrow> length out' \<le> QUEUE_LIMIT"
      using "1.IH" [OF d [symmetric] refl 3 "1.prems"(1) l] 3 by auto
    with em show ?thesis by auto
  qed
qed

text \<open>The accounting invariant, with the bound on the queue.\<close>

definition tls_inv :: "('ssl \<Rightarrow> u8 list) \<Rightarrow> 'ssl tls \<Rightarrow> bool" where
  "tls_inv em t \<longleftrightarrow> t_off t \<le> length (t_out t) \<and> tls_wire t = em (t_ssl t)"

lemma tls_drain_inv:
  assumes "emits lib em" and "tls_inv em t" and "tls_drain lib t = (r, t')"
  shows "tls_inv em t' \<and> (tls_queued t \<le> QUEUE_LIMIT \<longrightarrow> tls_queued t' \<le> QUEUE_LIMIT + 65536)
    \<and> (r = Inr () \<longrightarrow> tls_queued t \<le> QUEUE_LIMIT \<longrightarrow> tls_queued t' \<le> QUEUE_LIMIT)"
proof -
  obtain ssl' out' where d: "drain_loop lib (t_ssl t) (drop (t_off t) (t_out t)) = (r, ssl', out')"
    and t': "t' = t\<lparr>t_ssl := ssl', t_out := out', t_off := 0\<rparr>"
    using assms(3) by (auto simp: tls_drain_def split: prod.splits)
  show ?thesis
    using drain_loop_emits [OF assms(1) d] assms(2) t'
    by (auto simp: tls_inv_def tls_wire_def tls_queued_def)
qed

lemma flush_loop_sent:
  "flush_loop s out off = (r, s', off') \<Longrightarrow> off \<le> length out \<Longrightarrow>
     off \<le> off' \<and> off' \<le> length out \<and> s_sent s' @ drop off' out = s_sent s @ drop off out
       \<and> (r = Inr () \<longrightarrow> off' = length out)"
proof (induction s out off rule: flush_loop.induct)
  case (1 s out off)
  show ?case
  proof (cases "off < length out")
    case False
    with "1.prems" show ?thesis by (auto simp: flush_loop.simps [of s out off])
  next
    case True
    obtain a s1 where w: "sock_write (drop off out) s = (a, s1)" by fastforce
    show ?thesis
    proof (cases a)
      case (Inl e)
      with w True "1.prems" show ?thesis
        by (auto simp: flush_loop.simps [of s out off] dest: sock_write_InlD)
    next
      case (Inr n)
      with w have n: "n \<le> length out - off" "s_sent s1 = s_sent s @ take n (drop off out)"
        using sock_write_InrD by fastforce+
      show ?thesis
      proof (cases "n = 0")
        case True
        with w Inr \<open>off < length out\<close> n "1.prems" show ?thesis
          by (auto simp: flush_loop.simps [of s out off])
      next
        case False
        with w Inr True "1.prems" have "flush_loop s1 out (off + n) = (r, s', off')"
          by (auto simp: flush_loop.simps [of s out off])
        moreover have "off + n \<le> length out" using n True by simp
        ultimately have "off + n \<le> off' \<and> off' \<le> length out
            \<and> s_sent s' @ drop off' out = s_sent s1 @ drop (off + n) out
            \<and> (r = Inr () \<longrightarrow> off' = length out)"
          using "1.IH" [OF True w [symmetric] Inr False] by blast
        moreover have "take n (drop off out) @ drop (off + n) out = drop off out"
          by (metis append_take_drop_id drop_drop add.commute)
        ultimately show ?thesis using n(2) by simp
      qed
    qed
  qed
qed

lemma tls_flush_inv:
  assumes "emits lib em" and "tls_inv em t" and "tls_flush lib t = (r, t')"
  shows "tls_inv em t' \<and> (r = Inr () \<longrightarrow> tls_queued t' = 0 \<and> s_sent (t_sock t') = em (t_ssl t'))
    \<and> (tls_queued t \<le> QUEUE_LIMIT \<longrightarrow> tls_queued t' \<le> QUEUE_LIMIT + 65536)"
proof -
  obtain d t1 where d: "tls_drain lib t = (d, t1)" by fastforce
  note t1 = tls_drain_inv [OF assms(1,2) d]
  show ?thesis
  proof (cases d)
    case (Inl e)
    with d t1 assms(3) show ?thesis by (auto simp: tls_flush_def)
  next
    case (Inr u)
    obtain f s off where f: "flush_loop (t_sock t1) (t_out t1) (t_off t1) = (f, s, off)"
      using prod_cases3 by blast
    have "t_off t1 \<le> length (t_out t1)" using t1 by (simp add: tls_inv_def)
    note sent = flush_loop_sent [OF f this]
    show ?thesis
      using assms(3) d Inr f sent t1
      by (cases f) (auto simp: tls_flush_def tls_inv_def tls_wire_def tls_queued_def)
  qed
qed

lemma tls_write_inv:
  assumes "emits lib em" and "tls_inv em t" and "tls_write lib buf t = (r, t')"
  shows "tls_inv em t'"
proof (cases "buf = []")
  case True
  with assms show ?thesis by (simp add: tls_write_def)
next
  case False
  obtain n ssl1 where w: "ssl_write lib (t_ssl t) (take I32_MAX buf) = (n, ssl1)" by fastforce
  have em: "em ssl1 = em (t_ssl t)" using emits_writeD [OF assms(1) w] .
  let ?t = "t\<lparr>t_ssl := ssl1, t_plain := t_plain t @ take (nat n) buf\<rparr>"
  have inv: "tls_inv em ?t" "tls_inv em (t\<lparr>t_ssl := ssl1\<rparr>)"
    using assms(2) em by (simp_all add: tls_inv_def tls_wire_def)
  obtain d t1 where d: "tls_drain lib ?t = (d, t1)" by fastforce
  obtain f t2 where f: "tls_flush lib t1 = (f, t2)" by fastforce
  have "tls_inv em t1" using tls_drain_inv [OF assms(1) inv(1) d] by simp
  moreover from this have "tls_inv em t2" using tls_flush_inv [OF assms(1) _ f] by simp
  ultimately show ?thesis
    using assms(3) False w d f inv by (auto simp: tls_write_def split: sum.splits if_splits)
qed

text \<open>What every single write keeps, \<open>write_all\<close> keeps.\<close>

lemma tls_write_all_keeps:
  assumes step: "\<And>buf t r t'. P t \<Longrightarrow> tls_write lib buf t = (r, t') \<Longrightarrow> P t'"
  shows "P t \<Longrightarrow> P (snd (tls_write_all lib buf t))"
proof (induction "length buf + tx_left t" arbitrary: buf t rule: less_induct)
  case less
  show ?case
  proof (cases "buf = []")
    case True
    with less.prems show ?thesis by (simp add: tls_write_all.simps)
  next
    case False
    obtain a t1 where w: "tls_write lib buf t = (a, t1)" by fastforce
    have P: "P t1" using step less.prems w .
    note frame = tls_write_frame [OF w]
    show ?thesis
    proof (cases a)
      case (Inl e)
      then show ?thesis
        using less.hyps [of buf t1] P frame False w
        by (auto simp: tls_write_all.simps [of lib buf t])
    next
      case (Inr n)
      then show ?thesis
        using less.hyps [of "drop n buf" t1] tls_write_step [OF w [symmetric] False, of n] P False w
        by (auto simp: tls_write_all.simps [of lib buf t])
    qed
  qed
qed

section \<open>Tls as a byte sink\<close>

text \<open>
  What the ADB connection and the pairing exchange use of \<open>Tls\<close> to send: \<open>write_all\<close>,
  \<open>flush\<close> and the number of queued bytes. The contract, for states that satisfy \<open>invar\<close>: a
  successful put appends exactly the bytes to the plaintext handed to the peer's side, a failed
  one appends a prefix of them, and flushing appends nothing.
\<close>

record 'o sink =
  sk_put :: "u8 list \<Rightarrow> 'o \<Rightarrow> (err + unit) \<times> 'o"
  sk_flush :: "'o \<Rightarrow> (io_error + unit) \<times> 'o"
  sk_queued :: "'o \<Rightarrow> nat"
  sk_plain :: "'o \<Rightarrow> u8 list"
  sk_read :: "nat \<Rightarrow> 'o \<Rightarrow> ((io_error + u8 list) \<times> 'o) option"

definition io_result :: "(io_error + 'a) \<Rightarrow> err + 'a" where
  "io_result r = (case r of Inl e \<Rightarrow> Inl (Io e) | Inr x \<Rightarrow> Inr x)"

definition tls_sink :: "'ssl ssl_lib \<Rightarrow> 'ssl tls sink" where
  "tls_sink lib =
     \<lparr>sk_put = (\<lambda>b t. (let (r, t') = tls_write_all lib b t in (io_result r, t'))),
      sk_flush = tls_flush lib, sk_queued = tls_queued, sk_plain = t_plain,
      sk_read = tls_read lib\<rparr>"

locale byte_sink =
  fixes sink :: "'o sink" and invar :: "'o \<Rightarrow> bool"
  assumes put_invar: "invar o1 \<Longrightarrow> invar (snd (sk_put sink b o1))"
    and flush_invar: "invar o1 \<Longrightarrow> invar (snd (sk_flush sink o1))"
    and put_ok: "invar o1 \<Longrightarrow> sk_put sink b o1 = (Inr u, o2) \<Longrightarrow>
      sk_plain sink o2 = sk_plain sink o1 @ b"
    and put_err: "invar o1 \<Longrightarrow> sk_put sink b o1 = (Inl e, o2) \<Longrightarrow>
      \<exists>c d. b = c @ d \<and> sk_plain sink o2 = sk_plain sink o1 @ c"
    and flush_plain: "sk_plain sink (snd (sk_flush sink o1)) = sk_plain sink o1"
begin

lemma put_prefix:
  assumes "invar o1" and "sk_put sink b o1 = (r, o2)"
  obtains c d where "b = c @ d" and "sk_plain sink o2 = sk_plain sink o1 @ c"
    and "r = Inr () \<Longrightarrow> d = []"
proof (cases r)
  case (Inl e)
  then show thesis using put_err [of o1 b e o2] assms that by blast
next
  case (Inr u)
  then show thesis using put_ok [of o1 b u o2] assms that [of b "[]"] by simp
qed

end

text \<open>
  The TLS object meets the contract as long as no socket write is interrupted by a signal.
\<close>

definition no_interrupt :: "'ssl tls \<Rightarrow> bool" where
  "no_interrupt t \<longleftrightarrow>
     (\<forall>e \<in> set (s_tx (t_sock t)). case e of TErr x \<Rightarrow> io_kind_of x \<noteq> Interrupted | _ \<Rightarrow> True)"

lemma sock_write_script: "sock_write b s = (r, s') \<Longrightarrow>
  set (s_tx s') \<subseteq> set (s_tx s) \<and> (\<forall>e. r = Inl e \<longrightarrow> e = would_block \<or> TErr e \<in> set (s_tx s))"
  by (auto simp: sock_write_def split: list.splits tx_event.splits)

lemma flush_loop_script:
  "flush_loop s out off = (r, s', off') \<Longrightarrow>
     set (s_tx s') \<subseteq> set (s_tx s)
       \<and> (\<forall>e. r = Inl e \<longrightarrow> io_kind_of e \<in> {WouldBlock, WriteZero} \<or> TErr e \<in> set (s_tx s))"
proof (induction s out off rule: flush_loop.induct)
  case (1 s out off)
  obtain a s1 where w: "sock_write (drop off out) s = (a, s1)" by fastforce
  note script = sock_write_script [OF w]
  show ?case
  proof (cases a)
    case (Inl e)
    with w script "1.prems" show ?thesis
      by (auto simp: flush_loop.simps [of s out off] split: if_splits)
  next
    case (Inr n)
    with w script 1 show ?thesis
      by (fastforce simp: flush_loop.simps [of s out off] split: if_splits)
  qed
qed

lemma tls_flush_script:
  assumes "tls_flush lib t = (r, t')" and "no_interrupt t"
  shows "no_interrupt t' \<and> (\<forall>e. r = Inl e \<longrightarrow> io_kind_of e \<noteq> Interrupted)"
  using assms
  by (fastforce simp: tls_flush_def no_interrupt_def split: prod.splits sum.splits
      dest!: tls_drain_frame flush_loop_script)

lemma tls_write_plain:
  assumes "tls_write lib buf t = (r, t')" and "no_interrupt t"
  shows "no_interrupt t' \<and> (\<forall>n. r = Inr n \<longrightarrow> t_plain t' = t_plain t @ take n buf)
    \<and> (\<forall>e. r = Inl e \<longrightarrow> io_kind_of e \<noteq> Interrupted \<and> (\<exists>n. t_plain t' = t_plain t @ take n buf))"
proof (cases "buf = []")
  case True
  with assms show ?thesis by (auto simp: tls_write_def)
next
  case False
  obtain n ssl1 where w: "ssl_write lib (t_ssl t) (take I32_MAX buf) = (n, ssl1)" by fastforce
  let ?t = "t\<lparr>t_ssl := ssl1, t_plain := t_plain t @ take (nat n) buf\<rparr>"
  obtain d t1 where d: "tls_drain lib ?t = (d, t1)" by fastforce
  obtain f t2 where f: "tls_flush lib t1 = (f, t2)" by fastforce
  have t1: "no_interrupt t1" "t_plain t1 = t_plain t @ take (nat n) buf"
    using tls_drain_frame [OF d] assms(2) by (simp_all add: no_interrupt_def)
  have t2: "no_interrupt t2" "t_plain t2 = t_plain t1" "f = Inl e \<Longrightarrow> io_kind_of e \<noteq> Interrupted" for e
    using tls_flush_script [OF f t1(1)] tls_flush_frame [OF f] by auto
  show ?thesis
    using assms(1) False w d f t1 t2 tls_drain_frame [OF d] assms(2)
    by (auto simp: tls_write_def no_interrupt_def split: sum.splits if_splits
        intro: exI [of _ "nat n"] exI [of _ 0])
qed

lemma tls_write_all_plain:
  "tls_write_all lib buf t = (r, t') \<Longrightarrow> no_interrupt t \<Longrightarrow>
     (\<exists>n. t_plain t' = t_plain t @ take n buf) \<and> (r = Inr () \<longrightarrow> t_plain t' = t_plain t @ buf)"
proof (induction "length buf" arbitrary: buf t rule: less_induct)
  case less
  show ?case
  proof (cases "buf = []")
    case True
    with less.prems show ?thesis by (simp add: tls_write_all.simps)
  next
    case False
    obtain a t1 where w: "tls_write lib buf t = (a, t1)" by fastforce
    note plain = tls_write_plain [OF w less.prems(2)]
    show ?thesis
    proof (cases a)
      case (Inl e)
      with less.prems w False plain show ?thesis
        by (auto simp: tls_write_all.simps [of lib buf t])
    next
      case (Inr n)
      show ?thesis
      proof (cases "n = 0")
        case True
        with less.prems w False plain Inr show ?thesis
          by (auto simp: tls_write_all.simps [of lib buf t] intro: exI [of _ 0])
      next
        case n: False
        with less.prems w False Inr have rest: "tls_write_all lib (drop n buf) t1 = (r, t')"
          by (auto simp: tls_write_all.simps [of lib buf t])
        have "length (drop n buf) < length buf" using n False by simp
        from less.hyps [OF this rest] plain obtain m where
          "t_plain t' = t_plain t1 @ take m (drop n buf)"
          "r = Inr () \<longrightarrow> t_plain t' = t_plain t1 @ drop n buf" by blast
        with plain Inr show ?thesis
          by (auto simp flip: take_add intro: exI [of _ "n + m"])
      qed
    qed
  qed
qed

interpretation tls: byte_sink "tls_sink lib" no_interrupt for lib :: "'ssl ssl_lib"
proof unfold_locales
  fix t t' :: "'ssl tls" and b u e
  show "no_interrupt t \<Longrightarrow> no_interrupt (snd (sk_put (tls_sink lib) b t))"
    using tls_write_all_keeps [of no_interrupt lib t b] tls_write_plain
    by (fastforce simp: tls_sink_def split: prod.splits)
  show "no_interrupt t \<Longrightarrow> no_interrupt (snd (sk_flush (tls_sink lib) t))"
    using tls_flush_script [of lib t] by (cases "tls_flush lib t") (auto simp: tls_sink_def)
  show "sk_plain (tls_sink lib) (snd (sk_flush (tls_sink lib) t)) = sk_plain (tls_sink lib) t"
    using tls_flush_frame [of lib t] by (cases "tls_flush lib t") (auto simp: tls_sink_def)
  show "sk_plain (tls_sink lib) t' = sk_plain (tls_sink lib) t @ b"
    if "no_interrupt t" "sk_put (tls_sink lib) b t = (Inr u, t')"
    using that tls_write_all_plain [of lib b t _ t']
    by (auto simp: tls_sink_def io_result_def split: prod.splits sum.splits)
  show "\<exists>c d. b = c @ d \<and> sk_plain (tls_sink lib) t' = sk_plain (tls_sink lib) t @ c"
    if inv: "no_interrupt t" and put: "sk_put (tls_sink lib) b t = (Inl e, t')"
  proof -
    obtain r where "tls_write_all lib b t = (r, t')"
      using put by (auto simp: tls_sink_def split: prod.splits)
    from tls_write_all_plain [OF this inv] obtain n where "t_plain t' = t_plain t @ take n b"
      by blast
    then show ?thesis by (auto simp: tls_sink_def intro: exI [of _ "drop n b"] exI [of _ "take n b"])
  qed
qed

section \<open>Properties\<close>

text \<open>A library that encrypts with the identity: its state is what waits in the write BIO,
  behind what was taken out of it.\<close>

definition plain_ssl :: "(u8 list \<times> u8 list) ssl_lib" where
  "plain_ssl =
     \<lparr>ssl_handshake = (\<lambda>s. (1, s)), ssl_error = (\<lambda>s n. 2), ssl_read = (\<lambda>s n. ((- 1, []), s)),
      ssl_write = (\<lambda>(a, w) b. (int (length b), (a, w @ b))),
      ssl_feed = (\<lambda>s b. (int (length b), s)),
      ssl_drain = (\<lambda>(a, w) n. (take n w, (a @ take n w, drop n w)))\<rparr>"

lemma plain_ssl_emits: "emits plain_ssl fst"
  by (auto simp: emits_def plain_ssl_def split: prod.splits)

definition plain_tls :: "tx_event list \<Rightarrow> (u8 list \<times> u8 list) tls" where
  "plain_tls tx = \<lparr>t_ssl = ([], []), t_sock = sock_new [] tx, t_out = [], t_off = 0, t_plain = []\<rparr>"

text \<open>
  C26: writing keeps the ciphertext in order and whole. Whatever the socket does (short writes,
  a full buffer, errors), after \<open>write_all\<close> of any data the bytes on the wire followed by the
  bytes still queued are exactly the ciphertext the TLS library produced, in its order.
\<close>

theorem tls_write_all_conserves:
  assumes "emits lib em" and "tls_inv em t"
  shows "tls_inv em (snd (tls_write_all lib buf t))"
  by (rule tls_write_all_keeps [of "tls_inv em" lib, OF _ assms(2)])
    (rule tls_write_inv [OF assms(1)])

theorem tls_write_all_conserves_witness:
  "tls_inv fst (snd (tls_write_all plain_ssl [7, 8, 9] (plain_tls [TAccept 1, TAccept 1])))"
  by (rule tls_write_all_conserves [OF plain_ssl_emits])
    (simp add: tls_inv_def tls_wire_def plain_tls_def sock_new_def)

text \<open>
  \<open>flush\<close> says \<open>Ok\<close> only when nothing is left: then every byte of ciphertext is on the wire
  and the queue is empty. And however saturated the socket, flushing a queue within its 8 MiB
  limit never holds more than the limit and one 64 KiB buffer, so memory stays bounded.
\<close>

theorem tls_flush_complete_bounded:
  assumes "emits lib em" and "tls_inv em t" and "tls_queued t \<le> QUEUE_LIMIT"
    and "tls_flush lib t = (r, t')"
  shows "tls_inv em t' \<and> (r = Inr () \<longrightarrow> tls_queued t' = 0 \<and> s_sent (t_sock t') = em (t_ssl t'))
    \<and> tls_queued t' \<le> QUEUE_LIMIT + 65536"
  using tls_flush_inv [OF assms(1,2,4)] assms(3) by blast

theorem tls_flush_complete_bounded_witness:
  "tls_inv fst (snd (tls_flush plain_ssl (plain_tls [])))"
  using tls_flush_complete_bounded [OF plain_ssl_emits, of "plain_tls []"
      "fst (tls_flush plain_ssl (plain_tls []))" "snd (tls_flush plain_ssl (plain_tls []))"]
  by (simp add: tls_inv_def tls_wire_def plain_tls_def sock_new_def tls_queued_def)

section \<open>An interrupted write\<close>

text \<open>
  \<open>SSL_write\<close> takes the whole buffer when it succeeds: \<open>native/crypto.c\<close> leaves partial writes off.
\<close>

definition whole_writes :: "'ssl ssl_lib \<Rightarrow> bool" where
  "whole_writes lib \<longleftrightarrow>
     (\<forall>ssl b n ssl'. ssl_write lib ssl b = (n, ssl') \<longrightarrow> 0 < n \<longrightarrow> n = int (length b))"

lemma tls_write_accepts:
  assumes "whole_writes lib" and "buf \<noteq> []" and "length buf \<le> I32_MAX" and "tls_write lib buf t = (r, t')"
    and "\<And>e. r = Inl e \<Longrightarrow> io_kind_of e = Interrupted"
  shows "t_plain t' = t_plain t @ buf \<and> (\<forall>n. r = Inr n \<longrightarrow> n = length buf)"
proof -
  obtain n ssl' where w: "ssl_write lib (t_ssl t) buf = (n, ssl')" by fastforce
  show ?thesis
  proof (cases "0 < n")
    case True
    then have "nat n = length buf" using assms(1) w unfolding whole_writes_def by (metis nat_int)
    with True w assms(2-4) show ?thesis
      by (auto simp: tls_write_def Let_def split: prod.splits sum.splits if_splits
          dest!: tls_drain_frame tls_flush_frame)
  next
    case False
    with w assms(2-5) show ?thesis by (auto simp: tls_write_def)
  qed
qed

text \<open>
  What \<open>write_all\<close> gives to SSL when it succeeds: the buffer one time, and once more for every
  interruption; exactly once just when the first write returns a number.
\<close>

theorem tls_write_all_copies:
  assumes "whole_writes lib" and "buf \<noteq> []" and "length buf \<le> I32_MAX"
    and "tls_write_all lib buf t = (Inr (), t')"
  shows "\<exists>k. t_plain t' = t_plain t @ concat (replicate (Suc k) buf)
    \<and> (k = 0 \<longleftrightarrow> is_ok (fst (tls_write lib buf t)))
    \<and> (0 < k \<longleftrightarrow> (\<exists>e t1. tls_write lib buf t = (Inl e, t1) \<and> io_kind_of e = Interrupted))"
  using assms
proof (induction lib buf t arbitrary: t' rule: tls_write_all.induct)
  case (1 lib buf t)
  obtain r t1 where w: "tls_write lib buf t = (r, t1)" by fastforce
  show ?case
  proof (cases r)
    case (Inr n)
    then have "t_plain t1 = t_plain t @ buf" "n = length buf"
      using tls_write_accepts [OF "1.prems"(1-3) w] by auto
    with "1.prems"(2,4) w Inr show ?thesis
      by (intro exI [of _ 0]) (simp add: tls_write_all.simps [of lib buf t] tls_write_all.simps [of lib "[]"])
  next
    case (Inl e)
    with "1.prems"(2,4) w have i: "io_kind_of e = Interrupted" and go: "tls_write_all lib buf t1 = (Inr (), t')"
      by (auto simp: tls_write_all.simps [of lib buf t] split: if_splits)
    from "1.IH"(1) [OF "1.prems"(2) w [symmetric] Inl i "1.prems"(1-3) go] obtain k where
      "t_plain t' = t_plain t1 @ concat (replicate (Suc k) buf)" by blast
    moreover have "t_plain t1 = t_plain t @ buf"
      using tls_write_accepts [OF "1.prems"(1-3) w] Inl i by simp
    ultimately show ?thesis using w Inl i by (intro exI [of _ "Suc k"]) simp
  qed
qed

lemma tls_write_interrupted:
  assumes "buf \<noteq> []" and "length buf \<le> I32_MAX" and "ssl_write lib (t_ssl t) buf = (n, ssl')" and "0 < n"
    and "tls_drain lib (t\<lparr>t_ssl := ssl', t_plain := t_plain t @ take (nat n) buf\<rparr>) = (Inr (), t1)"
    and "tls_drain lib t1 = (Inr (), t2)" and "t_out t2 \<noteq> []"
    and "s_tx (t_sock t) = TErr e # tx" and "io_kind_of e = Interrupted"
  shows "\<exists>t'. tls_write lib buf t = (Inl e, t')"
proof -
  have "s_tx (t_sock t2) = TErr e # tx" "t_off t2 = 0"
    using assms(8) tls_drain_frame [OF assms(5)] tls_drain_frame [OF assms(6)] by simp_all
  then have "\<exists>s. flush_loop (t_sock t2) (t_out t2) (t_off t2) = (Inl e, s, 0)"
    using assms(7) by (simp add: flush_loop.simps [of "t_sock t2"] sock_write_def)
  then have "\<exists>t'. tls_flush lib t1 = (Inl e, t')" using assms(6) by (auto simp: tls_flush_def)
  with assms show ?thesis by (auto simp: tls_write_def)
qed

text \<open>
  C31: a socket write interrupted by a signal makes \<open>write_all\<close> send the data twice. Let SSL accept a
  buffer and have ciphertext to send, and let the socket's next write be interrupted. \<open>Tls::write\<close>
  passes the error of \<open>flush\<close> on although SSL has the buffer (only \<open>WouldBlock\<close> is taken for success),
  and \<open>write_all\<close> starts interrupted writes again: if it then says that it wrote the buffer, SSL has
  accepted it at least twice, over any library whose writes are whole.
\<close>

theorem tls_interrupted_write_duplicates:
  assumes "whole_writes lib" and "buf \<noteq> []" and "length buf \<le> I32_MAX"
    and "ssl_write lib (t_ssl t) buf = (n, ssl')" and "0 < n"
    and "tls_drain lib (t\<lparr>t_ssl := ssl', t_plain := t_plain t @ take (nat n) buf\<rparr>) = (Inr (), t1)"
    and "tls_drain lib t1 = (Inr (), t2)" and "t_out t2 \<noteq> []"
    and "s_tx (t_sock t) = TErr e # tx" and "io_kind_of e = Interrupted"
    and "tls_write_all lib buf t = (Inr (), t')"
  shows "\<exists>k. t_plain t' = t_plain t @ concat (replicate (k + 2) buf)"
proof -
  obtain t3 where w: "tls_write lib buf t = (Inl e, t3)" using tls_write_interrupted [OF assms(2-10)] by blast
  from tls_write_all_copies [OF assms(1-3,11)] obtain k where
    k: "t_plain t' = t_plain t @ concat (replicate (Suc k) buf)" "k \<noteq> 0" by (auto simp: w)
  then have "Suc k = (k - 1) + 2" by simp
  with k(1) show ?thesis by (metis)
qed

text \<open>Three bytes go out as six.\<close>

theorem tls_interrupted_write_duplicates_witness:
  "\<exists>t' k. tls_write_all plain_ssl [7, 8, 9]
        (plain_tls [TErr (IoError Interrupted (Some 4) ''EINTR''), TAccept 100]) = (Inr (), t')
     \<and> s_sent (t_sock t') = [7, 8, 9, 7, 8, 9]
     \<and> t_plain t' = concat (replicate (k + 2) [7, 8, 9])"
proof -
  let ?e = "IoError Interrupted (Some 4) ''EINTR''"
  let ?t = "plain_tls [TErr ?e, TAccept 100]" and ?ssl = "([], [7, 8, 9])"
  have w: "ssl_write plain_ssl (t_ssl ?t) [7, 8, 9] = (3, ?ssl)" by (simp add: plain_ssl_def plain_tls_def)
  obtain t1 where t1: "tls_drain plain_ssl (?t\<lparr>t_ssl := ?ssl, t_plain := t_plain ?t @ take (nat 3) [7, 8, 9]\<rparr>) = (Inr (), t1)"
    and out: "t_out t1 = [7, 8, 9]" "t_off t1 = 0" "t_ssl t1 = ([7, 8, 9], [])"
    by (simp add: tls_drain_def drain_loop.simps plain_ssl_def plain_tls_def)
  obtain t2 where t2: "tls_drain plain_ssl t1 = (Inr (), t2)" "t_out t2 \<noteq> []"
    using out by (simp add: tls_drain_def drain_loop.simps plain_ssl_def)
  obtain t' where t': "tls_write_all plain_ssl [7, 8, 9] ?t = (Inr (), t')" "s_sent (t_sock t') = [7, 8, 9, 7, 8, 9]"
    by (simp add: tls_write_all.simps tls_write_def tls_flush_def tls_drain_def drain_loop.simps
        flush_loop.simps sock_write_def plain_ssl_def plain_tls_def sock_new_def)
  have "whole_writes plain_ssl" by (auto simp: whole_writes_def plain_ssl_def)
  moreover have "s_tx (t_sock ?t) = TErr ?e # [TAccept 100]" by (simp add: plain_tls_def sock_new_def)
  moreover have "t_plain ?t = []" by (simp add: plain_tls_def)
  ultimately show ?thesis
    using tls_interrupted_write_duplicates [OF _ _ _ w _ t1 t2 _ _ t'(1), of ?e "[TAccept 100]"] t' by simp
qed

end
