(* ===== verification/Network.thy ===== *)
theory Network
  imports Bytes "HOL-Library.Product_Lexorder"
begin

text \<open>
  \<open>src/src/unix/network.rs\<close>: which interfaces the daemon may listen on, the TCP listeners, and
  the addresses of Unix sockets. The kernel is a parameter: the interface list and the sysfs
  facts are arguments, and the calls that create sockets are functions of the operations that
  use them.
\<close>

section \<open>Endpoints\<close>

text \<open>
  \<open>Ipv4Addr\<close> is its four octets read as a big-endian number, which orders it as Rust does.
\<close>

datatype endpoint =
  Endpoint (ep_interface: string) (ep_index: u32) (ep_address: u32) (ep_port: u16)

definition ep_key :: "endpoint \<Rightarrow> string \<times> u32 \<times> u32 \<times> u16" where
  "ep_key e = (ep_interface e, ep_index e, ep_address e, ep_port e)"

lemma ep_key_inject: "ep_key a = ep_key b \<Longrightarrow> a = b"
  by (cases a; cases b) (simp add: ep_key_def)

text \<open>The derived \<open>Ord\<close>: the fields in declaration order.\<close>

instantiation endpoint :: linorder
begin

definition less_eq_endpoint :: "endpoint \<Rightarrow> endpoint \<Rightarrow> bool" where
  "less_eq_endpoint a b = (ep_key a \<le> ep_key b)"

definition less_endpoint :: "endpoint \<Rightarrow> endpoint \<Rightarrow> bool" where
  "less_endpoint a b = (ep_key a < ep_key b)"

instance
  by standard
    (auto simp: less_eq_endpoint_def less_endpoint_def simp del: less_eq_prod_simp less_prod_simp
      intro: ep_key_inject)

end

definition ep_set_port :: "u16 \<Rightarrow> endpoint \<Rightarrow> endpoint" where
  "ep_set_port p e = Endpoint (ep_interface e) (ep_index e) (ep_address e) p"

lemma ep_set_port_sel [simp]:
  "ep_interface (ep_set_port p e) = ep_interface e" "ep_index (ep_set_port p e) = ep_index e"
  "ep_address (ep_set_port p e) = ep_address e" "ep_port (ep_set_port p e) = p"
  "ep_set_port p (ep_set_port q e) = ep_set_port p e"
  by (simp_all add: ep_set_port_def)

definition octets :: "u32 \<Rightarrow> u8 list" where
  "octets a = to_be32 a"

definition socket_addr :: "endpoint \<Rightarrow> u32 \<times> u16" where
  "socket_addr e = (ep_address e, ep_port e)"

definition show_ipv4 :: "u32 \<Rightarrow> string" where
  "show_ipv4 a = concat (map (\<lambda>(i, b). (if i = 0 then [] else ''.'') @ show_nat (unat b))
     (zip [0::nat, 1, 2, 3] (octets a)))"

definition ep_display :: "endpoint \<Rightarrow> string" where
  "ep_display e = show_ipv4 (ep_address e) @ '':'' @ show_nat (unat (ep_port e))"

section \<open>Interfaces\<close>

definition numbered :: "string \<Rightarrow> string \<Rightarrow> bool" where
  "numbered name prefix =
     (case strip_prefix prefix name of
        None \<Rightarrow> False
      | Some s \<Rightarrow> s \<noteq> [] \<and> list_all is_digit s)"

definition tunnel_prefixes :: "string list" where
  "tunnel_prefixes =
     [''rmnet'', ''ccmni'', ''pdp'', ''wwan'', ''tun'', ''tap'', ''wg'', ''ppp'', ''vti'', ''ipsec'',
      ''dummy'', ''veth'']"

definition eligible :: "string \<Rightarrow> bool \<Rightarrow> bool \<Rightarrow> bool \<Rightarrow> bool" where
  "eligible name wireless physical ethernet =
     (if list_ex (starts_with name) tunnel_prefixes then False
      else ethernet
        \<and> (wireless
           \<or> list_ex (numbered name) [''wlan'', ''swlan'', ''ap'', ''wifi'']
           \<or> physical \<and> (starts_with name ''eth'' \<or> starts_with name ''en'')))"

text \<open>
  An entry of \<open>getifaddrs\<close>: name, whether it has an address, the interface flags, the address
  family and IPv4 address, and what \<open>if_nametoindex\<close> answers. The sysfs facts of an interface
  are a function of its name.
\<close>

record ifaddr =
  if_name :: "u8 list"
  if_has_addr :: bool
  if_flags :: u32
  if_family :: nat
  if_addr :: u32
  if_index :: u32

record sysfs =
  sy_wireless :: bool
  sy_phy80211 :: bool
  sy_device :: bool
  sy_type :: "string option"

definition IFF_UP :: u32 where "IFF_UP = 1"
definition IFF_LOOPBACK :: u32 where "IFF_LOOPBACK = 8"
definition AF_INET :: nat where "AF_INET = 2"
definition LOCALHOST :: u32 where "LOCALHOST = 0x7F000001"

definition usable_address :: "u32 \<Rightarrow> bool" where
  "usable_address a = (\<not> (drop_bit 24 a = 127 \<or> a = 0 \<or> drop_bit 28 a = 14))"

definition interface_char :: "char \<Rightarrow> bool" where
  "interface_char c = (is_alnum c \<or> c = CHR ''_'' \<or> c = CHR ''-'')"

text \<open>What the loop of \<open>discover\<close> does with one entry: skip it, push an endpoint, or fail on a
  name that is not UTF-8.\<close>

definition discover_entry :: "(string \<Rightarrow> sysfs) \<Rightarrow> ifaddr \<Rightarrow> err + endpoint option" where
  "discover_entry sys e =
     (if \<not> if_has_addr e \<or> if_flags e AND IFF_UP = 0 \<or> if_flags e AND IFF_LOOPBACK \<noteq> 0 then Inr None
      else rbind (from_utf8 (if_name e)) (\<lambda>name.
        let s = sys name
        in if \<not> list_all interface_char name then Inr None
           else if \<not> eligible name (sy_wireless s \<or> sy_phy80211 s) (sy_device s)
             (trim (case sy_type s of None \<Rightarrow> [] | Some t \<Rightarrow> t) = ''1'') then Inr None
           else if if_family e \<noteq> AF_INET then Inr None
           else if \<not> usable_address (if_addr e) then Inr None
           else if if_index e = 0 then Inr None
           else Inr (Some (Endpoint name (if_index e) (if_addr e) 0))))"

fun discover_loop :: "(string \<Rightarrow> sysfs) \<Rightarrow> ifaddr list \<Rightarrow> err + endpoint list" where
  "discover_loop sys [] = Inr []"
| "discover_loop sys (e # es) =
     rbind (discover_entry sys e) (\<lambda>r.
     rbind (discover_loop sys es) (\<lambda>rs.
       Inr (case r of None \<Rightarrow> rs | Some x \<Rightarrow> x # rs)))"

definition discover :: "(string \<Rightarrow> sysfs) \<Rightarrow> ifaddr list option \<Rightarrow> bool \<Rightarrow> err + endpoint list" where
  "discover sys ifs test =
     (if test then Inr [Endpoint ''lo'' 1 LOCALHOST 0]
      else (case ifs of
        None \<Rightarrow> Inl (Msg ''cannot enumerate interfaces'')
      | Some es \<Rightarrow>
          rbind (discover_loop sys es) (\<lambda>r.
          let result = remdups_adj (sort r)
          in rbind (ensure (length result \<le> 32) (Msg ''too many eligible interface addresses''))
               (\<lambda>_. Inr result))))"

section \<open>TCP listeners\<close>

text \<open>
  \<open>mk device ep\<close> is the kernel's answer to socket, \<open>SO_REUSEADDR\<close>, \<open>SO_BINDTODEVICE\<close> (when a
  device is given), bind, listen, non-blocking and \<open>local_addr\<close>: the listener and the port it
  got. Listeners created before a failure are closed by the early return.
\<close>

fun listeners ::
    "(string option \<Rightarrow> u32 \<times> u16 \<Rightarrow> 'os \<Rightarrow> (err + 'l \<times> u16) \<times> 'os) \<Rightarrow> endpoint list \<Rightarrow> u16 \<Rightarrow> bool
       \<Rightarrow> 'os \<Rightarrow> (endpoint list \<times> 'l list, 'os) outcome" where
  "listeners mk [] chosen test os = (Inr ([], []), os)"
| "listeners mk (original # rest) chosen test os =
     (let ep = ep_set_port chosen original
      in sbind (mk (if test then None else Some (ep_interface ep)) (socket_addr ep) os) (\<lambda>(l, port) os.
         sbind (listeners mk rest port test os) (\<lambda>(eps, ls) os.
           (Inr (ep_set_port port ep # eps, l # ls), os))))"

section \<open>Unix socket addresses\<close>

definition SUN_PATH :: nat where "SUN_PATH = 108"

text \<open>The 108 bytes of \<open>sun_path\<close> and the address length; \<open>sun_path\<close> starts at offset 2.\<close>

definition unix_address :: "string \<Rightarrow> err + u8 list \<times> nat" where
  "unix_address spec =
     rbind (case strip_prefix ''localabstract:'' spec of
              Some s \<Rightarrow> Inr (True, s)
            | None \<Rightarrow> (case strip_prefix ''localfilesystem:'' spec of
                Some s \<Rightarrow> Inr (False, s)
              | None \<Rightarrow> Inl (Msg ''unsupported Unix socket''))) (\<lambda>(abstract_name, path).
     rbind (ensure (path \<noteq> [] \<and> NUL \<notin> set path) (Msg ''invalid Unix socket name'')) (\<lambda>_.
     rbind (if \<not> abstract_name
            then ensure (starts_with path ''/'') (Msg ''Unix socket path must be absolute'')
            else Inr ()) (\<lambda>_.
     let start = of_bool abstract_name
     in rbind (ensure (length path + start < SUN_PATH) (Msg ''Unix socket name too long'')) (\<lambda>_.
        Inr (replicate start 0 @ str_bytes path @ replicate (SUN_PATH - start - length path) 0,
             2 + start + length path + of_bool (\<not> abstract_name))))))"

text \<open>
  \<open>unix_socket\<close> and \<open>reverse_listener\<close>: \<open>sys_socket\<close> creates the descriptor, \<open>sys_bind\<close>,
  \<open>sys_connect\<close> and \<open>sys_listen\<close> tell whether the call succeeded, \<open>tcp_bind\<close> is
  \<open>TcpListener::bind\<close> on the loopback address with the port it got.
\<close>

record ('fd, 'os) unix_sys =
  sys_socket :: "'os \<Rightarrow> 'fd option \<times> 'os"
  sys_bind :: "'fd \<Rightarrow> u8 list \<times> nat \<Rightarrow> 'os \<Rightarrow> io_error option \<times> 'os"
  sys_connect :: "'fd \<Rightarrow> u8 list \<times> nat \<Rightarrow> 'os \<Rightarrow> io_error option \<times> 'os"
  sys_listen :: "'fd \<Rightarrow> 'os \<Rightarrow> bool \<times> 'os"
  tcp_bind :: "u32 \<times> u16 \<Rightarrow> 'os \<Rightarrow> (err + 'fd \<times> u16) \<times> 'os"

definition unix_socket :: "('fd, 'os) unix_sys \<Rightarrow> string \<Rightarrow> bool \<Rightarrow> 'os \<Rightarrow> ('fd, 'os) outcome" where
  "unix_socket sys spec bind os =
     (case unix_address spec of
        Inl e \<Rightarrow> (Inl e, os)
      | Inr addr \<Rightarrow>
          (case sys_socket sys os of
             (None, os) \<Rightarrow> (Inl (Msg ''Unix socket creation failed''), os)
           | (Some fd, os) \<Rightarrow>
               (case (if bind then sys_bind sys fd addr os else sys_connect sys fd addr os) of
                  (Some e, os) \<Rightarrow> (Inl (Msg (''Unix socket operation: '' @ io_text e)), os)
                | (None, os) \<Rightarrow>
                    if bind then
                      (let (ok, os) = sys_listen sys fd os
                       in if ok then (Inr fd, os) else (Inl (Msg ''Unix listen failed''), os))
                    else (Inr fd, os))))"

definition reverse_listener :: "('fd, 'os) unix_sys \<Rightarrow> string \<Rightarrow> 'os \<Rightarrow> ('fd \<times> string, 'os) outcome" where
  "reverse_listener sys spec os =
     (case strip_prefix ''tcp:'' spec of
        Some port \<Rightarrow>
          (case parse_u16 port of
             Inl e \<Rightarrow> (Inl e, os)
           | Inr port \<Rightarrow>
               sbind (tcp_bind sys (LOCALHOST, port) os) (\<lambda>(fd, actual) os.
                 (Inr (fd, ''tcp:'' @ show_nat (unat actual)), os)))
      | None \<Rightarrow> sbind (unix_socket sys spec True os) (\<lambda>fd os. (Inr (fd, spec), os)))"

text \<open>\<open>validate_endpoint\<close> of \<open>src/src/unix/transport.rs\<close>.\<close>

definition validate_endpoint :: "string \<Rightarrow> bool \<Rightarrow> err + unit" where
  "validate_endpoint spec zero =
     rbind (ensure (length spec \<le> 1024
         \<and> \<not> list_ex (\<lambda>c. c = NUL \<or> c = CHR '';'' \<or> c = CHR 0x0A \<or> c = CHR 0x0D) spec)
       (Msg ''invalid socket endpoint'')) (\<lambda>_.
     (case strip_prefix ''tcp:'' spec of
        Some port \<Rightarrow>
          rbind (parse_u16 port) (\<lambda>port.
            ensure (zero \<or> port \<noteq> 0) (Msg ''zero destination port''))
      | None \<Rightarrow> rbind (unix_address spec) (\<lambda>_. Inr ())))"

section \<open>Facts\<close>

text \<open>
  What an address must be like to be listened on, said without the code: an interface that is up and
  not the loopback one (bits 0 and 3 of its flags), with an IPv4 address that is not of the loopback
  net, not zero and not a multicast one; of Ethernet type, with a plain name that is not a tunnel's or a
  mobile network's, and wireless, or named like a wireless one, or a device named like a wired one.
\<close>

definition lan_interface :: "sysfs \<Rightarrow> string \<Rightarrow> bool" where
  "lan_interface y n \<longleftrightarrow>
     (\<forall>c \<in> set n. is_alnum c \<or> c = CHR ''_'' \<or> c = CHR ''-'')
     \<and> (\<nexists>pre s. n = pre @ s \<and> pre \<in> {''rmnet'', ''ccmni'', ''pdp'', ''wwan'', ''tun'', ''tap'', ''wg'',
          ''ppp'', ''vti'', ''ipsec'', ''dummy'', ''veth''})
     \<and> (\<exists>t. sy_type y = Some t \<and> trim t = ''1'')
     \<and> (sy_wireless y \<or> sy_phy80211 y
        \<or> (\<exists>pre ds. n = pre @ ds \<and> pre \<in> {''wlan'', ''swlan'', ''ap'', ''wifi''} \<and> ds \<noteq> [] \<and> (\<forall>d \<in> set ds. is_digit d))
        \<or> sy_device y \<and> (\<exists>pre s. n = pre @ s \<and> pre \<in> {''eth'', ''en''}))"

definition attached :: "ifaddr \<Rightarrow> bool" where
  "attached e \<longleftrightarrow> if_has_addr e \<and> bit (if_flags e) 0 \<and> \<not> bit (if_flags e) 3"

definition usable_endpoint :: "(string \<Rightarrow> sysfs) \<Rightarrow> ifaddr \<Rightarrow> endpoint \<Rightarrow> bool" where
  "usable_endpoint sys e p \<longleftrightarrow>
     attached e \<and> if_family e = 2 \<and> if_index e \<noteq> 0
     \<and> unat (if_addr e) div 2 ^ 24 \<noteq> 127 \<and> if_addr e \<noteq> 0 \<and> unat (if_addr e) div 2 ^ 28 \<noteq> 14
     \<and> utf8_valid (if_name e) \<and> lan_interface (sys (bytes_str (if_name e))) (bytes_str (if_name e))
     \<and> p = Endpoint (bytes_str (if_name e)) (if_index e) (if_addr e) 0"

lemma lan_interface_iff:
  "lan_interface y n \<longleftrightarrow> list_all interface_char n
     \<and> eligible n (sy_wireless y \<or> sy_phy80211 y) (sy_device y)
         (trim (case sy_type y of None \<Rightarrow> [] | Some t \<Rightarrow> t) = ''1'')"
proof -
  have any: "list_ex (starts_with n) ps \<longleftrightarrow> (\<exists>pre s. n = pre @ s \<and> pre \<in> set ps)" for ps
    by (auto simp: list_ex_iff starts_with_iff)
  have tunnel: "list_ex (starts_with n) tunnel_prefixes \<longleftrightarrow> (\<exists>pre s. n = pre @ s \<and> pre \<in> {''rmnet'', ''ccmni'',
      ''pdp'', ''wwan'', ''tun'', ''tap'', ''wg'', ''ppp'', ''vti'', ''ipsec'', ''dummy'', ''veth''})"
    unfolding any by (simp only: tunnel_prefixes_def list.set)
  have "numbered n pre \<longleftrightarrow> (\<exists>ds. n = pre @ ds \<and> ds \<noteq> [] \<and> (\<forall>d \<in> set ds. is_digit d))" for pre
    by (auto simp: numbered_def list_all_iff split: option.splits)
  then have "list_ex (numbered n) ps \<longleftrightarrow>
      (\<exists>pre ds. n = pre @ ds \<and> pre \<in> set ps \<and> ds \<noteq> [] \<and> (\<forall>d \<in> set ds. is_digit d))" for ps
    by (auto simp: list_ex_iff)
  note numbers = this [of "[''wlan'', ''swlan'', ''ap'', ''wifi'']", unfolded list.set]
  have wired: "starts_with n ''eth'' \<or> starts_with n ''en'' \<longleftrightarrow> (\<exists>pre s. n = pre @ s \<and> pre \<in> {''eth'', ''en''})"
    using any [of "[''eth'', ''en'']"] by (simp only: list_ex_iff list.set bex_simps list.set simp_thms)
  have "(trim (case sy_type y of None \<Rightarrow> [] | Some t \<Rightarrow> t) = ''1'') \<longleftrightarrow> (\<exists>t. sy_type y = Some t \<and> trim t = ''1'')"
    by (cases "sy_type y") (simp_all add: trim_def)
  then show ?thesis
    unfolding lan_interface_def eligible_def tunnel numbers wired
    by (auto simp: list_all_iff interface_char_def)
qed

lemma usable_address_iff:
  "usable_address a \<longleftrightarrow> unat a div 2 ^ 24 \<noteq> 127 \<and> a \<noteq> 0 \<and> unat a div 2 ^ 28 \<noteq> 14"
proof -
  have unat_u32: "unat a < 2 ^ 32" using unsigned_less [of a] by simp
  have "drop_bit k a = of_nat m \<longleftrightarrow> unat a div 2 ^ k = m" if "m < 2 ^ 32" for k m
  proof -
    have "unat (of_nat m :: u32) = m" using that by (simp add: unsigned_of_nat take_bit_nat_eq_self)
    then show ?thesis
      unfolding word_unat_eq_iff unsigned_drop_bit_eq by (simp add: drop_bit_nat_def take_bit_nat_eq_self unat_u32)
  qed
  from this [of 127 24] this [of 14 28] show ?thesis by (auto simp: usable_address_def)
qed

lemma attached_iff:
  "attached e \<longleftrightarrow> \<not> (\<not> if_has_addr e \<or> if_flags e AND IFF_UP = 0 \<or> if_flags e AND IFF_LOOPBACK \<noteq> 0)"
proof -
  have "w AND 1 = 0 \<longleftrightarrow> \<not> bit w 0" "w AND 8 = 0 \<longleftrightarrow> \<not> bit w 3" for w :: u32
    using and_exp_eq_0_iff_not_bit [of w 0] and_exp_eq_0_iff_not_bit [of w 3] by simp_all
  then show ?thesis by (auto simp: attached_def IFF_UP_def IFF_LOOPBACK_def)
qed

lemma discover_entry_iff:
  "discover_entry sys e = Inr (Some p) \<longleftrightarrow> usable_endpoint sys e p"
  "is_ok (discover_entry sys e) \<longleftrightarrow> (attached e \<longrightarrow> utf8_valid (if_name e))"
proof -
  have eq: "discover_entry sys e =
     (if \<not> attached e then Inr None
      else rbind (from_utf8 (if_name e)) (\<lambda>name.
        if \<not> lan_interface (sys name) name then Inr None
        else if if_family e \<noteq> 2 then Inr None
        else if \<not> (unat (if_addr e) div 2 ^ 24 \<noteq> 127 \<and> if_addr e \<noteq> 0 \<and> unat (if_addr e) div 2 ^ 28 \<noteq> 14) then Inr None
        else if if_index e = 0 then Inr None
        else Inr (Some (Endpoint name (if_index e) (if_addr e) 0))))"
    unfolding discover_entry_def attached_iff usable_address_iff [symmetric] lan_interface_iff AF_INET_def Let_def
    by (simp only: not_not) (cases "from_utf8 (if_name e)"; auto simp del: from_utf8_iff)
  show "discover_entry sys e = Inr (Some p) \<longleftrightarrow> usable_endpoint sys e p"
    unfolding eq usable_endpoint_def by (auto simp: from_utf8_def)
  show "is_ok (discover_entry sys e) \<longleftrightarrow> (attached e \<longrightarrow> utf8_valid (if_name e))"
    unfolding eq by (simp add: from_utf8_def)
qed

lemma discover_loop_in:
  "discover_loop sys es = Inr r \<Longrightarrow> p \<in> set r \<longleftrightarrow> (\<exists>e \<in> set es. discover_entry sys e = Inr (Some p))"
  by (induction es arbitrary: r) (auto split: option.splits)

lemma sorted_remdups_adj_strict:
  fixes xs :: "'a::linorder list"
  shows "sorted xs \<Longrightarrow> sorted_wrt (<) (remdups_adj xs)"
proof (induction xs rule: remdups_adj.induct)
  case (3 x y xs)
  then show ?case
    by (cases "x = y") (auto simp: less_le intro: order_trans)
qed simp_all

lemma discover_loop_ok:
  "is_ok (discover_loop sys es) \<longleftrightarrow> (\<forall>e \<in> set es. is_ok (discover_entry sys e))"
  by (induction es) (auto simp: is_ok_iff)

text \<open>
  C32: discovery answers exactly the usable addresses. It succeeds with the list \<open>r\<close> just when every
  entry that is up and not the loopback one has a name in UTF-8, and \<open>r\<close> holds, strictly sorted and so
  without duplicates, the endpoints of the usable entries (\<open>usable_endpoint\<close>, which is stated on the
  entry's fields), and these are at most 32. Every other outcome is an error.
\<close>

theorem discover_exact:
  "discover sys (Some es) False = Inr r \<longleftrightarrow>
     (\<forall>e \<in> set es. attached e \<longrightarrow> utf8_valid (if_name e))
     \<and> set r = {p. \<exists>e \<in> set es. usable_endpoint sys e p} \<and> sorted_wrt (<) r \<and> length r \<le> 32"
proof (cases "discover_loop sys es")
  case (Inl x)
  then have "\<not> (\<forall>e \<in> set es. attached e \<longrightarrow> utf8_valid (if_name e))"
    using discover_loop_ok [of sys es] unfolding discover_entry_iff(2) by simp
  with Inl show ?thesis by (auto simp: discover_def)
next
  case (Inr l)
  let ?r = "remdups_adj (sort l)"
  have ok: "\<forall>e \<in> set es. attached e \<longrightarrow> utf8_valid (if_name e)"
    using discover_loop_ok [of sys es] Inr unfolding discover_entry_iff(2) by simp
  have set: "set ?r = {p. \<exists>e \<in> set es. usable_endpoint sys e p}"
    using discover_loop_in [OF Inr] by (auto simp: discover_entry_iff(1))
  have "sorted_wrt (<) ?r" by (simp add: sorted_remdups_adj_strict)
  then have "r = ?r \<longleftrightarrow> set r = set ?r \<and> sorted_wrt (<) r" by (auto intro: strict_sorted_equal)
  with Inr ok set show ?thesis by (auto simp: discover_def Let_def)
qed

definition demo_sysfs :: "string \<Rightarrow> sysfs" where
  "demo_sysfs n = \<lparr>sy_wireless = True, sy_phy80211 = False, sy_device = True, sy_type = Some ''1''\<rparr>"

definition demo_ifaddrs :: "ifaddr list" where
  "demo_ifaddrs =
     [\<lparr>if_name = str_bytes ''lo'', if_has_addr = True, if_flags = 9, if_family = 2,
        if_addr = LOCALHOST, if_index = 1\<rparr>,
      \<lparr>if_name = str_bytes ''wlan0'', if_has_addr = True, if_flags = 1, if_family = 2,
        if_addr = 0xC0A80102, if_index = 3\<rparr>]"

lemma demo_name: "from_utf8 (str_bytes ''wlan0'') = Inr ''wlan0''"
  by (rule from_utf8_ascii) (simp add: is_ascii_def)

lemma demo_eligible:
  "eligible ''wlan0'' True True True" "list_all interface_char ''wlan0''" "trim ''1'' = ''1''"
  by (simp_all add: eligible_def tunnel_prefixes_def starts_with_def interface_char_def is_alnum_def
      is_digit_def trim_def utf8_extra_def is_whitespace_def code_point_def)

lemma demo_discover:
  "discover demo_sysfs (Some demo_ifaddrs) False = Inr [Endpoint ''wlan0'' 3 0xC0A80102 0]"
  using demo_name demo_eligible
  by (simp add: discover_def discover_entry_def IFF_UP_def IFF_LOOPBACK_def AF_INET_def
      demo_sysfs_def demo_ifaddrs_def usable_address_def del: list.pred_inject)

theorem discover_exact_witness:
  "{p. \<exists>e \<in> set demo_ifaddrs. usable_endpoint demo_sysfs e p} = {Endpoint ''wlan0'' 3 0xC0A80102 0}"
  using discover_exact [of demo_sysfs demo_ifaddrs "[Endpoint ''wlan0'' 3 0xC0A80102 0]"] demo_discover by simp

section \<open>The chosen port\<close>

text \<open>
  The listeners of one call stand on the given addresses, in their order, and share one port: the
  one asked for, or the one the kernel chose for the first.
\<close>

definition grants_port :: "(string option \<Rightarrow> u32 \<times> u16 \<Rightarrow> 'os \<Rightarrow> (err + 'l \<times> u16) \<times> 'os) \<Rightarrow> bool" where
  "grants_port mk \<longleftrightarrow>
     (\<forall>d a p os l q os'. mk d (a, p) os = (Inr (l, q), os') \<longrightarrow> q \<noteq> 0 \<and> (p \<noteq> 0 \<longrightarrow> q = p))"

lemma listeners_ok:
  assumes grant: "grants_port mk"
  shows "listeners mk addrs port test os = (Inr (eps, ls), os') \<Longrightarrow>
     length ls = length addrs
       \<and> (\<exists>q. (addrs \<noteq> [] \<longrightarrow> q \<noteq> 0) \<and> (port \<noteq> 0 \<longrightarrow> q = port) \<and> eps = map (ep_set_port q) addrs)"
proof (induction addrs arbitrary: port os eps ls)
  case Nil
  then show ?case by auto
next
  case (Cons a addrs)
  from Cons.prems obtain d l q os1 eps1 ls1 where
      mk: "mk d (ep_address a, port) os = (Inr (l, q), os1)"
    and rest: "listeners mk addrs q test os1 = (Inr (eps1, ls1), os')"
    and eq: "eps = ep_set_port q a # eps1" "ls = l # ls1"
    by (fastforce simp: sbind_eq_Inr_iff Let_def socket_addr_def)
  have q: "q \<noteq> 0" "port \<noteq> 0 \<Longrightarrow> q = port" using grant mk unfolding grants_port_def by blast+
  obtain q' where q': "q \<noteq> 0 \<longrightarrow> q' = q" "length ls1 = length addrs" "eps1 = map (ep_set_port q') addrs"
    using Cons.IH [OF rest] by blast
  then have "q' = q" using q(1) by blast
  with q q' eq show ?case by (intro conjI exI [of _ q]) auto
qed

text \<open>
  Whatever the listeners come from, a successful call stands on exactly the given addresses,
  in order, with one common non-zero port: the requested one if there is one, so a fixed port is
  never exchanged for another, and a random one is the same on every interface.
\<close>

theorem listeners_common_port:
  assumes "grants_port mk"
    and "listeners mk addrs port test os = (Inr (eps, ls), os')" and "addrs \<noteq> []"
  shows "\<exists>q. q \<noteq> 0 \<and> (port \<noteq> 0 \<longrightarrow> q = port) \<and> eps = map (ep_set_port q) addrs \<and> length ls = length addrs"
  using listeners_ok [OF assms(1,2)] assms(3) by blast

text \<open>A kernel that hands out 40000 when any port will do.\<close>

definition grant_40000 :: "string option \<Rightarrow> u32 \<times> u16 \<Rightarrow> nat \<Rightarrow> (err + nat \<times> u16) \<times> nat" where
  "grant_40000 d a os = (Inr (os, if snd a = 0 then 40000 else snd a), Suc os)"

theorem listeners_common_port_witness:
  "\<exists>q. q \<noteq> 0 \<and> ((0::u16) \<noteq> 0 \<longrightarrow> q = 0)
     \<and> [Endpoint ''wlan0'' 3 1 40000, Endpoint ''eth0'' 4 2 40000]
        = map (ep_set_port q) [Endpoint ''wlan0'' 3 1 0, Endpoint ''eth0'' 4 2 0]
     \<and> length [5, 6 :: nat] = length [Endpoint ''wlan0'' 3 1 0, Endpoint ''eth0'' 4 2 0]"
proof (rule listeners_common_port [of grant_40000 _ 0 False 5 _ _ 7])
  show "grants_port grant_40000"
    by (auto simp: grants_port_def grant_40000_def split: if_splits)
  show "listeners grant_40000 [Endpoint ''wlan0'' 3 1 0, Endpoint ''eth0'' 4 2 0] 0 False 5
      = (Inr ([Endpoint ''wlan0'' 3 1 40000, Endpoint ''eth0'' 4 2 40000], [5, 6]), 7)"
    by (simp add: grant_40000_def socket_addr_def ep_set_port_def Let_def)
qed simp

section \<open>Unix addresses name one socket each\<close>

lemma unix_address_ok:
  assumes "unix_address spec = Inr (b, n)"
  obtains path where "spec = ''localabstract:'' @ path" and "path \<noteq> []" and "length path \<le> 106"
      and "NUL \<notin> set path" and "b = 0 # str_bytes path @ replicate (107 - length path) 0"
      and "n = 3 + length path"
    | path where "spec = ''localfilesystem:/'' @ path" and "length path \<le> 106" and "NUL \<notin> set path"
      and "b = 47 # str_bytes path @ replicate (107 - length path) 0" and "n = 4 + length path"
proof (cases "strip_prefix ''localabstract:'' spec")
  case (Some path)
  then show thesis
    using assms that(1) [of path] by (simp add: unix_address_def SUN_PATH_def Let_def)
next
  case None
  then obtain p where p: "spec = ''localfilesystem:'' @ p" and p2: "starts_with p ''/''"
    "length p < 108" "NUL \<notin> set p" "b = str_bytes p @ replicate (108 - length p) 0" "n = 3 + length p"
    using assms by (auto simp: unix_address_def SUN_PATH_def Let_def split: option.splits)
  from p2(1) obtain path where "p = CHR ''/'' # path" by (auto simp: starts_with_iff)
  with p p2 show thesis using that(2) [of path] by (simp add: str_bytes_def)
qed

lemma str_bytes_inject [simp]: "str_bytes a = str_bytes b \<longleftrightarrow> a = b"
  by (metis bytes_str_bytes)

lemma padded_inject:
  assumes "str_bytes p @ replicate (k - length p) 0 = str_bytes q @ replicate (k - length q) 0"
    and "length p = length q"
  shows "p = q"
  using assms by simp

text \<open>
  Distinct endpoint specifications never denote the same socket address: \<open>unix_address\<close> is
  injective where it succeeds, abstract and file-system names included, and the address always
  fits \<open>sockaddr_un\<close>.
\<close>

theorem unix_address_injective:
  assumes "unix_address s = Inr (b, n)" and "unix_address t = Inr (b, n)"
  shows "s = t \<and> length b = 108 \<and> n \<le> 110"
  using assms(1)
proof (cases rule: unix_address_ok)
  case (1 path)
  with assms(2) show ?thesis
    by (cases rule: unix_address_ok) (auto dest: padded_inject)
next
  case (2 path)
  with assms(2) show ?thesis
    by (cases rule: unix_address_ok) (auto dest: padded_inject)
qed

theorem unix_address_injective_witness:
  "''localabstract:a'' = ''localabstract:a'' \<and> length (0 # 97 # replicate 106 (0::u8)) = 108 \<and> (4::nat) \<le> 110"
proof (rule unix_address_injective)
  show "unix_address ''localabstract:a'' = Inr (0 # 97 # replicate 106 0, 4)"
    by (simp add: unix_address_def SUN_PATH_def str_bytes_def Let_def)
qed (simp add: unix_address_def SUN_PATH_def str_bytes_def Let_def)

end
