(* ===== verification/Ipc.thy ===== *)
theory Ipc
  imports Crypto Network Sockets
begin

text \<open>
  \<open>src/src/unix/ipc.rs\<close>: the messages between the supervisor, the network worker and the service
  processes, and their transport over a \<open>SOCK_SEQPACKET\<close> socket with passed descriptors. The JSON
  encoding is serde's and a parameter; the kernel's results are arguments.
\<close>

section \<open>Messages\<close>

definition MAX_MESSAGE :: nat where "MAX_MESSAGE = 65536"
definition MAX_FDS :: nat where "MAX_FDS = 64"

datatype request =
    Authenticated u64 string
  | Disconnected u64
  | Spawn u64 string
  | CloseService u64 u32
  | Root u64 bool
  | PairResult u64 "string option"
  | BindReverse u64 string
  | CloseReverse u64 string

datatype message =
    Ready
  | Boot identity "host list" "endpoint list" "endpoint list" bool
  | Request u64 request
  | Reply u64 bool string
  | Hosts "host list"
  | PairStart u64 string "endpoint list"
  | PairStop
  | PairCommitted
  | Shutdown

record service_start =
  ss_name :: string
  ss_root :: bool
  ss_allow_su :: bool
  ss_test :: bool
  ss_bind :: bool

section \<open>Sending and receiving\<close>

text \<open>
  A datagram carries its bytes and its descriptors, which the kernel duplicates for the receiver.
  \<open>send\<close> checks the limits, then makes one \<open>sendmsg\<close>: the kernel takes the datagram whole, takes
  part of it, or refuses. A channel is the list of the datagrams not received yet.
\<close>

type_synonym 'fd datagram = "u8 list \<times> 'fd list"

definition cmsg_align :: "nat \<Rightarrow> nat" where
  "cmsg_align n = (n + 7) div 8 * 8"

definition CMSG_SPACE :: "nat \<Rightarrow> nat" where
  "CMSG_SPACE n = cmsg_align 16 + cmsg_align n"

definition ANCILLARY :: nat where "ANCILLARY = 8 * 128"

datatype sendmsg_result = SmTaken nat | SmError io_error

definition ipc_send ::
    "('m \<Rightarrow> u8 list option) \<Rightarrow> sendmsg_result \<Rightarrow> 'm \<Rightarrow> 'fd list \<Rightarrow> 'fd datagram list
       \<Rightarrow> (unit, 'fd datagram list) outcome" where
  "ipc_send enc taken message fds ch =
     (case enc message of
        None \<Rightarrow> (Inl (Msg ''serialization failed''), ch)
      | Some body \<Rightarrow>
          if \<not> (length body \<le> MAX_MESSAGE \<and> length fds \<le> MAX_FDS)
          then (Inl (Msg ''IPC message too large''), ch)
          else if fds \<noteq> [] \<and> \<not> CMSG_SPACE (4 * length fds) \<le> ANCILLARY
          then (Inl (Msg ''too many IPC descriptors''), ch)
          else (case taken of
              SmError e \<Rightarrow> (Inl (Io e), ch)
            | SmTaken n \<Rightarrow>
                (if n = length body then Inr () else Inl (Msg ''short IPC send''),
                 ch @ [(take n body, fds)])))"

text \<open>
  \<open>recvmsg\<close> fills a buffer of 64 KiB and 1 KiB of control data; a longer datagram is truncated
  and flagged, as are descriptors that do not fit. An empty channel is the end of file.
\<close>

definition ipc_receive ::
    "(u8 list \<Rightarrow> 'm option) \<Rightarrow> 'fd datagram list \<Rightarrow> ('m \<times> 'fd list, 'fd datagram list) outcome" where
  "ipc_receive dec ch =
     (case ch of
        [] \<Rightarrow> (Inl (Msg ''closed or truncated IPC message''), [])
      | (bytes, fds) # rest \<Rightarrow>
          let body = take MAX_MESSAGE bytes;
              trunc = MAX_MESSAGE < length bytes;
              ctrunc = fds \<noteq> [] \<and> ANCILLARY < CMSG_SPACE (4 * length fds)
          in if \<not> (body \<noteq> [] \<and> \<not> trunc \<and> \<not> ctrunc)
             then (Inl (Msg ''closed or truncated IPC message''), rest)
             else if \<not> length fds \<le> MAX_FDS then (Inl (Msg ''too many IPC descriptors''), rest)
             else (case dec body of
                 None \<Rightarrow> (Inl (Msg ''invalid JSON''), rest)
               | Some m \<Rightarrow> (Inr (m, fds), rest)))"

text \<open>\<open>peer_uid\<close>: the answer of \<open>getsockopt(SO_PEERCRED)\<close> is its return code, the length it
  reports and the credentials' uid; \<open>struct ucred\<close> has 12 bytes.\<close>

definition peer_uid :: "int \<times> nat \<times> u32 \<Rightarrow> err + u32" where
  "peer_uid r =
     (let (rc, len, uid) = r
      in rbind (ensure (rc = 0) (Msg ''cannot read peer credentials'')) (\<lambda>_.
         rbind (ensure (len = 12) (Msg ''invalid peer credentials'')) (\<lambda>_. Inr uid)))"

section \<open>What is sent is received\<close>

lemma ancillary_fits: "n \<le> MAX_FDS \<Longrightarrow> CMSG_SPACE (4 * n) \<le> ANCILLARY"
  by (auto simp: MAX_FDS_def CMSG_SPACE_def cmsg_align_def ANCILLARY_def)

lemma ipc_send_ok:
  "ipc_send enc k m fds ch = (Inr (), ch') \<longleftrightarrow>
     (\<exists>body. enc m = Some body \<and> length body \<le> MAX_MESSAGE \<and> length fds \<le> MAX_FDS
       \<and> k = SmTaken (length body) \<and> ch' = ch @ [(body, fds)])"
  using ancillary_fits [of "length fds"]
  by (auto simp: ipc_send_def split: option.splits sendmsg_result.splits)

lemma ipc_receive_first:
  assumes "dec body = Some m" and "body \<noteq> []" and "length body \<le> MAX_MESSAGE"
    and "length fds \<le> MAX_FDS"
  shows "ipc_receive dec ((body, fds) # rest) = (Inr (m, fds), rest)"
  using assms ancillary_fits [of "length fds"] by (auto simp: ipc_receive_def Let_def MAX_MESSAGE_def)

text \<open>
  The limits of the two sides fit. Messages that were all sent successfully are received in
  order, each whole and with all its descriptors, as long as the encoding can be read back and is
  never empty: no message that \<open>send\<close> accepts is refused or cut by \<open>receive\<close>.
\<close>

theorem ipc_round_trip:
  assumes "\<And>m b. enc m = Some b \<Longrightarrow> dec b = Some m \<and> b \<noteq> []"
    and "ipc_send enc k1 m1 fds1 [] = (Inr (), ch1)" and "ipc_send enc k2 m2 fds2 ch1 = (Inr (), ch2)"
  shows "\<exists>ch. ipc_receive dec ch2 = (Inr (m1, fds1), ch) \<and> ipc_receive dec ch = (Inr (m2, fds2), [])"
  using assms(2,3) assms(1) [of m1] assms(1) [of m2]
  by (auto simp: ipc_send_ok ipc_receive_first)

definition enc_byte :: "u8 \<Rightarrow> u8 list option" where
  "enc_byte m = Some [m]"

definition dec_byte :: "u8 list \<Rightarrow> u8 option" where
  "dec_byte b = (if b = [] then None else Some (hd b))"

theorem ipc_round_trip_witness:
  "\<exists>ch. ipc_receive dec_byte [([7], [3, 4 :: nat]), ([8], [])] = (Inr (7, [3, 4]), ch)
     \<and> ipc_receive dec_byte ch = (Inr (8, []), [])"
  by (rule ipc_round_trip [of enc_byte dec_byte "SmTaken 1" 7 _ "[([7], [3, 4])]" "SmTaken 1" 8])
    (auto simp: enc_byte_def dec_byte_def ipc_send_def MAX_MESSAGE_def MAX_FDS_def CMSG_SPACE_def
      cmsg_align_def ANCILLARY_def)

end
