(* ===== verification/Broker.thy ===== *)
theory Broker
  imports Ipc Ordered_Map
begin

text \<open>
  \<open>Broker\<close> of \<open>src/src/unix/worker.rs\<close>: how a transport thread asks the supervisor. A call
  registers itself, sends the request and waits for the reply at most ten seconds. What the
  supervisor does is a script of answers, one per call; a script that is used up is a supervisor
  that never answers.

  A descriptor that arrives with a reply is a stream socket or a listener, modelled by what it
  will deliver: its socket, the connections it will accept and the outcome of making it
  non-blocking.
\<close>

record desc =
  fd_sock :: sock
  fd_accept :: "sock option list"
  fd_fcntl :: "io_error option"

datatype answer =
    SendFails err
  | Answered bool string "desc list"
  | NoAnswer

record broker =
  br_next :: u64
  br_pending :: "u64 list"
  br_peers :: "(u64, string) btree"
  br_answers :: "answer list"
  br_sent :: "(u64 \<times> request) list"

definition broker_new :: "answer list \<Rightarrow> broker" where
  "broker_new a =
     \<lparr>br_next = 1, br_pending = [], br_peers = [], br_answers = a, br_sent = []\<rparr>"

text \<open>The send and the wait of a call; \<open>br_sent\<close> records what went to the supervisor.\<close>

definition broker_exchange :: "u64 \<Rightarrow> request \<Rightarrow> broker \<Rightarrow> (string \<times> desc list, broker) outcome" where
  "broker_exchange i r b =
     (let b' = b\<lparr>br_answers := tl (br_answers b), br_sent := br_sent b @ [(i, r)]\<rparr>
      in case br_answers b of
           [] \<Rightarrow> (Inl TimeoutErr, b')
         | SendFails e # _ \<Rightarrow> (Inl e, b\<lparr>br_answers := tl (br_answers b)\<rparr>)
         | NoAnswer # _ \<Rightarrow> (Inl TimeoutErr, b')
         | Answered ok message fds # _ \<Rightarrow>
             if ok then (Inr (message, fds), b') else (Inl (Msg message), b'))"

definition broker_call :: "request \<Rightarrow> broker \<Rightarrow> (string \<times> desc list, broker) outcome" where
  "broker_call request b =
     (let id = br_next b;
          b = b\<lparr>br_next := id + 1\<rparr>;
          peer = (case request of Authenticated t fp \<Rightarrow> Some (t, fp) | _ \<Rightarrow> None);
          b = (case peer of Some (t, fp) \<Rightarrow> b\<lparr>br_peers := bt_insert t fp (br_peers b)\<rparr> | None \<Rightarrow> b);
          b = (case request of Disconnected t \<Rightarrow> b\<lparr>br_peers := bt_remove t (br_peers b)\<rparr> | _ \<Rightarrow> b);
          b = b\<lparr>br_pending := br_pending b @ [id]\<rparr>;
          (result, b) = broker_exchange id request b;
          b = b\<lparr>br_pending := filter (\<lambda>i. i \<noteq> id) (br_pending b)\<rparr>;
          b = (if \<not> is_ok result then
                 (case peer of Some (t, fp) \<Rightarrow> b\<lparr>br_peers := bt_remove t (br_peers b)\<rparr> | None \<Rightarrow> b)
               else b)
      in (result, b))"

lemma broker_exchange_frame:
  "broker_exchange i r b = (res, b') \<Longrightarrow>
     br_peers b' = br_peers b \<and> br_next b' = br_next b \<and> br_pending b' = br_pending b
       \<and> (br_sent b' = br_sent b \<and> \<not> is_ok res \<or> br_sent b' = br_sent b @ [(i, r)])"
  by (auto simp: broker_exchange_def Let_def split: list.splits answer.splits if_splits)

text \<open>The requests sent so far, without their numbers.\<close>

definition requests :: "broker \<Rightarrow> request list" where
  "requests b = map snd (br_sent b)"

lemma broker_call_eq:
  "broker_call r b =
     (let b1 = b\<lparr>br_next := br_next b + 1,
                  br_peers := (case r of Authenticated t fp \<Rightarrow> bt_insert t fp (br_peers b)
                               | Disconnected t \<Rightarrow> bt_remove t (br_peers b) | _ \<Rightarrow> br_peers b),
                  br_pending := br_pending b @ [br_next b]\<rparr>;
          (result, b2) = broker_exchange (br_next b) r b1
      in (result, b2\<lparr>br_pending := filter (\<lambda>i. i \<noteq> br_next b) (br_pending b2),
                      br_peers := (case r of
                          Authenticated t fp \<Rightarrow>
                            if is_ok result then br_peers b2 else bt_remove t (br_peers b2)
                        | _ \<Rightarrow> br_peers b2)\<rparr>))"
  by (cases r) (simp_all add: broker_call_def Let_def split: prod.splits)

text \<open>Every call adds its request, or nothing when the send failed.\<close>

lemma broker_call_requests:
  "broker_call r b = (res, b') \<Longrightarrow>
     requests b' = requests b \<and> \<not> is_ok res \<or> requests b' = requests b @ [r]"
  by (auto simp: broker_call_eq Let_def requests_def split: prod.splits dest!: broker_exchange_frame)

lemma broker_call_peers_ok:
  "broker_call r b = (res, b') \<Longrightarrow> bt_ok (br_peers b) \<Longrightarrow> bt_ok (br_peers b')"
  by (cases r) (auto simp: broker_call_eq Let_def split: prod.splits dest!: broker_exchange_frame)

text \<open>
  The peer table never misses an authenticated connection and keeps no failed one. An
  \<open>Authenticated\<close> call that succeeds leaves the connection registered under its fingerprint; one
  that fails, for whatever reason, leaves it unregistered; every other connection is untouched,
  and the call itself no longer counts as pending.
\<close>

theorem broker_authenticated_peers:
  assumes "bt_ok (br_peers b)" and "broker_call (Authenticated t fp) b = (res, b')"
    and "br_next b \<notin> set (br_pending b)"
  shows "bt_get (br_peers b') = (bt_get (br_peers b))(t := (if is_ok res then Some fp else None))
    \<and> br_pending b' = br_pending b"
proof -
  let ?b = "b\<lparr>br_next := br_next b + 1, br_peers := bt_insert t fp (br_peers b),
              br_pending := br_pending b @ [br_next b]\<rparr>"
  obtain r2 b2 where x: "broker_exchange (br_next b) (Authenticated t fp) ?b = (r2, b2)" by fastforce
  have frame: "br_peers b2 = bt_insert t fp (br_peers b)" "br_pending b2 = br_pending b @ [br_next b]"
    using broker_exchange_frame [OF x] by simp_all
  have "filter (\<lambda>i. i \<noteq> br_next b) (br_pending b) = br_pending b"
    using assms(3) by (auto intro: filter_True)
  with assms x frame show ?thesis by (auto simp: broker_call_eq Let_def)
qed

theorem broker_authenticated_peers_witness:
  "bt_get (br_peers (snd (broker_call (Authenticated 5 ''f'')
        (broker_new [Answered False ''host is not paired'' []])))) = (bt_get [])(5 := None)"
  using broker_authenticated_peers [of "broker_new [Answered False ''host is not paired'' []]" 5 "''f''"
      "Inl (Msg ''host is not paired'')"
      "snd (broker_call (Authenticated 5 ''f'') (broker_new [Answered False ''host is not paired'' []]))"]
  by (simp add: broker_new_def broker_call_eq broker_exchange_def Let_def)

end
