(* ===== verification/Service_Stream.thy ===== *)
theory Service_Stream
  imports Broker
begin

text \<open>
  One service stream of an ADB connection (\<open>Source\<close>, \<open>ServiceSocket\<close> and \<open>Stream\<close> of
  \<open>src/src/unix/transport.rs\<close>): where its data comes from, the packets waiting to be written to
  the service, and the acknowledgement state.
\<close>

section \<open>Sources\<close>

text \<open>
  A source is the socket of a service with its owner (transport and service number, when the
  supervisor runs it), or the bytes a reply still delivers.
\<close>

datatype source =
    SSocket sock "(u64 \<times> u32) option"
  | SBytes "u8 list"

definition source_read :: "nat \<Rightarrow> source \<Rightarrow> (io_error + u8 list) \<times> source" where
  "source_read n src =
     (case src of
        SSocket s owner \<Rightarrow> (let (r, s') = sock_read n s in (r, SSocket s' owner))
      | SBytes b \<Rightarrow> (Inr (take n b), SBytes (drop n b)))"

definition source_write :: "u8 list \<Rightarrow> source \<Rightarrow> (io_error + nat) \<times> source" where
  "source_write b src =
     (case src of
        SSocket s owner \<Rightarrow> (let (r, s') = sock_write b s in (r, SSocket s' owner))
      | SBytes c \<Rightarrow> (Inl (IoError OtherIo None ''read-only service''), SBytes c))"

text \<open>Dropping a service socket shuts it down and tells the supervisor, ignoring the answer.\<close>

definition drop_source :: "source \<Rightarrow> broker \<Rightarrow> broker" where
  "drop_source src b =
     (case src of
        SSocket _ (Some (transport, service)) \<Rightarrow> snd (broker_call (CloseService transport service) b)
      | _ \<Rightarrow> b)"

text \<open>The bytes a source has accepted so far, and those it may still accept calls for.\<close>

definition source_sent :: "source \<Rightarrow> u8 list" where
  "source_sent src = (case src of SSocket s _ \<Rightarrow> s_sent s | SBytes _ \<Rightarrow> [])"

definition source_tx :: "source \<Rightarrow> nat" where
  "source_tx src = (case src of SSocket s _ \<Rightarrow> length (s_tx s) | SBytes _ \<Rightarrow> 0)"

lemma source_write_InrD:
  "source_write b src = (Inr n, src') \<Longrightarrow>
     n \<le> length b \<and> source_sent src' = source_sent src @ take n b \<and> source_tx src' < source_tx src"
  by (auto simp: source_write_def source_sent_def source_tx_def split: source.splits prod.splits
      dest: sock_write_InrD)

lemma source_write_InlD:
  "source_write b src = (Inl e, src') \<Longrightarrow> source_sent src' = source_sent src"
  by (auto simp: source_write_def source_sent_def split: source.splits prod.splits
      dest: sock_write_InlD)

lemma source_read_sent:
  "source_read n src = (r, src') \<Longrightarrow> source_sent src' = source_sent src"
  by (auto simp: source_read_def source_sent_def split: source.splits prod.splits
      dest: sock_read_sent)

lemma source_read_length: "source_read n src = (Inr b, src') \<Longrightarrow> length b \<le> n"
  by (auto simp: source_read_def split: source.splits prod.splits dest: sock_read_length)

section \<open>Streams\<close>

record stream =
  st_remote :: u32
  st_source :: source
  st_pending :: "u8 list list"
  st_offset :: nat
  st_waiting :: bool
  st_opening :: "instant option"
  st_closing :: "instant option"

definition PENDING_LIMIT :: nat where "PENDING_LIMIT = 64"

definition stream_enqueue :: "u8 list \<Rightarrow> stream \<Rightarrow> (unit, stream) outcome" where
  "stream_enqueue d s =
     (if length (st_pending s) < PENDING_LIMIT
      then (Inr (), s\<lparr>st_pending := st_pending s @ [d]\<rparr>)
      else (Inl (Msg ''stream pending packet limit''), s))"

text \<open>
  The loop of \<open>flush_pending\<close> over the source, the queue and the offset into its first packet;
  \<open>work\<close> tells whether anything was written. A write that would block ends it without an error.
\<close>

function flush_pending_loop ::
    "bool \<Rightarrow> source \<Rightarrow> u8 list list \<Rightarrow> nat \<Rightarrow> (io_error + bool) \<times> source \<times> u8 list list \<times> nat" where
  "flush_pending_loop work src [] off = (Inr work, src, [], off)"
| "flush_pending_loop work src (d # ds) off =
     (case source_write (drop off d) src of
        (Inr n, src') \<Rightarrow>
          if n = 0 then (Inl (IoError WriteZero None ''write zero''), src', d # ds, off)
          else if off + n = length d then flush_pending_loop True src' ds 0
          else flush_pending_loop True src' (d # ds) (off + n)
      | (Inl e, src') \<Rightarrow>
          if io_kind_of e = WouldBlock then (Inr work, src', d # ds, off)
          else (Inl e, src', d # ds, off))"
  by pat_completeness auto
termination
  by (relation "measure (\<lambda>(work, src, ds, off). source_tx src)")
    (auto dest!: source_write_InrD [OF sym])

definition stream_flush_pending :: "stream \<Rightarrow> (io_error + bool) \<times> stream" where
  "stream_flush_pending s =
     (let (r, src, ds, off) = flush_pending_loop False (st_source s) (st_pending s) (st_offset s)
      in (r, s\<lparr>st_source := src, st_pending := ds, st_offset := off\<rparr>))"

section \<open>The state of a queue\<close>

text \<open>
  What is still to be delivered: the queued packets without the part of the first one that has
  been written. A stream is sound when its queue is within the limit, no packet is empty or above
  the payload limit, and the offset lies inside the first packet.
\<close>

definition undelivered :: "u8 list list \<Rightarrow> nat \<Rightarrow> u8 list" where
  "undelivered ds off = drop off (concat ds)"

definition queue_ok :: "u8 list list \<Rightarrow> nat \<Rightarrow> bool" where
  "queue_ok ds off \<longleftrightarrow>
     [] \<notin> set ds \<and> (if ds = [] then off = 0 else off < length (hd ds))"

definition stream_ok :: "stream \<Rightarrow> bool" where
  "stream_ok s \<longleftrightarrow>
     queue_ok (st_pending s) (st_offset s) \<and> length (st_pending s) \<le> PENDING_LIMIT"

definition stream_pending_bytes :: "stream \<Rightarrow> nat" where
  "stream_pending_bytes s = sum_list (map length (st_pending s))"

definition stream_delivered :: "stream \<Rightarrow> u8 list" where
  "stream_delivered s = source_sent (st_source s)"

definition stream_todo :: "stream \<Rightarrow> u8 list" where
  "stream_todo s = undelivered (st_pending s) (st_offset s)"

lemma queue_ok_le: "queue_ok ds off \<Longrightarrow> off \<le> length (concat ds)"
  by (cases ds) (auto simp: queue_ok_def)

lemma queue_ok_tl: "queue_ok (d # ds) off \<Longrightarrow> queue_ok ds 0"
  by (cases ds) (auto simp: queue_ok_def)

lemma undelivered_step:
  assumes "queue_ok (d # ds) off" and "n \<le> length (drop off d)"
  shows "undelivered (d # ds) off = take n (drop off d) @ undelivered (d # ds) (off + n)"
proof -
  have "drop off d = take n (drop off d) @ drop (off + n) d"
    using append_take_drop_id [of n "drop off d"] by (simp add: add.commute)
  moreover have "off + n \<le> length d" "off \<le> length d"
    using assms by (auto simp: queue_ok_def)
  ultimately show ?thesis by (simp add: undelivered_def)
qed

lemma flush_pending_loop_work: "flush_pending_loop True s q k \<noteq> (Inr False, x)"
proof (induction True s q k rule: flush_pending_loop.induct)
  case (2 src d ds off)
  then show ?case
    by (cases "source_write (drop off d) src"; cases "fst (source_write (drop off d) src)") auto
qed simp

text \<open>What a single write keeps of the source, the loop keeps.\<close>

lemma flush_pending_loop_keeps:
  assumes "flush_pending_loop work src ds off = (r, src', ds', off')"
    and "\<And>b src r src'. source_write b src = (r, src') \<Longrightarrow> f src' = f src"
  shows "f src' = f src"
  using assms(1)
proof (induction work src ds off arbitrary: r rule: flush_pending_loop.induct)
  case (2 work src d ds off)
  obtain a src1 where s: "source_write (drop off d) src = (a, src1)" by fastforce
  note same = assms(2) [OF s]
  show ?case
  proof (cases a)
    case (Inl e)
    with "2.prems" s same show ?thesis by (auto split: if_splits)
  next
    case (Inr n)
    consider "n = 0" | "n \<noteq> 0" "off + n = length d" | "n \<noteq> 0" "off + n \<noteq> length d" by blast
    then show ?thesis
    proof cases
      case 1
      with "2.prems" s same Inr show ?thesis by auto
    next
      case 2
      with "2.prems" "2.IH"(1) [OF s [symmetric] Inr] s same Inr show ?thesis by simp
    next
      case 3
      with "2.prems" "2.IH"(2) [OF s [symmetric] Inr] s same Inr show ?thesis by simp
    qed
  qed
qed simp

lemma flush_pending_loop_ok:
  "flush_pending_loop work src ds off = (r, src', ds', off') \<Longrightarrow> queue_ok ds off \<Longrightarrow>
     queue_ok ds' off' \<and> length ds' \<le> length ds
       \<and> sum_list (map length ds') \<le> sum_list (map length ds)
       \<and> source_sent src' @ undelivered ds' off' = source_sent src @ undelivered ds off
       \<and> (r = Inr False \<longrightarrow> ds' = ds \<and> off' = off)"
proof (induction work src ds off arbitrary: r rule: flush_pending_loop.induct)
  case (1 work src off)
  then show ?case by (auto simp: queue_ok_def)
next
  case (2 work src d ds off)
  obtain a src1 where w: "source_write (drop off d) src = (a, src1)" by fastforce
  show ?case
  proof (cases a)
    case (Inl e)
    with 2 w source_write_InlD [of "drop off d" src e src1] show ?thesis
      by (auto split: if_splits)
  next
    case (Inr n)
    note wr = source_write_InrD [OF w [unfolded Inr]]
    have step: "source_sent src @ undelivered (d # ds) off
        = source_sent src1 @ undelivered (d # ds) (off + n)"
      using undelivered_step [OF "2.prems"(2), of n] wr by simp
    note work = flush_pending_loop_work
    consider "n = 0" | "n \<noteq> 0" "off + n = length d" | "n \<noteq> 0" "off + n < length d"
      using wr by fastforce
    then show ?thesis
    proof cases
      case 1
      with "2.prems" w Inr wr show ?thesis by auto
    next
      case 2
      have f: "flush_pending_loop True src1 ds 0 = (r, src', ds', off')"
        using "2.prems"(1) w Inr 2 by simp
      have "undelivered (d # ds) (off + n) = undelivered ds 0"
        using 2 by (simp add: undelivered_def)
      with f step show ?thesis
        using "2.IH"(1) [OF w [symmetric] Inr _ _ f queue_ok_tl [OF "2.prems"(2)]] 2 work [of src1 ds 0]
        by auto
    next
      case 3
      have f: "flush_pending_loop True src1 (d # ds) (off + n) = (r, src', ds', off')"
        using "2.prems"(1) w Inr 3 by simp
      have "queue_ok (d # ds) (off + n)" using "2.prems"(2) 3 by (auto simp: queue_ok_def)
      with f step show ?thesis
        using "2.IH"(2) [OF w [symmetric] Inr _ _ f] 3 work [of src1 "d # ds" "off + n"] by auto
    qed
  qed
qed

lemma stream_flush_pending_ok:
  assumes "stream_flush_pending s = (r, s')" and "stream_ok s"
  shows "stream_ok s'" and "stream_pending_bytes s' \<le> stream_pending_bytes s"
    and "stream_delivered s' @ stream_todo s' = stream_delivered s @ stream_todo s"
    and "s' = s\<lparr>st_source := st_source s', st_pending := st_pending s', st_offset := st_offset s'\<rparr>"
    and "length (st_pending s') \<le> length (st_pending s)"
  using assms flush_pending_loop_ok [of False "st_source s" "st_pending s" "st_offset s"]
  by (auto simp: stream_flush_pending_def stream_ok_def stream_pending_bytes_def stream_delivered_def
      stream_todo_def split: prod.splits)

lemma stream_enqueue_ok:
  assumes "stream_enqueue d s = (r, s')" and "stream_ok s" and "d \<noteq> []"
  shows "stream_ok s'"
    and "stream_pending_bytes s' = stream_pending_bytes s + (if is_ok r then length d else 0)"
    and "stream_todo s' = stream_todo s @ (if is_ok r then d else [])"
    and "stream_delivered s' = stream_delivered s"
  using assms queue_ok_le [of "st_pending s" "st_offset s"]
  by (auto simp: stream_enqueue_def stream_ok_def queue_ok_def stream_pending_bytes_def
      stream_todo_def undelivered_def stream_delivered_def split: if_splits)

text \<open>
  A service receives exactly what the host wrote, in order. Whatever the service socket
  does, flushing a sound stream leaves it sound, and the bytes delivered so far followed by those
  still queued stay the same: nothing is lost, repeated or reordered by partial writes.
\<close>

theorem flush_pending_conserves:
  assumes "stream_ok s" and "stream_flush_pending s = (r, s')"
  shows "stream_ok s' \<and> stream_delivered s' @ stream_todo s' = stream_delivered s @ stream_todo s"
  using stream_flush_pending_ok [OF assms(2,1)] by blast

definition demo_stream :: "u8 list list \<Rightarrow> tx_event list \<Rightarrow> stream" where
  "demo_stream ds tx =
     \<lparr>st_remote = 1, st_source = SSocket (sock_new [] tx) None, st_pending = ds, st_offset = 0,
      st_waiting = False, st_opening = None, st_closing = None\<rparr>"

theorem flush_pending_conserves_witness:
  "\<exists>s'. stream_flush_pending (demo_stream [[1, 2, 3], [4]] [TAccept 2]) = (Inr True, s')
     \<and> stream_delivered s' = [1, 2] \<and> stream_delivered s' @ stream_todo s' = [1, 2, 3, 4]"
proof -
  obtain r s' where f: "stream_flush_pending (demo_stream [[1, 2, 3], [4]] [TAccept 2]) = (r, s')"
    by fastforce
  have "stream_ok (demo_stream [[1, 2, 3], [4]] [TAccept 2])"
    by (simp add: stream_ok_def demo_stream_def queue_ok_def PENDING_LIMIT_def)
  from flush_pending_conserves [OF this f]
  have "stream_delivered s' @ stream_todo s' = [1, 2, 3, 4]"
    by (simp add: demo_stream_def stream_delivered_def stream_todo_def undelivered_def
        source_sent_def sock_new_def)
  with f show ?thesis
    by (auto simp: stream_flush_pending_def demo_stream_def source_write_def sock_write_def
        sock_new_def stream_delivered_def source_sent_def)
qed

end
