(* ===== verification/Transport.thy ===== *)
theory Transport
  imports Service_Stream Tls
begin

text \<open>
  One authenticated ADB connection (\<open>Connection\<close> of \<open>src/src/unix/transport.rs\<close>): parsing the
  packets of the host, opening and closing streams, moving data between the host and the
  services under the acknowledgement discipline of the protocol, and reverse forwarding. The TLS
  object is a byte sink; the supervisor is the scripted broker. Handlers that read the clock take
  the reading as the argument \<open>now\<close>.
\<close>

section \<open>State\<close>

record reverse =
  rv_listener :: desc
  rv_target :: string

record 'o connection =
  cn_tls :: 'o
  cn_broker :: broker
  cn_transport :: u64
  cn_max :: nat
  cn_streams :: "(u32, stream) btree"
  cn_reverse :: "(string, reverse) btree"
  cn_next :: u32
  cn_input :: "u8 list"

definition STREAM_INPUT_LIMIT :: nat where "STREAM_INPUT_LIMIT = 8 * 1024 * 1024"
definition REVERSE_LIMIT :: nat where "REVERSE_LIMIT = 16"

section \<open>Sending packets\<close>

definition write_packet :: "'o sink \<Rightarrow> packet \<Rightarrow> 'o connection \<Rightarrow> (unit, 'o connection) outcome" where
  "write_packet sk p c =
     (case packet_write p False of
        Inl e \<Rightarrow> (Inl e, c)
      | Inr b \<Rightarrow> (let (r, o') = sk_put sk b (cn_tls c) in (r, c\<lparr>cn_tls := o'\<rparr>)))"

definition conn_packet ::
    "'o sink \<Rightarrow> u32 \<Rightarrow> u32 \<Rightarrow> u32 \<Rightarrow> u8 list \<Rightarrow> 'o connection \<Rightarrow> (unit, 'o connection) outcome" where
  "conn_packet sk command a b data c = write_packet sk (packet_new command a b data) c"

definition conn_call :: "request \<Rightarrow> 'o connection \<Rightarrow> (string \<times> desc list, 'o connection) outcome" where
  "conn_call r c = (let (x, b) = broker_call r (cn_broker c) in (x, c\<lparr>cn_broker := b\<rparr>))"

section \<open>Stream numbers\<close>

definition conn_allocate :: "'o connection \<Rightarrow> (u32, 'o connection) outcome" where
  "conn_allocate c =
     (if \<not> length (cn_streams c) < MAX_STREAMS then (Inl (Msg ''stream limit reached''), c)
      else if cn_next c = - 1 then (Inl (Msg ''stream IDs exhausted''), c)
      else (Inr (cn_next c), c\<lparr>cn_next := cn_next c + 1\<rparr>))"

definition new_stream :: "u32 \<Rightarrow> source \<Rightarrow> instant option \<Rightarrow> stream" where
  "new_stream remote src opening =
     \<lparr>st_remote = remote, st_source = src, st_pending = [], st_offset = 0, st_waiting = False,
      st_opening = opening, st_closing = None\<rparr>"

definition insert_stream :: "u32 \<Rightarrow> stream \<Rightarrow> 'o connection \<Rightarrow> 'o connection" where
  "insert_stream i s c = c\<lparr>cn_streams := bt_insert i s (cn_streams c)\<rparr>"

definition update_stream :: "u32 \<Rightarrow> stream \<Rightarrow> 'o connection \<Rightarrow> 'o connection" where
  "update_stream i s c = c\<lparr>cn_streams := bt_update i s (cn_streams c)\<rparr>"

section \<open>Reverse forwarding commands\<close>

definition remove_reverse :: "string \<Rightarrow> 'o connection \<Rightarrow> (unit, 'o connection) outcome" where
  "remove_reverse spec c =
     (if bt_contains (cn_reverse c) spec then
        sbind (conn_call (CloseReverse (cn_transport c) spec)
            (c\<lparr>cn_reverse := bt_remove spec (cn_reverse c)\<rparr>)) (\<lambda>_ c. (Inr (), c))
      else (Inl (Msg ''reverse listener not found''), c))"

fun remove_reverses :: "string list \<Rightarrow> 'o connection \<Rightarrow> (unit, 'o connection) outcome" where
  "remove_reverses [] c = (Inr (), c)"
| "remove_reverses (k # ks) c = sbind (remove_reverse k c) (\<lambda>_ c. remove_reverses ks c)"

definition reverse_list :: "(string, reverse) btree \<Rightarrow> string" where
  "reverse_list rs =
     concat (map (\<lambda>(local, r). ''altdb '' @ local @ '' '' @ rv_target r @ [CHR 0x0A]) rs)"

definition bind_reverse :: "string \<Rightarrow> string \<Rightarrow> 'o connection \<Rightarrow> (u8 list, 'o connection) outcome" where
  "bind_reverse local remote c =
     (if \<not> length (cn_reverse c) < REVERSE_LIMIT
      then (Inl (Msg ''reverse listener limit reached''), c)
      else sbind (conn_call (BindReverse (cn_transport c) local) c) (\<lambda>(actual, fds) c.
        case fds of
          [fd] \<Rightarrow>
            (case fd_fcntl fd of
               Some e \<Rightarrow> (Inl (Io e), c)
             | None \<Rightarrow>
                 (Inr (case strip_prefix ''tcp:'' actual of
                     Some port \<Rightarrow> str_bytes (''OKAY'' @ show_hex4 (length port) @ port)
                   | None \<Rightarrow> str_bytes ''OKAY''),
                  c\<lparr>cn_reverse := bt_insert actual \<lparr>rv_listener = fd, rv_target = remote\<rparr>
                      (cn_reverse c)\<rparr>))
        | _ \<Rightarrow> (Inl (Msg ''reverse listener missing''), c)))"

definition reverse_forward :: "string \<Rightarrow> 'o connection \<Rightarrow> (u8 list, 'o connection) outcome" where
  "reverse_forward command c =
     (let (no_rebind, command) =
            (case strip_prefix ''norebind:'' command of Some d \<Rightarrow> (True, d) | None \<Rightarrow> (False, command))
      in case split_once (CHR '';'') command of
           None \<Rightarrow> (Inl (Msg ''invalid reverse specification''), c)
         | Some (local, remote) \<Rightarrow>
             (case rbind (validate_endpoint local True) (\<lambda>_. validate_endpoint remote False) of
                Inl e \<Rightarrow> (Inl e, c)
              | Inr _ \<Rightarrow>
                  sbind (if bt_contains (cn_reverse c) local then
                           if no_rebind then (Inl (Msg ''reverse listener already exists''), c)
                           else remove_reverse local c
                         else (Inr (), c)) (\<lambda>_ c. bind_reverse local remote c)))"

definition reverse_command :: "string \<Rightarrow> 'o connection \<Rightarrow> (u8 list, 'o connection) outcome" where
  "reverse_command command c =
     (if command = ''list-forward'' then
        let l = reverse_list (cn_reverse c) in (Inr (str_bytes (show_hex4 (length l) @ l)), c)
      else if command = ''killforward-all'' then
        sbind (remove_reverses (bt_keys (cn_reverse c)) c) (\<lambda>_ c. (Inr (str_bytes ''OKAY''), c))
      else case strip_prefix ''killforward:'' command of
        Some spec \<Rightarrow> sbind (remove_reverse spec c) (\<lambda>_ c. (Inr (str_bytes ''OKAY''), c))
      | None \<Rightarrow>
          (case strip_prefix ''forward:'' command of
             None \<Rightarrow> (Inl (Msg ''unsupported reverse command''), c)
           | Some command \<Rightarrow> reverse_forward command c))"

section \<open>Opening a service\<close>

definition service_name :: "u8 list \<Rightarrow> err + string" where
  "service_name data =
     rbind (ensure (data \<noteq> [] \<and> length data \<le> 4096 \<and> last data = 0) (Msg ''invalid service name'')) (\<lambda>_.
     rbind (from_utf8 (butlast data)) (\<lambda>name.
     rbind (ensure (NUL \<notin> set name) (Msg ''invalid service name'')) (\<lambda>_. Inr name)))"

definition reverse_rejected :: "u8 list" where
  "reverse_rejected =
     (let m = ''reverse operation rejected'' in str_bytes (''FAIL'' @ show_hex4 (length m) @ m))"

definition service_socket :: "u64 \<Rightarrow> string \<Rightarrow> desc list \<Rightarrow> err + source" where
  "service_socket transport i fds =
     (case fds of
        [fd] \<Rightarrow>
          (case fd_fcntl fd of
             Some e \<Rightarrow> Inl (Io e)
           | None \<Rightarrow> rbind (parse_u32 i) (\<lambda>n. Inr (SSocket (fd_sock fd) (Some (transport, n)))))
      | _ \<Rightarrow> Inl (Msg ''service descriptor unavailable''))"

definition conn_open :: "u8 list \<Rightarrow> 'o connection \<Rightarrow> (source, 'o connection) outcome" where
  "conn_open data c =
     (case service_name data of
        Inl e \<Rightarrow> (Inl e, c)
      | Inr name \<Rightarrow>
          if name = ''root:'' \<or> name = ''unroot:'' then
            (let (r, c) = conn_call (Root (cn_transport c) (name = ''root:'')) c;
                 message = (case r of Inr (m, _) \<Rightarrow> m
                            | Inl e \<Rightarrow> ''altdb: '' @ err_text e @ [CHR 0x0A])
             in (Inr (SBytes (str_bytes message)), c))
          else case strip_prefix ''reverse:'' name of
            Some command \<Rightarrow>
              (let (r, c) = reverse_command command c
               in (Inr (SBytes (case r of Inr body \<Rightarrow> body | Inl _ \<Rightarrow> reverse_rejected)), c))
          | None \<Rightarrow>
              sbind (conn_call (Spawn (cn_transport c) name) c) (\<lambda>(i, fds) c.
                (service_socket (cn_transport c) i fds, c)))"

section \<open>Handling a packet\<close>

definition drop_in :: "source \<Rightarrow> 'o connection \<Rightarrow> 'o connection" where
  "drop_in src c = c\<lparr>cn_broker := drop_source src (cn_broker c)\<rparr>"

definition handle_open :: "'o sink \<Rightarrow> packet \<Rightarrow> 'o connection \<Rightarrow> (unit, 'o connection) outcome" where
  "handle_open sk p c =
     (if \<not> (p_arg0 p \<noteq> 0 \<and> p_arg1 p = 0) then (Inl (Msg ''invalid OPEN IDs''), c)
      else if list_ex (\<lambda>s. st_remote s = p_arg0 p) (bt_values (cn_streams c))
      then (Inl (Msg ''duplicate remote stream ID''), c)
      else if MAX_STREAMS \<le> length (cn_streams c) then conn_packet sk CLSE 0 (p_arg0 p) [] c
      else case conn_open (p_data p) c of
        (Inr src, c) \<Rightarrow>
          (case conn_allocate c of
             (Inl e, c) \<Rightarrow> (Inl e, drop_in src c)
           | (Inr i, c) \<Rightarrow>
               conn_packet sk OKAY i (p_arg0 p) [] (insert_stream i (new_stream (p_arg0 p) src None) c))
      | (Inl _, c) \<Rightarrow> conn_packet sk CLSE 0 (p_arg0 p) [] c)"

text \<open>\<open>opening.take()\<close> clears the field even when the check that follows fails.\<close>

definition handle_okay :: "packet \<Rightarrow> 'o connection \<Rightarrow> (unit, 'o connection) outcome" where
  "handle_okay p c =
     (case bt_get (cn_streams c) (p_arg1 p) of
        None \<Rightarrow> (Inr (), c)
      | Some s \<Rightarrow>
          if \<not> (p_data p = [] \<and> p_arg0 p \<noteq> 0) then (Inl (Msg ''invalid acknowledgement''), c)
          else if st_opening s \<noteq> None then
            let s = s\<lparr>st_opening := None\<rparr>
            in if st_remote s \<noteq> 0
               then (Inl (Msg ''unexpected open acknowledgement''), update_stream (p_arg1 p) s c)
               else (Inr (), update_stream (p_arg1 p) (s\<lparr>st_remote := p_arg0 p\<rparr>) c)
          else if \<not> (st_remote s = p_arg0 p \<and> st_waiting s)
          then (Inl (Msg ''unexpected acknowledgement''), c)
          else (Inr (), update_stream (p_arg1 p) (s\<lparr>st_waiting := False\<rparr>) c))"

definition pending_bytes :: "(u32, stream) btree \<Rightarrow> nat" where
  "pending_bytes m = sum_list (map stream_pending_bytes (bt_values m))"

definition handle_write :: "'o sink \<Rightarrow> packet \<Rightarrow> 'o connection \<Rightarrow> (unit, 'o connection) outcome" where
  "handle_write sk p c =
     (if \<not> pending_bytes (cn_streams c) + length (p_data p) \<le> STREAM_INPUT_LIMIT
      then (Inl (Msg ''stream input queue limit''), c)
      else case bt_get (cn_streams c) (p_arg1 p) of
        Some s \<Rightarrow>
          if \<not> (st_remote s = p_arg0 p \<and> st_opening s = None \<and> st_closing s = None)
          then (Inl (Msg ''invalid stream write ordering''), c)
          else if p_data p = [] then conn_packet sk OKAY (p_arg1 p) (p_arg0 p) [] c
          else (let (r, s) = stream_enqueue (p_data p) s in (r, update_stream (p_arg1 p) s c))
      | None \<Rightarrow> conn_packet sk CLSE (p_arg1 p) (p_arg0 p) [] c)"

definition handle_close :: "instant \<Rightarrow> packet \<Rightarrow> 'o connection \<Rightarrow> (unit, 'o connection) outcome" where
  "handle_close now p c =
     (case bt_get (cn_streams c) (p_arg1 p) of
        None \<Rightarrow> (Inr (), c)
      | Some s \<Rightarrow>
          if \<not> (p_arg0 p = st_remote s \<or> st_opening s \<noteq> None \<and> p_arg0 p = 0)
          then (Inl (Msg ''invalid close ID''), c)
          else (Inr (), update_stream (p_arg1 p) (s\<lparr>st_closing := Some now\<rparr>) c))"

definition conn_handle :: "'o sink \<Rightarrow> instant \<Rightarrow> packet \<Rightarrow> 'o connection \<Rightarrow> (unit, 'o connection) outcome" where
  "conn_handle sk now p c =
     (if p_command p = OPEN then handle_open sk p c
      else if p_command p = OKAY then handle_okay p c
      else if p_command p = WRTE then handle_write sk p c
      else if p_command p = CLSE then handle_close now p c
      else (Inl (Msg ''unsupported ADB command after authentication''), c))"

section \<open>Parsing the input queue\<close>

text \<open>
  One turn of \<open>parse\<close>: nothing to do yet, a failure, or a packet taken off the queue. Every packet
  takes 24 bytes at least, which bounds the loop.
\<close>

datatype parsed = Wait | Bad err | Got packet "u8 list"

definition next_packet :: "nat \<Rightarrow> u8 list \<Rightarrow> parsed" where
  "next_packet limit input =
     (if length input < 24 then Wait
      else
        let len = unat (from_le32 (take 4 (drop 12 input)))
        in if \<not> len \<le> limit then Bad (Msg ''ADB packet exceeds negotiated limit'')
           else if length input < 24 + len then Wait
           else (case packet_read (take (24 + len) input) limit False of
               Inl e \<Rightarrow> Bad e
             | Inr (p, _) \<Rightarrow> Got p (drop (24 + len) input)))"

lemma next_packet_progress: "next_packet m i = Got p r \<Longrightarrow> length r < length i"
  by (auto simp: next_packet_def Let_def split: if_splits sum.splits)

text \<open>\<open>parse\<close> never touches the queue except to take the packet off, so the loop passes it along.\<close>

function parse_loop ::
    "'o sink \<Rightarrow> instant \<Rightarrow> u8 list \<Rightarrow> 'o connection \<Rightarrow> (unit, 'o connection) outcome" where
  "parse_loop sk now input c =
     (case next_packet (cn_max c) input of
        Wait \<Rightarrow> (Inr (), c\<lparr>cn_input := input\<rparr>)
      | Bad e \<Rightarrow> (Inl e, c\<lparr>cn_input := input\<rparr>)
      | Got p rest \<Rightarrow>
          sbind (conn_handle sk now p (c\<lparr>cn_input := rest\<rparr>)) (\<lambda>_ c. parse_loop sk now rest c))"
  by pat_completeness auto
termination
  by (relation "measure (\<lambda>(sk, now, input, c). length input)") (auto dest: next_packet_progress)

declare parse_loop.simps [simp del]

definition conn_parse :: "'o sink \<Rightarrow> instant \<Rightarrow> 'o connection \<Rightarrow> (unit, 'o connection) outcome" where
  "conn_parse sk now c = parse_loop sk now (cn_input c) c"

section \<open>Moving data\<close>

text \<open>
  What \<open>services\<close> does with one stream: the stream afterwards, the packets to send for it, whether
  it is to be closed, and whether there was work. \<open>queued\<close> is the ciphertext waiting in the TLS
  object, which the loop does not change.
\<close>

definition SOFT_QUEUE :: nat where "SOFT_QUEUE = 4 * 1024 * 1024"

definition service_read ::
    "nat \<Rightarrow> u32 \<Rightarrow> stream \<Rightarrow> stream \<times> packet list \<times> bool \<times> bool" where
  "service_read chunk i s =
     (let (r, src) = source_read chunk (st_source s);
          s = s\<lparr>st_source := src\<rparr>
      in case r of
           Inr [] \<Rightarrow> (s, [], True, False)
         | Inr data \<Rightarrow> (s\<lparr>st_waiting := True\<rparr>, [packet_new WRTE i (st_remote s) data], False, True)
         | Inl e \<Rightarrow> (s, [], io_kind_of e \<noteq> WouldBlock, False))"

definition service_stream ::
    "nat \<Rightarrow> nat \<Rightarrow> instant \<Rightarrow> u32 \<Rightarrow> stream \<Rightarrow> stream \<times> packet list \<times> bool \<times> bool" where
  "service_stream max_payload queued now i s =
     (if (case st_opening s of Some t \<Rightarrow> secs 10 < now - t | None \<Rightarrow> False) then (s, [], True, False)
      else
        let had_pending = st_pending s \<noteq> [];
            (r, s) = stream_flush_pending s
        in case r of
             Inl _ \<Rightarrow> (s, [], True, False)
           | Inr progress \<Rightarrow>
               let acks = (if had_pending \<and> st_pending s = [] \<and> st_closing s = None
                           then [packet_new OKAY i (st_remote s) []] else [])
               in case st_closing s of
                    Some t \<Rightarrow> (s, acks, st_pending s = [] \<or> secs 1 < now - t, progress)
                  | None \<Rightarrow>
                      if st_opening s = None \<and> \<not> st_waiting s \<and> queued < SOFT_QUEUE then
                        let (s, ws, closed, work) = service_read (min max_payload CHUNK) i s
                        in (s, acks @ ws, closed, progress \<or> work)
                      else (s, acks, False, progress))"

fun service_streams ::
    "nat \<Rightarrow> nat \<Rightarrow> instant \<Rightarrow> (u32, stream) btree \<Rightarrow> (u32, stream) btree \<times> packet list \<times> u32 list \<times> bool" where
  "service_streams mx queued now [] = ([], [], [], False)"
| "service_streams mx queued now ((i, s) # m) =
     (let (s, ps, closed, work) = service_stream mx queued now i s;
          (m, qs, ids, rest) = service_streams mx queued now m
      in ((i, s) # m, ps @ qs, (if closed then i # ids else ids), work \<or> rest))"

fun write_packets :: "'o sink \<Rightarrow> packet list \<Rightarrow> 'o connection \<Rightarrow> (unit, 'o connection) outcome" where
  "write_packets sk [] c = (Inr (), c)"
| "write_packets sk (p # ps) c = sbind (write_packet sk p c) (\<lambda>_ c. write_packets sk ps c)"

text \<open>Closing removes the stream, sends CLSE and drops the source whether or not the send worked.\<close>

fun close_streams :: "'o sink \<Rightarrow> u32 list \<Rightarrow> bool \<Rightarrow> 'o connection \<Rightarrow> (bool, 'o connection) outcome" where
  "close_streams sk [] work c = (Inr work, c)"
| "close_streams sk (i # is) work c =
     (case bt_get (cn_streams c) i of
        None \<Rightarrow> close_streams sk is work c
      | Some s \<Rightarrow>
          (let (r, c) = conn_packet sk CLSE i (st_remote s) []
                 (c\<lparr>cn_streams := bt_remove i (cn_streams c)\<rparr>);
               c = drop_in (st_source s) c
           in case r of Inl e \<Rightarrow> (Inl e, c) | Inr _ \<Rightarrow> close_streams sk is True c))"

definition conn_services :: "'o sink \<Rightarrow> instant \<Rightarrow> 'o connection \<Rightarrow> (bool, 'o connection) outcome" where
  "conn_services sk now c =
     (let (m, events, closed, work) =
            service_streams (cn_max c) (sk_queued sk (cn_tls c)) now (cn_streams c)
      in sbind (write_packets sk events (c\<lparr>cn_streams := m\<rparr>)) (\<lambda>_ c. close_streams sk closed work c))"

section \<open>Reverse connections\<close>

text \<open>\<open>accept4\<close> on every listener, in key order: the script of a listener tells what it has.\<close>

definition accept_one :: "reverse \<Rightarrow> sock option \<times> reverse" where
  "accept_one r =
     (case fd_accept (rv_listener r) of
        [] \<Rightarrow> (None, r)
      | a # as \<Rightarrow> (a, r\<lparr>rv_listener := (rv_listener r)\<lparr>fd_accept := as\<rparr>\<rparr>))"

fun accept_all :: "(string, reverse) btree \<Rightarrow> (string, reverse) btree \<times> (sock \<times> string) list" where
  "accept_all [] = ([], [])"
| "accept_all ((k, r) # m) =
     (let (a, r') = accept_one r; (m', socks) = accept_all m
      in ((k, r') # m', (case a of None \<Rightarrow> socks | Some s \<Rightarrow> (s, rv_target r) # socks)))"

fun open_reverses ::
    "'o sink \<Rightarrow> instant \<Rightarrow> (sock \<times> string) list \<Rightarrow> 'o connection \<Rightarrow> (unit, 'o connection) outcome" where
  "open_reverses sk now [] c = (Inr (), c)"
| "open_reverses sk now ((s, target) # socks) c =
     (if MAX_STREAMS \<le> length (cn_streams c) then (Inr (), c)
      else sbind (conn_allocate c) (\<lambda>i c.
           sbind (conn_packet sk OPEN i 0 (str_bytes (target @ [NUL]))
               (insert_stream i (new_stream 0 (SSocket s None) (Some now)) c)) (\<lambda>_ c.
             open_reverses sk now socks c)))"

definition reverse_accept :: "'o sink \<Rightarrow> instant \<Rightarrow> 'o connection \<Rightarrow> (bool, 'o connection) outcome" where
  "reverse_accept sk now c =
     (if MAX_STREAMS \<le> length (cn_streams c) then (Inr False, c)
      else
        let (rs, socks) = accept_all (cn_reverse c)
        in sbind (open_reverses sk now socks (c\<lparr>cn_reverse := rs\<rparr>)) (\<lambda>_ c. (Inr (socks \<noteq> []), c)))"

section \<open>Waiting\<close>

text \<open>The descriptors \<open>wait_for_io\<close> polls, with whether for input and for output.\<close>

datatype poll_target = PollTls | PollStream u32 | PollReverse string

definition stream_events :: "nat \<Rightarrow> stream \<Rightarrow> bool \<times> bool" where
  "stream_events queued s =
     (st_opening s = None \<and> st_closing s = None \<and> \<not> st_waiting s \<and> queued < SOFT_QUEUE,
      st_pending s \<noteq> [])"

definition is_socket :: "source \<Rightarrow> bool" where
  "is_socket src = (case src of SSocket _ _ \<Rightarrow> True | SBytes _ \<Rightarrow> False)"

definition poll_set :: "'o sink \<Rightarrow> 'o connection \<Rightarrow> (poll_target \<times> bool \<times> bool) list" where
  "poll_set sk c =
     (let queued = sk_queued sk (cn_tls c)
      in (PollTls, True, queued > 0)
         # map (\<lambda>(i, s). (PollStream i, stream_events queued s))
             (filter (\<lambda>(i, s). is_socket (st_source s) \<and> stream_events queued s \<noteq> (False, False))
               (cn_streams c))
         @ (if length (cn_streams c) < MAX_STREAMS
            then map (\<lambda>(k, r). (PollReverse k, True, False)) (cn_reverse c) else []))"

definition wait_for_io :: "io_error option \<Rightarrow> io_error + unit" where
  "wait_for_io polled =
     (case polled of
        Some e \<Rightarrow> if io_kind_of e \<noteq> Interrupted then Inl e else Inr ()
      | None \<Rightarrow> Inr ())"

section \<open>The session\<close>

text \<open>
  The plaintext exchange before TLS. \<open>rx\<close> is what the socket delivers in time; \<open>send\<close> is the
  outcome of writing bytes to it. The result is the negotiated payload limit and what is left to
  read.
\<close>

definition plain_exchange :: "(u8 list \<Rightarrow> err + unit) \<Rightarrow> u8 list \<Rightarrow> err + nat \<times> u8 list" where
  "plain_exchange send rx =
     rbind (packet_read rx 4096 False) (\<lambda>(hello, rx).
     rbind (ensure (p_command hello = CNXN \<and> STLS_VERSION \<le> p_arg0 hello \<and> 4096 \<le> p_arg1 hello)
       (Msg ''TLS-only ADB requires CNXN'')) (\<lambda>_.
     let limit = min (unat (p_arg1 hello)) MAX_PAYLOAD
     in rbind (rbind (packet_write (packet_new STLS STLS_VERSION 0 []) False) send) (\<lambda>_.
        rbind (packet_read rx 4096 False) (\<lambda>(stls, rx).
        rbind (ensure (p_command stls = STLS \<and> p_arg0 stls = STLS_VERSION \<and> p_arg1 stls = 0
            \<and> p_data stls = []) (Msg ''TLS upgrade required'')) (\<lambda>_. Inr (limit, rx))))))"

definition banner :: string where
  "banner = ''device::ro.product.name=altdb;ro.product.model=altdb;ro.product.device=altdb;features=''
     @ FEATURES @ '';'' @ [NUL]"

text \<open>
  The inner loop of a turn reads up to sixteen chunks. A result \<open>Inr None\<close> is the end of the
  session (the host closed it), \<open>Inr (Some work)\<close> goes on. A TLS read that never returns makes
  the whole call not return.
\<close>

fun read_burst ::
    "'o sink \<Rightarrow> instant \<Rightarrow> nat \<Rightarrow> bool \<Rightarrow> 'o connection \<Rightarrow> (bool option, 'o connection) outcome option" where
  "read_burst sk now 0 work c = Some (Inr (Some work), c)"
| "read_burst sk now (Suc n) work c =
     (case sk_read sk CHUNK (cn_tls c) of
        None \<Rightarrow> None
      | Some (Inl e, o') \<Rightarrow>
          Some (if io_kind_of e = WouldBlock then Inr (Some work) else Inl (Io e), c\<lparr>cn_tls := o'\<rparr>)
      | Some (Inr b, o') \<Rightarrow>
          let c = c\<lparr>cn_tls := o'\<rparr>
          in if b = [] then Some (Inr None, c)
             else
               let c = c\<lparr>cn_input := cn_input c @ b\<rparr>
               in if \<not> length (cn_input c) \<le> MAX_PAYLOAD + 24 + CHUNK
                  then Some (Inl (Msg ''input queue limit''), c)
                  else (case conn_parse sk now c of
                      (Inl e, c) \<Rightarrow> Some (Inl e, c)
                    | (Inr _, c) \<Rightarrow> read_burst sk now n True c))"

definition flush_tolerant :: "'o sink \<Rightarrow> 'o connection \<Rightarrow> (unit, 'o connection) outcome" where
  "flush_tolerant sk c =
     (let (r, o') = sk_flush sk (cn_tls c)
      in (case r of Inl e \<Rightarrow> if io_kind_of e = WouldBlock then Inr () else Inl (Io e) | Inr _ \<Rightarrow> Inr (),
          c\<lparr>cn_tls := o'\<rparr>))"

text \<open>One turn of the loop: the clock reading, and what \<open>poll\<close> answers if it is called. The
  result tells whether the session goes on.\<close>

definition conn_turn ::
    "'o sink \<Rightarrow> instant \<Rightarrow> io_error option \<Rightarrow> 'o connection \<Rightarrow> (bool, 'o connection) outcome option" where
  "conn_turn sk now polled c =
     (case read_burst sk now 16 False c of
        None \<Rightarrow> None
      | Some (Inl e, c) \<Rightarrow> Some (Inl e, c)
      | Some (Inr None, c) \<Rightarrow> Some (Inr False, c)
      | Some (Inr (Some work), c) \<Rightarrow>
          Some (sbind (conn_services sk now c) (\<lambda>w1 c.
                sbind (reverse_accept sk now c) (\<lambda>w2 c.
                sbind (flush_tolerant sk c) (\<lambda>_ c.
                  if \<not> (work \<or> w1 \<or> w2)
                  then (case wait_for_io polled of Inl e \<Rightarrow> (Inl (Io e), c) | Inr _ \<Rightarrow> (Inr True, c))
                  else (Inr True, c))))))"

text \<open>The loop over its turns: (cancelled, clock reading, poll result). When they are used up the
  session is still running.\<close>

fun conn_loop ::
    "'o sink \<Rightarrow> (bool \<times> instant \<times> io_error option) list \<Rightarrow> 'o connection
       \<Rightarrow> (unit, 'o connection) outcome option" where
  "conn_loop sk [] c = None"
| "conn_loop sk ((cancelled, now, polled) # turns) c =
     (if cancelled then Some (Inr (), c)
      else (case conn_turn sk now polled c of
          None \<Rightarrow> None
        | Some (Inl e, c) \<Rightarrow> Some (Inl e, c)
        | Some (Inr again, c) \<Rightarrow> if again then conn_loop sk turns c else Some (Inr (), c)))"

definition drop_all :: "(u32, stream) btree \<Rightarrow> broker \<Rightarrow> broker" where
  "drop_all m b = foldl (\<lambda>b s. drop_source (st_source s) b) b (bt_values m)"

definition new_connection :: "'o \<Rightarrow> broker \<Rightarrow> u64 \<Rightarrow> nat \<Rightarrow> 'o connection" where
  "new_connection tls b transport limit =
     \<lparr>cn_tls = tls, cn_broker = b, cn_transport = transport, cn_max = limit,
      cn_streams = [], cn_reverse = [], cn_next = 1, cn_input = []\<rparr>"

text \<open>
  What follows authentication: the banner, then the loop. When it ends the connection is dropped,
  its service sockets in the order of the stream table.
\<close>

definition session ::
    "'o sink \<Rightarrow> (bool \<times> instant \<times> io_error option) list \<Rightarrow> io_error option \<Rightarrow> u64 \<Rightarrow> nat \<Rightarrow> 'o \<Rightarrow> broker
       \<Rightarrow> (unit, broker) outcome option" where
  "session sk turns nonblock transport limit tls b =
     (case packet_write (packet_new CNXN VERSION (word_of_nat limit) (str_bytes banner)) False of
        Inl e \<Rightarrow> Some (Inl e, b)
      | Inr bytes \<Rightarrow>
          (case sk_put sk bytes tls of
             (Inl e, _) \<Rightarrow> Some (Inl e, b)
           | (Inr _, tls) \<Rightarrow>
               (case sk_flush sk tls of
                  (Inl e, _) \<Rightarrow> Some (Inl (Io e), b)
                | (Inr _, tls) \<Rightarrow>
                    (case nonblock of
                       Some e \<Rightarrow> Some (Inl (Io e), b)
                     | None \<Rightarrow>
                         (case conn_loop sk turns (new_connection tls b transport limit) of
                            None \<Rightarrow> None
                          | Some (r, c) \<Rightarrow> Some (r, drop_all (cn_streams c) (cn_broker c)))))))"

text \<open>
  \<open>run\<close>: \<open>options\<close> is the outcome of the socket options, \<open>accept\<close> performs the TLS handshake on the
  rest of the input (it may not return), \<open>peer\<close> is the fingerprint of the host's key.
\<close>

definition transport_run ::
    "'o sink \<Rightarrow> io_error option \<Rightarrow> (u8 list \<Rightarrow> err + unit) \<Rightarrow> u8 list \<Rightarrow> (u8 list \<Rightarrow> (err + 'o) option)
       \<Rightarrow> ('o \<Rightarrow> string) \<Rightarrow> io_error option \<Rightarrow> (bool \<times> instant \<times> io_error option) list \<Rightarrow> u64 \<Rightarrow> broker
       \<Rightarrow> (unit, broker) outcome option" where
  "transport_run sk options send rx accept peer nonblock turns transport b =
     (case rbind (opt_result options) (\<lambda>_. plain_exchange send rx) of
        Inl e \<Rightarrow> Some (Inl e, b)
      | Inr (limit, rx) \<Rightarrow>
          (case accept rx of
             None \<Rightarrow> None
           | Some (Inl e) \<Rightarrow> Some (Inl e, b)
           | Some (Inr tls) \<Rightarrow>
               (case broker_call (Authenticated transport (peer tls)) b of
                  (Inl e, b) \<Rightarrow> Some (Inl e, b)
                | (Inr _, b) \<Rightarrow>
                    (case session sk turns nonblock transport limit tls b of
                       None \<Rightarrow> None
                     | Some (r, b) \<Rightarrow> Some (r, snd (broker_call (Disconnected transport) b))))))"

end
