(* ===== verification/Transport_Invariant.thy ===== *)
theory Transport_Invariant
  imports Transport
begin

text \<open>
  What holds of every connection: the bounds on its tables and queues, the requests it makes of
  the supervisor, the delivery of data in both directions and the acknowledgement discipline.
  \<open>conn_step\<close> relates the connection before and after an operation; it is reflexive and
  transitive, passes through \<open>sbind\<close>, and every operation satisfies it.
\<close>

section \<open>The connection invariant\<close>

text \<open>
  The requests a connection may make of the supervisor: only ones about its own transport, and
  never an authentication or a pairing result.
\<close>

fun own_request :: "u64 \<Rightarrow> request \<Rightarrow> bool" where
  "own_request t (Spawn t' _) = (t' = t)"
| "own_request t (CloseService t' _) = (t' = t)"
| "own_request t (Root t' _) = (t' = t)"
| "own_request t (BindReverse t' _) = (t' = t)"
| "own_request t (CloseReverse t' _) = (t' = t)"
| "own_request t _ = False"

definition extends :: "u64 \<Rightarrow> broker \<Rightarrow> broker \<Rightarrow> bool" where
  "extends t b b' \<longleftrightarrow>
     (\<exists>rs. requests b' = requests b @ rs \<and> list_all (own_request t) rs) \<and> br_peers b' = br_peers b"

definition owner_ok :: "u64 \<Rightarrow> source \<Rightarrow> bool" where
  "owner_ok t src = (case src of SSocket _ (Some (t', _)) \<Rightarrow> t' = t | _ \<Rightarrow> True)"

text \<open>
  At most 64 streams and 16 reverse listeners; every stream has a number from 1 up that was
  allocated before, a sound queue and, if the supervisor runs its service, this transport as
  owner; the queues together hold at most 8 MiB.
\<close>

definition streams_ok :: "u64 \<Rightarrow> u32 \<Rightarrow> (u32, stream) btree \<Rightarrow> bool" where
  "streams_ok t next m \<longleftrightarrow>
     bt_ok m \<and> length m \<le> MAX_STREAMS \<and> pending_bytes m \<le> STREAM_INPUT_LIMIT
       \<and> (\<forall>(i, s) \<in> set m. i \<noteq> 0 \<and> i < next \<and> stream_ok s \<and> owner_ok t (st_source s))"

definition conn_inv :: "u64 \<Rightarrow> 'o connection \<Rightarrow> bool" where
  "conn_inv t c \<longleftrightarrow>
     cn_transport c = t \<and> cn_next c \<noteq> 0 \<and> streams_ok t (cn_next c) (cn_streams c)
       \<and> bt_ok (cn_reverse c) \<and> length (cn_reverse c) \<le> REVERSE_LIMIT"

definition conn_step :: "u64 \<Rightarrow> 'o connection \<Rightarrow> 'o connection \<Rightarrow> bool" where
  "conn_step t c c' \<longleftrightarrow>
     (conn_inv t c \<longrightarrow> conn_inv t c' \<and> extends t (cn_broker c) (cn_broker c'))"

lemma conn_inv_simps [simp]:
  "conn_inv t (c\<lparr>cn_tls := x\<rparr>) = conn_inv t c" "conn_inv t (c\<lparr>cn_broker := b\<rparr>) = conn_inv t c"
  "conn_inv t (c\<lparr>cn_input := i\<rparr>) = conn_inv t c"
  by (simp_all add: conn_inv_def)

lemma extends_refl [simp]: "extends t b b"
  by (auto simp: extends_def)

lemma extends_trans: "extends t a b \<Longrightarrow> extends t b c \<Longrightarrow> extends t a c"
  by (auto simp: extends_def)

lemma conn_step_refl [simp]: "conn_step t c c"
  by (simp add: conn_step_def)

lemma conn_step_trans: "conn_step t a b \<Longrightarrow> conn_step t b c \<Longrightarrow> conn_step t a c"
  by (auto simp: conn_step_def intro: extends_trans)

lemma conn_step_fields [simp]:
  "conn_step t c (c\<lparr>cn_tls := x\<rparr>)" "conn_step t c (c\<lparr>cn_input := i\<rparr>)"
  "conn_step t c (c\<lparr>cn_tls := x, cn_input := i\<rparr>)"
  by (simp_all add: conn_step_def conn_inv_def)

lemma conn_step_sbind:
  assumes "conn_step t c (snd m)" and "\<And>x d. m = (Inr x, d) \<Longrightarrow> conn_step t d (snd (f x d))"
  shows "conn_step t c (snd (sbind m f))"
  using assms by (cases m; cases "fst m") (auto intro: conn_step_trans)

lemma conn_call_step:
  "own_request (cn_transport c) r \<Longrightarrow> conn_step t c (snd (conn_call r c))"
proof (cases "broker_call r (cn_broker c)")
  case (Pair x b)
  assume own: "own_request (cn_transport c) r"
  have "br_peers b = br_peers (cn_broker c)"
    using own Pair
    by (cases r) (auto simp: broker_call_eq Let_def split: prod.splits dest!: broker_exchange_frame)
  then show ?thesis
    using Pair own broker_call_requests [OF Pair]
    by (auto simp: conn_call_def conn_step_def extends_def) (auto simp: conn_inv_def)
qed

lemma drop_source_extends: "owner_ok t src \<Longrightarrow> extends t b (drop_source src b)"
proof (cases src)
  case (SSocket s owner)
  assume ok: "owner_ok t src"
  show ?thesis
  proof (cases owner)
    case None
    with SSocket show ?thesis by (simp add: drop_source_def)
  next
    case (Some p)
    then obtain n where p: "owner = Some (t, n)" using ok SSocket by (cases p) (auto simp: owner_ok_def)
    obtain x b' where x: "broker_call (CloseService t n) b = (x, b')" by fastforce
    have "br_peers b' = br_peers b"
      using x by (auto simp: broker_call_eq Let_def split: prod.splits dest!: broker_exchange_frame)
    with broker_call_requests [OF x] x p SSocket show ?thesis
      by (auto simp: drop_source_def extends_def)
  qed
next
  case (SBytes b')
  then show ?thesis by (simp add: drop_source_def)
qed

lemma drop_in_step: "owner_ok t src \<Longrightarrow> conn_step t c (drop_in src c)"
  by (simp add: conn_step_def drop_in_def drop_source_extends)

lemma write_packet_step: "conn_step t c (snd (write_packet sk p c))"
  by (auto simp: write_packet_def split: sum.splits prod.splits)

lemma conn_packet_step: "conn_step t c (snd (conn_packet sk cmd a b d c))"
  by (simp add: conn_packet_def write_packet_step)

lemma write_packets_step: "conn_step t c (snd (write_packets sk ps c))"
  by (induction ps arbitrary: c) (auto intro: conn_step_sbind write_packet_step)

lemma conn_inv_frame:
  "cn_transport c' = cn_transport c \<Longrightarrow> cn_next c' = cn_next c \<Longrightarrow> cn_streams c' = cn_streams c
     \<Longrightarrow> cn_reverse c' = cn_reverse c \<Longrightarrow> conn_inv t c' = conn_inv t c"
  by (simp add: conn_inv_def)

subsection \<open>Reverse commands\<close>

lemma conn_call_frame [simp]:
  "cn_streams (snd (conn_call r c)) = cn_streams c" "cn_transport (snd (conn_call r c)) = cn_transport c"
  "cn_reverse (snd (conn_call r c)) = cn_reverse c" "cn_next (snd (conn_call r c)) = cn_next c"
  "cn_input (snd (conn_call r c)) = cn_input c" "cn_max (snd (conn_call r c)) = cn_max c"
  "cn_tls (snd (conn_call r c)) = cn_tls c"
  by (simp_all add: conn_call_def split: prod.splits)

lemma conn_callD:
  "conn_call r c = (x, d) \<Longrightarrow>
     cn_streams d = cn_streams c \<and> cn_transport d = cn_transport c \<and> cn_reverse d = cn_reverse c
       \<and> cn_next d = cn_next c \<and> cn_input d = cn_input c \<and> cn_max d = cn_max c \<and> cn_tls d = cn_tls c"
  using conn_call_frame [of r c] by simp

lemma conn_step_reverse:
  "(conn_inv t c \<Longrightarrow> bt_ok m \<and> length m \<le> REVERSE_LIMIT) \<Longrightarrow> conn_step t c (c\<lparr>cn_reverse := m\<rparr>)"
  by (auto simp: conn_step_def conn_inv_def)

lemma remove_reverse_step: "conn_step t c (snd (remove_reverse spec c))"
proof (cases "bt_contains (cn_reverse c) spec")
  case True
  let ?c = "c\<lparr>cn_reverse := bt_remove spec (cn_reverse c)\<rparr>"
  have "conn_step t c ?c"
    by (rule conn_step_reverse) (auto simp: conn_inv_def intro: le_trans [OF length_bt_remove])
  moreover have "conn_step t ?c (snd (conn_call (CloseReverse (cn_transport c) spec) ?c))"
    by (rule conn_call_step) simp
  ultimately show ?thesis
    using True by (auto simp: remove_reverse_def intro: conn_step_trans conn_step_sbind)
next
  case False
  then show ?thesis by (simp add: remove_reverse_def)
qed

lemma remove_reverses_step: "conn_step t c (snd (remove_reverses ks c))"
  by (induction ks arbitrary: c) (auto intro: conn_step_sbind remove_reverse_step)

lemma insert_reverse_step:
  assumes "cn_reverse c = m" and "length m < REVERSE_LIMIT"
  shows "conn_step t c (c\<lparr>cn_reverse := bt_insert k r m\<rparr>)"
  using assms by (intro conn_step_reverse) (auto simp: conn_inv_def intro: bt.bounded_ins)

lemma bind_reverse_step: "conn_step t c (snd (bind_reverse local remote c))"
proof -
  have "conn_step t c (snd (conn_call (BindReverse (cn_transport c) local) c))"
    by (rule conn_call_step) simp
  then show ?thesis
    by (auto simp: bind_reverse_def split: prod.splits list.splits option.splits
        intro!: conn_step_sbind intro: insert_reverse_step dest!: conn_callD)
qed

lemma reverse_forward_step: "conn_step t c (snd (reverse_forward command c))"
  unfolding reverse_forward_def
  by (auto simp: Let_def split: option.splits prod.splits sum.splits
      intro!: conn_step_sbind bind_reverse_step remove_reverse_step)

lemma reverse_command_step: "conn_step t c (snd (reverse_command command c))"
  by (auto simp: reverse_command_def Let_def split: option.splits
      intro!: conn_step_sbind remove_reverse_step remove_reverses_step reverse_forward_step)

subsection \<open>The stream table\<close>

lemma pending_bytes_Cons: "pending_bytes ((i, s) # m) = stream_pending_bytes s + pending_bytes m"
  by (simp add: pending_bytes_def bt_values_def)

lemma pending_bytes_Nil [simp]: "pending_bytes [] = 0"
  by (simp add: pending_bytes_def)

lemma pending_bytes_insert: "pending_bytes (bt_insert i s m) \<le> stream_pending_bytes s + pending_bytes m"
  by (induction i s m rule: bt_insert.induct) (auto simp: pending_bytes_Cons)

lemma pending_bytes_remove: "pending_bytes (bt_remove i m) \<le> pending_bytes m"
  by (induction m) (auto simp: pending_bytes_Cons bt_remove_def)

lemma bt_update_absent: "i \<notin> set (bt_keys m) \<Longrightarrow> bt_update i s m = m"
  by (induction m) (auto simp: bt_update_def bt_keys_def)

lemma pending_bytes_update:
  "bt_ok m \<Longrightarrow> bt_get m i = Some s \<Longrightarrow>
     pending_bytes (bt_update i s' m) + stream_pending_bytes s = pending_bytes m + stream_pending_bytes s'"
proof (induction m)
  case (Cons e m)
  obtain j r where e: "e = (j, r)" by fastforce
  have ok: "bt_ok m" "j \<notin> set (bt_keys m)" using Cons.prems(1) e by (auto simp: bt_ok_def bt_keys_def)
  show ?case
  proof (cases "j = i")
    case True
    with Cons.prems e have "r = s" by (simp add: bt_get_def)
    moreover have "bt_update i s' (e # m) = (i, s') # m"
      using True e bt_update_absent [of i m s'] ok(2) by (simp add: bt_update_def)
    ultimately show ?thesis using e True by (simp add: pending_bytes_Cons)
  next
    case False
    with Cons.prems e have "bt_get m i = Some s" by (simp add: bt_get_def)
    moreover have "bt_update i s' (e # m) = e # bt_update i s' m"
      using False e by (simp add: bt_update_def)
    ultimately show ?thesis using Cons.IH ok e by (simp add: pending_bytes_Cons)
  qed
qed simp

lemma streams_ok_get:
  "streams_ok t n m \<Longrightarrow> bt_get m i = Some s \<Longrightarrow>
     i \<noteq> 0 \<and> i < n \<and> stream_ok s \<and> owner_ok t (st_source s)"
  by (auto simp: streams_ok_def dest!: bt_get_SomeD)

lemma streams_ok_update:
  assumes "streams_ok t n m" and "bt_get m i = Some s" and "stream_ok s'" and "st_source s' = st_source s"
    and "pending_bytes m + stream_pending_bytes s' \<le> STREAM_INPUT_LIMIT + stream_pending_bytes s"
  shows "streams_ok t n (bt_update i s' m)"
proof -
  have ok: "bt_ok m" using assms(1) by (simp add: streams_ok_def)
  have "pending_bytes (bt_update i s' m) \<le> STREAM_INPUT_LIMIT"
    using pending_bytes_update [OF ok assms(2), of s'] assms(5) by simp
  moreover have "\<forall>(j, r) \<in> set (bt_update i s' m). j \<noteq> 0 \<and> j < n \<and> stream_ok r \<and> owner_ok t (st_source r)"
    using assms(1,3,4) streams_ok_get [OF assms(1,2)] set_bt_update [of i s' m]
    by (fastforce simp: streams_ok_def)
  ultimately show ?thesis using assms(1) by (simp add: streams_ok_def)
qed

lemma streams_ok_insert:
  assumes "streams_ok t n m" and "length m < MAX_STREAMS" and "n \<noteq> 0" and "n \<noteq> - 1"
    and "owner_ok t src"
  shows "streams_ok t (n + 1) (bt_insert n (new_stream r src op) m)"
proof -
  have "1 + n \<noteq> 0" using assms(4) by (auto simp: add_eq_0_iff)
  then have lt: "n < n + 1" by (simp add: word_less_nat_alt unatSuc add.commute)
  have ok: "bt_ok m" using assms(1) by (simp add: streams_ok_def)
  have new: "stream_ok (new_stream r src op)" "stream_pending_bytes (new_stream r src op) = 0"
    by (simp_all add: stream_ok_def queue_ok_def new_stream_def stream_pending_bytes_def)
  have "\<forall>(j, s) \<in> set (bt_insert n (new_stream r src op) m).
      j \<noteq> 0 \<and> j < n + 1 \<and> stream_ok s \<and> owner_ok t (st_source s)"
    using assms(1,3,5) lt new(1) set_bt_insert [OF ok] order.strict_trans
    by (fastforce simp: streams_ok_def new_stream_def)
  moreover have "pending_bytes (bt_insert n (new_stream r src op) m) \<le> STREAM_INPUT_LIMIT"
    using pending_bytes_insert [of n "new_stream r src op" m] new(2) assms(1) by (simp add: streams_ok_def)
  moreover have "length (bt_insert n (new_stream r src op) m) \<le> MAX_STREAMS"
    using ok assms(2) by (rule bt.bounded_ins)
  ultimately show ?thesis using ok by (simp add: streams_ok_def)
qed

lemma streams_ok_remove: "streams_ok t n m \<Longrightarrow> streams_ok t n (bt_remove i m)"
  using length_bt_remove [of i m] pending_bytes_remove [of i m]
  by (auto simp: streams_ok_def set_bt_remove)

lemma conn_step_streams:
  "(conn_inv t c \<Longrightarrow> streams_ok t (cn_next c) m) \<Longrightarrow> conn_step t c (c\<lparr>cn_streams := m\<rparr>)"
  by (auto simp: conn_step_def conn_inv_def)

lemma allocate_insert_step:
  assumes "conn_allocate c = (Inr i, c')" and "owner_ok t src"
  shows "conn_step t c (insert_stream i (new_stream r src op) c')"
  using assms streams_ok_insert [of t "cn_next c" "cn_streams c" src r op]
  by (auto simp: conn_allocate_def insert_stream_def conn_step_def conn_inv_def
      eq_neg_iff_add_eq_0 split: if_splits)

subsection \<open>Handlers\<close>

lemma conn_call_own_step:
  "own_request t r \<Longrightarrow> cn_transport c = t \<Longrightarrow> conn_step t c (snd (conn_call r c))"
  using conn_call_step by blast

lemma conn_open_step: "conn_step t c (snd (conn_open data c))"
proof -
  have call: "conn_step t c (snd (conn_call r c))" if "own_request (cn_transport c) r" for r
    using that by (rule conn_call_step)
  show ?thesis
    unfolding conn_open_def
    using call [of "Root (cn_transport c) True"] call [of "Root (cn_transport c) False"]
      reverse_command_step [of t c]
    by (auto simp: Let_def split: sum.splits option.splits prod.splits list.splits
        intro!: conn_step_sbind call) (metis snd_conv)+
qed

lemma service_socket_owner: "service_socket t i fds = Inr src \<Longrightarrow> owner_ok t src"
  by (auto simp: service_socket_def owner_ok_def split: list.splits option.splits)

lemma conn_open_owner: "conn_open data c = (Inr src, c') \<Longrightarrow> owner_ok (cn_transport c) src"
  by (auto simp: conn_open_def Let_def sbind_eq_Inr_iff
      split: sum.splits option.splits prod.splits if_splits dest!: conn_callD dest: service_socket_owner)
    (auto simp: owner_ok_def)

lemma handle_open_step: "conn_step t c (snd (handle_open sk p c))"
proof (cases "conn_inv t c")
  case False
  then show ?thesis by (simp add: conn_step_def)
next
  case True
  obtain r c1 where o: "conn_open (p_data p) c = (r, c1)" by fastforce
  have s1: "conn_step t c c1" using conn_open_step [of t c "p_data p"] o by simp
  show ?thesis
  proof (cases r)
    case (Inl e)
    with o s1 show ?thesis
      by (auto simp: handle_open_def intro: conn_packet_step conn_step_trans)
  next
    case (Inr src)
    have own: "owner_ok t src" using conn_open_owner [of "p_data p" c src c1] o Inr True by (simp add: conn_inv_def)
    obtain a c2 where al: "conn_allocate c1 = (a, c2)" by fastforce
    show ?thesis
    proof (cases a)
      case (Inl e)
      with al have "c2 = c1" by (auto simp: conn_allocate_def split: if_splits)
      with o al Inr Inl s1 own show ?thesis
        by (auto simp: handle_open_def intro: conn_packet_step conn_step_trans drop_in_step)
    next
      case i: (Inr i)
      note ins = allocate_insert_step [OF al [unfolded i] own, of "p_arg0 p" None]
      from o al Inr i conn_step_trans [OF s1 ins] show ?thesis
        by (auto simp: handle_open_def intro: conn_packet_step conn_step_trans)
    qed
  qed
qed

lemma update_stream_step:
  assumes "bt_get (cn_streams c) i = Some s" and "st_source s' = st_source s"
    and "\<And>n. streams_ok t n (cn_streams c) \<Longrightarrow> stream_ok s \<Longrightarrow> stream_ok s' \<and>
      pending_bytes (cn_streams c) + stream_pending_bytes s' \<le> STREAM_INPUT_LIMIT + stream_pending_bytes s"
  shows "conn_step t c (update_stream i s' c)"
  unfolding update_stream_def
proof (rule conn_step_streams)
  assume "conn_inv t c"
  then have ok: "streams_ok t (cn_next c) (cn_streams c)" by (simp add: conn_inv_def)
  with assms streams_ok_get [OF ok assms(1)] show "streams_ok t (cn_next c) (bt_update i s' (cn_streams c))"
    by (intro streams_ok_update [OF ok assms(1)]) auto
qed

text \<open>A change of the acknowledgement state only.\<close>

lemma update_stream_flags_step:
  assumes "bt_get (cn_streams c) i = Some s" and "st_source s' = st_source s"
    and "st_pending s' = st_pending s" and "st_offset s' = st_offset s"
  shows "conn_step t c (update_stream i s' c)"
  using assms
  by (intro update_stream_step) (auto simp: stream_ok_def stream_pending_bytes_def streams_ok_def)

lemma handle_okay_step: "conn_step t c (snd (handle_okay p c))"
  by (auto simp: handle_okay_def Let_def split: option.splits intro: update_stream_flags_step)

lemma handle_close_step: "conn_step t c (snd (handle_close now p c))"
  by (auto simp: handle_close_def split: option.splits intro: update_stream_flags_step)

lemma handle_write_step: "conn_step t c (snd (handle_write sk p c))"
proof (cases "pending_bytes (cn_streams c) + length (p_data p) \<le> STREAM_INPUT_LIMIT")
  case limit: True
  have enq: "conn_step t c (update_stream (p_arg1 p) s' c)"
    if "bt_get (cn_streams c) (p_arg1 p) = Some s" "stream_enqueue (p_data p) s = (r, s')" "p_data p \<noteq> []"
    for r s s'
  proof (rule update_stream_step [OF that(1)])
    show "st_source s' = st_source s" using that(2) by (auto simp: stream_enqueue_def split: if_splits)
  next
    fix n
    assume "stream_ok s"
    from stream_enqueue_ok [OF that(2) this that(3)] limit
    show "stream_ok s' \<and> pending_bytes (cn_streams c) + stream_pending_bytes s'
        \<le> STREAM_INPUT_LIMIT + stream_pending_bytes s" by (auto split: if_splits)
  qed
  with limit show ?thesis
    by (auto simp: handle_write_def split: option.splits prod.splits intro: conn_packet_step)
qed (simp add: handle_write_def)

lemma conn_handle_step: "conn_step t c (snd (conn_handle sk now p c))"
  by (simp add: conn_handle_def handle_open_step handle_okay_step handle_write_step handle_close_step)

lemma parse_loop_step: "conn_step t c (snd (parse_loop sk now input c))"
proof (induction sk now input c rule: parse_loop.induct)
  case (1 sk now input c)
  have "conn_step t (c\<lparr>cn_input := rest\<rparr>) (snd (conn_handle sk now p (c\<lparr>cn_input := rest\<rparr>)))" for p rest
    by (rule conn_handle_step)
  then have "conn_step t c (snd (conn_handle sk now p (c\<lparr>cn_input := rest\<rparr>)))" for p rest
    by (rule conn_step_trans [rotated]) simp
  with 1 show ?case
    by (subst parse_loop.simps) (auto split: parsed.splits intro!: conn_step_sbind)
qed

lemma conn_parse_step: "conn_step t c (snd (conn_parse sk now c))"
  by (simp add: conn_parse_def parse_loop_step)


subsection \<open>Moving data\<close>

lemma service_read_frame:
  "service_read n i s = (s', ps, cl, w) \<Longrightarrow>
     st_pending s' = st_pending s \<and> st_offset s' = st_offset s
       \<and> source_sent (st_source s') = source_sent (st_source s)
       \<and> st_opening s' = st_opening s \<and> st_closing s' = st_closing s \<and> st_remote s' = st_remote s"
  by (auto simp: service_read_def Let_def split: prod.splits sum.splits list.splits
      dest: source_read_sent)

lemma owner_read: "source_read n src = (r, src') \<Longrightarrow> owner_ok t src' = owner_ok t src"
  by (auto simp: source_read_def owner_ok_def split: source.splits prod.splits)

lemma owner_write: "source_write b src = (r, src') \<Longrightarrow> owner_ok t src' = owner_ok t src"
  by (auto simp: source_write_def owner_ok_def split: source.splits prod.splits)

lemma owner_flush:
  "flush_pending_loop w src ds off = (r, src', ds', off') \<Longrightarrow> owner_ok t src' = owner_ok t src"
  using flush_pending_loop_keeps [where f = "owner_ok t"] owner_write by blast

lemma service_read_owner: "service_read n i s = (s', ps, cl, w) \<Longrightarrow> owner_ok t (st_source s') = owner_ok t (st_source s)"
  by (auto simp: service_read_def Let_def split: prod.splits sum.splits list.splits
      dest!: owner_read [where t = t])

text \<open>What a pass does to a stream, whatever it decides: the queue only shrinks and what was
  delivered and what is queued stay together.\<close>

lemma service_stream_ok:
  assumes "service_stream mx q now i s = (s', ps, cl, w)" and "stream_ok s"
  shows "stream_ok s' \<and> stream_pending_bytes s' \<le> stream_pending_bytes s
    \<and> stream_delivered s' @ stream_todo s' = stream_delivered s @ stream_todo s
    \<and> owner_ok t (st_source s') = owner_ok t (st_source s)
    \<and> st_opening s' = st_opening s \<and> st_closing s' = st_closing s \<and> st_remote s' = st_remote s"
proof -
  obtain r s1 where f: "stream_flush_pending s = (r, s1)" by fastforce
  note fl = stream_flush_pending_ok [OF f assms(2)]
  have own: "owner_ok t (st_source s1) = owner_ok t (st_source s)"
    using f by (auto simp: stream_flush_pending_def split: prod.splits dest!: owner_flush [where t = t])
  have fr: "st_opening s1 = st_opening s" "st_closing s1 = st_closing s" "st_remote s1 = st_remote s"
    using f by (auto simp: stream_flush_pending_def split: prod.splits)
  obtain s2 ws c2 w2 where rd: "service_read (min mx CHUNK) i s1 = (s2, ws, c2, w2)"
    using prod_cases4 by blast
  have rd1: "stream_ok s2 = stream_ok s1" "stream_pending_bytes s2 = stream_pending_bytes s1"
    "stream_delivered s2 = stream_delivered s1" "stream_todo s2 = stream_todo s1"
    "owner_ok t (st_source s2) = owner_ok t (st_source s1)"
    "st_opening s2 = st_opening s1" "st_closing s2 = st_closing s1" "st_remote s2 = st_remote s1"
    using service_read_frame [OF rd] service_read_owner [OF rd]
    by (simp_all add: stream_ok_def stream_pending_bytes_def stream_delivered_def stream_todo_def)
  show ?thesis
    using assms f fl own fr rd rd1
    by (auto simp: service_stream_def Let_def split: if_splits sum.splits option.splits)
qed

lemma service_streams_frame:
  "service_streams mx q now m = (m', ps, ids, w) \<Longrightarrow> \<forall>(i, s) \<in> set m. P i s \<Longrightarrow>
     (\<And>i s s' ps' cl w'. P i s \<Longrightarrow> service_stream mx q now i s = (s', ps', cl, w') \<Longrightarrow>
        P i s' \<and> stream_pending_bytes s' \<le> stream_pending_bytes s) \<Longrightarrow>
     bt_keys m' = bt_keys m \<and> pending_bytes m' \<le> pending_bytes m \<and> (\<forall>(i, s) \<in> set m'. P i s)"
proof (induction mx q now m arbitrary: m' ps ids w rule: service_streams.induct)
  case (1 mx q now)
  then show ?case by simp
next
  case (2 mx q now i s m)
  obtain s1 ps1 cl1 w1 where s1: "service_stream mx q now i s = (s1, ps1, cl1, w1)"
    using prod_cases4 by blast
  obtain m1 qs ids1 w2 where m1: "service_streams mx q now m = (m1, qs, ids1, w2)"
    using prod_cases4 by blast
  have "m' = (i, s1) # m1" using "2.prems"(1) s1 m1 by auto
  moreover have "P i s1 \<and> stream_pending_bytes s1 \<le> stream_pending_bytes s"
    using "2.prems"(2) by (intro "2.prems"(3) [OF _ s1]) auto
  moreover have "bt_keys m1 = bt_keys m \<and> pending_bytes m1 \<le> pending_bytes m \<and> (\<forall>(i, s) \<in> set m1. P i s)"
    using "2.IH" [OF s1 [symmetric] refl refl refl m1] "2.prems"(2,3) by auto
  ultimately show ?case by (auto simp: bt_keys_def pending_bytes_Cons)
qed

lemma length_bt_keys [simp]: "length (bt_keys m) = length m"
  by (simp add: bt_keys_def)

lemma service_streams_ok:
  assumes "service_streams mx q now m = (m', ps, ids, w)" and "streams_ok t n m"
  shows "streams_ok t n m'"
proof -
  let ?P = "\<lambda>i s. i \<noteq> 0 \<and> i < n \<and> stream_ok s \<and> owner_ok t (st_source s)"
  have keep: "?P i s' \<and> stream_pending_bytes s' \<le> stream_pending_bytes s"
    if "?P i s" "service_stream mx q now i s = (s', ps', cl, w')" for i s s' ps' cl w'
    using service_stream_ok [OF that(2), of t] that(1) by blast
  have "\<forall>(i, s) \<in> set m. ?P i s" using assms(2) by (simp add: streams_ok_def)
  from service_streams_frame [where P = ?P, OF assms(1) this keep]
  have "bt_keys m' = bt_keys m \<and> pending_bytes m' \<le> pending_bytes m \<and> (\<forall>(i, s) \<in> set m'. ?P i s)" .
  moreover from this have "length m' = length m" by (metis length_bt_keys)
  ultimately show ?thesis using assms(2) by (auto simp: streams_ok_def bt_ok_def)
qed

lemma close_streams_step: "conn_step t c (snd (close_streams sk ids w c))"
proof (induction sk ids w c rule: close_streams.induct)
  case (2 sk i ids w c)
  show ?case
  proof (cases "bt_get (cn_streams c) i")
    case None
    with 2 show ?thesis by simp
  next
    case (Some s)
    let ?c = "c\<lparr>cn_streams := bt_remove i (cn_streams c)\<rparr>"
    obtain r c1 where p: "conn_packet sk CLSE i (st_remote s) [] ?c = (r, c1)" by fastforce
    have "conn_step t c ?c"
      by (rule conn_step_streams) (auto simp: conn_inv_def streams_ok_remove)
    moreover have "conn_step t ?c c1" using conn_packet_step [of t ?c sk] p by (metis snd_conv)
    moreover have "conn_step t c (drop_in (st_source s) c1)" if "conn_step t c c1"
    proof (cases "conn_inv t c")
      case True
      then have "owner_ok t (st_source s)" using Some streams_ok_get by (fastforce simp: conn_inv_def)
      with that show ?thesis by (blast intro: conn_step_trans drop_in_step)
    qed (simp add: conn_step_def)
    ultimately have "conn_step t c (drop_in (st_source s) c1)" by (blast intro: conn_step_trans)
    moreover have "conn_step t (drop_in (st_source s) c1) (snd (close_streams sk ids True (drop_in (st_source s) c1)))"
      if "r = Inr ()"
      using "2.IH"(2) [OF Some p [symmetric] refl] that by simp
    ultimately show ?thesis
      using Some p by (auto simp: Let_def split: sum.splits intro: conn_step_trans)
  qed
qed simp

lemma conn_services_step: "conn_step t c (snd (conn_services sk now c))"
proof -
  obtain m ev cl w where s: "service_streams (cn_max c) (sk_queued sk (cn_tls c)) now (cn_streams c) = (m, ev, cl, w)"
    using prod_cases4 by blast
  have "conn_step t c (c\<lparr>cn_streams := m\<rparr>)"
    using service_streams_ok [OF s] by (intro conn_step_streams) (simp add: conn_inv_def)
  with s show ?thesis
    by (auto simp: conn_services_def intro!: conn_step_sbind close_streams_step
        intro: conn_step_trans write_packets_step)
qed

subsection \<open>Reverse connections, and the session\<close>

lemma accept_all_keys: "accept_all m = (m', socks) \<Longrightarrow> bt_keys m' = bt_keys m"
  by (induction m arbitrary: m' socks) (auto simp: bt_keys_def split: prod.splits)

lemma open_reverses_step: "conn_step t c (snd (open_reverses sk now socks c))"
proof (induction sk now socks c rule: open_reverses.induct)
  case (2 sk now s target socks c)
  show ?case
  proof (cases "conn_allocate c")
    case (Pair a c1)
    show ?thesis
    proof (cases a)
      case (Inl e)
      with Pair show ?thesis by (auto simp: conn_allocate_def split: if_splits)
    next
      case (Inr i)
      let ?c = "insert_stream i (new_stream 0 (SSocket s None) (Some now)) c1"
      have "conn_step t c ?c"
        by (rule allocate_insert_step [OF Pair [unfolded Inr]]) (simp add: owner_ok_def)
      moreover have "conn_step t ?c (snd (sbind (conn_packet sk OPEN i 0 (str_bytes (target @ [NUL])) ?c)
          (\<lambda>_ c. open_reverses sk now socks c)))" if "\<not> MAX_STREAMS \<le> length (cn_streams c)"
        using "2.IH" [OF that Pair [unfolded Inr]] by (intro conn_step_sbind conn_packet_step) auto
      ultimately show ?thesis using Pair Inr by (auto intro: conn_step_trans)
    qed
  qed
qed simp

lemma reverse_accept_step: "conn_step t c (snd (reverse_accept sk now c))"
proof -
  obtain rs socks where a: "accept_all (cn_reverse c) = (rs, socks)" by fastforce
  have keys: "bt_keys rs = bt_keys (cn_reverse c)" using accept_all_keys [OF a] .
  then have "length rs = length (cn_reverse c)" by (metis length_bt_keys)
  with keys have "conn_step t c (c\<lparr>cn_reverse := rs\<rparr>)"
    by (intro conn_step_reverse) (auto simp: conn_inv_def bt_ok_def)
  with a show ?thesis
    by (auto simp: reverse_accept_def intro!: conn_step_sbind intro: conn_step_trans open_reverses_step)
qed

lemma flush_tolerant_step: "conn_step t c (snd (flush_tolerant sk c))"
  by (auto simp: flush_tolerant_def split: prod.splits)

lemma read_burst_step: "read_burst sk now n w c = Some (r, c') \<Longrightarrow> conn_step t c c'"
proof (induction sk now n w c rule: read_burst.induct)
  case (1 sk now work c)
  then show ?case by simp
next
  case (2 sk now n work c)
  obtain x o1 where rd: "sk_read sk CHUNK (cn_tls c) = Some (x, o1)"
    using "2.prems" by (cases "sk_read sk CHUNK (cn_tls c)") auto
  show ?case
  proof (cases x)
    case (Inl e)
    with 2 rd show ?thesis by (auto split: if_splits)
  next
    case (Inr b)
    let ?c = "c\<lparr>cn_tls := o1, cn_input := cn_input c @ b\<rparr>"
    obtain y c1 where p: "conn_parse sk now ?c = (y, c1)" by fastforce
    have s: "conn_step t c c1"
      using conn_parse_step [of t ?c sk now] p by (metis conn_step_trans conn_step_fields(3) snd_conv)
    show ?thesis
    proof (cases "b = [] \<or> \<not> length (cn_input c @ b) \<le> MAX_PAYLOAD + 24 + CHUNK")
      case True
      with "2.prems" rd Inr show ?thesis by (auto simp: Let_def split: if_splits)
    next
      case False
      show ?thesis
      proof (cases y)
        case (Inl e)
        with "2.prems" rd Inr False p s show ?thesis by (auto simp: Let_def)
      next
        case y: (Inr u)
        have "read_burst sk now n True c1 = Some (r, c')"
          using "2.prems" rd Inr False p y by (auto simp: Let_def)
        then have "conn_step t c1 c'"
          using "2.IH" [OF rd refl Inr refl] False p y by (auto simp: Let_def)
        with s show ?thesis by (rule conn_step_trans)
      qed
    qed
  qed
qed

lemma conn_turn_step: "conn_turn sk now polled c = Some (r, c') \<Longrightarrow> conn_step t c c'"
proof -
  assume turn: "conn_turn sk now polled c = Some (r, c')"
  then obtain x c1 where b: "read_burst sk now 16 False c = Some (x, c1)"
    by (auto simp: conn_turn_def split: option.splits)
  note s = read_burst_step [OF b, of t]
  have rest: "conn_step t c1 (snd (sbind (conn_services sk now c1) (\<lambda>w1 c.
      sbind (reverse_accept sk now c) (\<lambda>w2 c. sbind (flush_tolerant sk c) (\<lambda>_ c.
        if \<not> (work \<or> w1 \<or> w2)
        then (case wait_for_io polled of Inl e \<Rightarrow> (Inl (Io e), c) | Inr _ \<Rightarrow> (Inr True, c))
        else (Inr True, c))))))" for work
    by (intro conn_step_sbind conn_services_step reverse_accept_step flush_tolerant_step)
      (auto split: sum.splits)
  show ?thesis
  proof (cases "\<exists>work. x = Inr (Some work)")
    case True
    then obtain work where x: "x = Inr (Some work)" ..
    from rest [of work] turn b x have "conn_step t c1 c'" by (simp add: conn_turn_def)
    with s show ?thesis by (rule conn_step_trans)
  next
    case False
    with turn b s show ?thesis by (auto simp: conn_turn_def split: sum.splits option.splits)
  qed
qed

lemma conn_loop_step: "conn_loop sk turns c = Some (r, c') \<Longrightarrow> conn_step t c c'"
proof (induction sk turns c rule: conn_loop.induct)
  case (2 sk cancelled now polled turns c)
  then show ?case
    by (auto split: if_splits option.splits sum.splits prod.splits
        intro: conn_turn_step conn_step_trans)
qed simp


section \<open>The input queue does not matter to the handlers\<close>

text \<open>An operation is framed when it neither reads nor changes the input queue nor the limit.\<close>

abbreviation set_in :: "u8 list \<Rightarrow> 'o connection \<Rightarrow> 'o connection" where
  "set_in x c \<equiv> c\<lparr>cn_input := x\<rparr>"

lemma set_in_out [simp]:
  "(set_in x c)\<lparr>cn_tls := o1\<rparr> = set_in x (c\<lparr>cn_tls := o1\<rparr>)"
  "(set_in x c)\<lparr>cn_broker := b\<rparr> = set_in x (c\<lparr>cn_broker := b\<rparr>)"
  "(set_in x c)\<lparr>cn_streams := m\<rparr> = set_in x (c\<lparr>cn_streams := m\<rparr>)"
  "(set_in x c)\<lparr>cn_reverse := r\<rparr> = set_in x (c\<lparr>cn_reverse := r\<rparr>)"
  "(set_in x c)\<lparr>cn_next := n\<rparr> = set_in x (c\<lparr>cn_next := n\<rparr>)"
  by simp_all

definition framed :: "('o connection \<Rightarrow> ('a, 'o connection) outcome) \<Rightarrow> bool" where
  "framed f \<longleftrightarrow> (\<forall>x c. f (set_in x c) = (fst (f c), set_in x (snd (f c))) \<and> cn_max (snd (f c)) = cn_max c)"

lemma framedD:
  "framed f \<Longrightarrow> f (set_in x c) = (fst (f c), set_in x (snd (f c)))"
  "framed f \<Longrightarrow> cn_max (snd (f c)) = cn_max c"
  by (simp_all add: framed_def)

lemma framed_const [intro]: "framed (\<lambda>c. (r, c))"
  by (simp add: framed_def)

lemma framed_sbind [intro]:
  assumes "framed f" and "\<And>a. framed (g a)"
  shows "framed (\<lambda>c. sbind (f c) g)"
  unfolding framed_def
proof (intro allI)
  fix x c
  obtain r d where f: "f c = (r, d)" by fastforce
  then have fx: "f (set_in x c) = (r, set_in x d)" and "cn_max d = cn_max c"
    using assms(1) framedD(1) [OF assms(1), of x c] framedD(2) [OF assms(1), of c] by simp_all
  then show "sbind (f (set_in x c)) g = (fst (sbind (f c) g), set_in x (snd (sbind (f c) g)))
      \<and> cn_max (snd (sbind (f c) g)) = cn_max c"
    using f framedD [OF assms(2)] by (cases r) auto
qed

lemma framed_if [intro]:
  "(\<And>x c. p (set_in x c) = p c) \<Longrightarrow> framed f \<Longrightarrow> framed g \<Longrightarrow> framed (\<lambda>c. if p c then f c else g c)"
  by (auto simp: framed_def)

lemma framed_option [intro]:
  "(\<And>x c. k (set_in x c) = k c) \<Longrightarrow> framed f \<Longrightarrow> (\<And>a. framed (g a))
     \<Longrightarrow> framed (\<lambda>c. case k c of None \<Rightarrow> f c | Some a \<Rightarrow> g a c)"
  by (auto simp: framed_def split: option.splits)

lemma framed_sum [intro]:
  "(\<And>x c. k (set_in x c) = k c) \<Longrightarrow> (\<And>a. framed (f a)) \<Longrightarrow> (\<And>a. framed (g a))
     \<Longrightarrow> framed (\<lambda>c. case k c of Inl a \<Rightarrow> f a c | Inr a \<Rightarrow> g a c)"
  by (auto simp: framed_def split: sum.splits)

text \<open>A call whose result is used as a value, success or failure.\<close>

lemma framed_result:
  assumes "framed f" and "\<And>r. framed (g r)"
  shows "framed (\<lambda>c. g (fst (f c)) (snd (f c)))"
  using framedD [OF assms(1)] framedD [OF assms(2)] by (simp add: framed_def)

lemma framed_update:
  assumes "framed f" and "\<And>x c. u (set_in x c) = set_in x (u c)" and "\<And>c. cn_max (u c) = cn_max c"
  shows "framed (\<lambda>c. f (u c))"
  using framedD [OF assms(1)] assms(2,3) by (simp add: framed_def)

lemma framed_conn_call: "framed (\<lambda>c. conn_call (q c) c)" if "\<And>x c. q (set_in x c) = q c" for q
  using that by (auto simp: framed_def conn_call_def split: prod.splits)

lemma framed_packet [intro]: "framed (conn_packet sk cmd a b d)"
  by (auto simp: framed_def conn_packet_def write_packet_def split: sum.splits prod.splits)

lemma framed_remove_reverse [intro]: "framed (remove_reverse spec)"
proof -
  have call: "framed (\<lambda>c :: 'a connection. sbind (conn_call (CloseReverse (cn_transport c) spec) c) (\<lambda>_ c. (Inr (), c)))"
    by (intro framed_sbind framed_conn_call framed_const) simp
  show ?thesis
    unfolding remove_reverse_def
    using framed_update [OF call, of "\<lambda>c. c\<lparr>cn_reverse := bt_remove spec (cn_reverse c)\<rparr>"]
    by (intro framed_if framed_const) simp_all
qed

lemma framed_remove_reverses [intro]: "framed (remove_reverses ks)"
proof (induction ks)
  case (Cons k ks)
  have "remove_reverses (k # ks) = (\<lambda>c :: 'a connection. sbind (remove_reverse k c) (\<lambda>_ c. remove_reverses ks c))"
    by (simp add: fun_eq_iff)
  then show ?case using Cons by (simp add: framed_sbind framed_remove_reverse)
qed (simp add: framed_def)

lemma framed_bind_reverse [intro]: "framed (bind_reverse local remote)"
  unfolding bind_reverse_def
  by (intro framed_if framed_sbind framed_conn_call framed_const)
    (auto simp: framed_def split: prod.splits list.splits option.splits)

lemma framed_reverse_forward [intro]: "framed (reverse_forward command)"
proof -
  have "framed (\<lambda>c :: 'a connection. sbind (if bt_contains (cn_reverse c) local then
            if nr then (Inl (Msg ''reverse listener already exists''), c) else remove_reverse local c
          else (Inr (), c)) (\<lambda>_ c. bind_reverse local remote c))" for local remote nr
    by (intro framed_sbind framed_if framed_const framed_remove_reverse framed_bind_reverse) simp_all
  then show ?thesis
    unfolding reverse_forward_def Let_def
    by (auto split: prod.splits option.splits sum.splits intro!: framed_option framed_sum)
qed

lemma framed_reverse_command [intro]: "framed (reverse_command command)"
proof -
  have "framed (\<lambda>c :: 'a connection. remove_reverses (bt_keys (cn_reverse c)) c)"
    using framedD [OF framed_remove_reverses] by (auto simp: framed_def)
  then show ?thesis
    unfolding reverse_command_def Let_def
    by (intro framed_if framed_option framed_sbind framed_const framed_remove_reverse framed_reverse_forward)
      (auto simp: framed_def)
qed

lemma framed_open [intro]: "framed (conn_open data)"
proof -
  have "framed (\<lambda>c :: 'a connection. conn_call (Root (cn_transport c) e) c)" for e
    by (rule framed_conn_call) simp
  note root = framed_result [OF this]
  note reverse = framed_result [OF framed_reverse_command]
  show ?thesis
    unfolding conn_open_def Let_def case_prod_unfold
    by (intro framed_sum framed_option framed_if framed_sbind framed_conn_call framed_const
        root [where g = "\<lambda>r c. (Inr (SBytes (f r)), c)" for f]
        reverse [where g = "\<lambda>r c. (Inr (SBytes (f r)), c)" for f])
      (auto simp: framed_def)
qed

lemma framed_allocate [intro]: "framed conn_allocate"
  by (auto simp: framed_def conn_allocate_def)

lemma framed_handle_open: "framed (handle_open sk p)"
proof -
  define G where "G = (\<lambda>(r :: err + source) (c :: 'a connection). case r of
      Inr src \<Rightarrow>
        (case conn_allocate c of
           (Inl e, c) \<Rightarrow> (Inl e, drop_in src c)
         | (Inr i, c) \<Rightarrow>
             conn_packet sk OKAY i (p_arg0 p) [] (insert_stream i (new_stream (p_arg0 p) src None) c))
    | Inl _ \<Rightarrow> conn_packet sk CLSE 0 (p_arg0 p) [] c)"
  have "framed (G r)" for r
  proof (cases r)
    case (Inl e)
    then show ?thesis using framed_packet by (simp add: G_def)
  next
    case (Inr src)
    show ?thesis
      unfolding framed_def
    proof (intro allI)
      fix x and c :: "'a connection"
      obtain a d where d: "conn_allocate c = (a, d)" by fastforce
      then have "conn_allocate (set_in x c) = (a, set_in x d)" "cn_max d = cn_max c"
        using framedD [OF framed_allocate] by (metis fst_conv snd_conv)+
      with d Inr show "G r (set_in x c) = (fst (G r c), set_in x (snd (G r c))) \<and> cn_max (snd (G r c)) = cn_max c"
        by (cases a) (simp_all add: G_def drop_in_def insert_stream_def framedD [OF framed_packet])
    qed
  qed
  then have "framed (\<lambda>c. G (fst (conn_open (p_data p) c)) (snd (conn_open (p_data p) c)))"
    by (rule framed_result [OF framed_open])
  moreover have "handle_open sk p = (\<lambda>c. if \<not> (p_arg0 p \<noteq> 0 \<and> p_arg1 p = 0) then (Inl (Msg ''invalid OPEN IDs''), c)
      else if list_ex (\<lambda>s. st_remote s = p_arg0 p) (bt_values (cn_streams c))
      then (Inl (Msg ''duplicate remote stream ID''), c)
      else if MAX_STREAMS \<le> length (cn_streams c) then conn_packet sk CLSE 0 (p_arg0 p) [] c
      else G (fst (conn_open (p_data p) c)) (snd (conn_open (p_data p) c)))"
    by (auto simp: handle_open_def G_def fun_eq_iff split: sum.splits prod.splits)
  ultimately show ?thesis
    by (simp only:) (intro framed_if framed_const framed_packet; simp)
qed

lemma framed_handle: "framed (conn_handle sk now p)"
proof -
  have "framed (handle_okay p)"
    by (auto simp: framed_def handle_okay_def update_stream_def Let_def split: option.splits)
  moreover have "framed (handle_close now p)"
    by (auto simp: framed_def handle_close_def update_stream_def split: option.splits)
  moreover have "framed (handle_write sk p)"
    unfolding handle_write_def
    by (intro framed_if framed_option framed_const framed_packet)
      (auto simp: framed_def update_stream_def split: prod.splits)
  ultimately show ?thesis
    unfolding conn_handle_def by (intro framed_if framed_const framed_handle_open) simp_all
qed

section \<open>Properties\<close>

subsection \<open>Parsing\<close>

lemma next_packet_append:
  "next_packet n i = Got p r \<Longrightarrow> next_packet n (i @ b) = Got p (r @ b)"
  by (auto simp: next_packet_def Let_def split: if_splits sum.splits)

lemma parse_loop_input: "parse_loop sk now i (set_in x c) = parse_loop sk now i c"
  by (simp add: parse_loop.simps [of sk now i] split: parsed.split)

lemma parse_loop_append:
  "parse_loop sk now i c = (Inr (), c') \<Longrightarrow> parse_loop sk now (i @ b) c = parse_loop sk now (cn_input c' @ b) c'"
proof (induction sk now i c rule: parse_loop.induct)
  case (1 sk now i c)
  show ?case
  proof (cases "next_packet (cn_max c) i")
    case Wait
    with "1.prems" have "c' = set_in i c" by (simp add: parse_loop.simps [of sk now i])
    then show ?thesis by (simp add: parse_loop_input)
  next
    case (Bad e)
    with "1.prems" show ?thesis by (simp add: parse_loop.simps [of sk now i])
  next
    case (Got p r)
    from "1.prems" Got obtain d where d: "conn_handle sk now p (set_in r c) = (Inr (), d)"
        and rest: "parse_loop sk now r d = (Inr (), c')"
      by (auto simp: parse_loop.simps [of sk now i] sbind_eq_Inr_iff)
    have "conn_handle sk now p (set_in (r @ b) c) = (Inr (), set_in (r @ b) d)"
      using framedD(1) [OF framed_handle, of sk now p "r @ b" "set_in r c"] d by simp
    then have "parse_loop sk now (i @ b) c = parse_loop sk now (r @ b) d"
      using next_packet_append [OF Got, of b]
      by (simp add: parse_loop.simps [of sk now "i @ b"] parse_loop_input)
    also have "\<dots> = parse_loop sk now (cn_input c' @ b) c'"
      using "1.IH" [OF Got d rest] .
    finally show ?thesis .
  qed
qed

text \<open>
  C24: how the host's bytes are cut into reads makes no difference. If parsing succeeds on what has
  arrived so far, then parsing again when more bytes arrive gives exactly the result of parsing
  everything at once: the same outcome, the same streams, the same packets sent.
\<close>

theorem parse_chunking_independent:
  assumes "conn_parse sk now c = (Inr (), c')"
  shows "conn_parse sk now (c\<lparr>cn_input := cn_input c @ b\<rparr>)
    = conn_parse sk now (c'\<lparr>cn_input := cn_input c' @ b\<rparr>)"
  using parse_loop_append [of sk now "cn_input c" c c' b] assms
  by (simp add: conn_parse_def parse_loop_input)

text \<open>A sink that keeps what it is given; its input is a list of chunks.\<close>

definition demo_sink :: "(u8 list \<times> u8 list list) sink" where
  "demo_sink =
     \<lparr>sk_put = (\<lambda>b (w, r). (Inr (), (w @ b, r))), sk_flush = (\<lambda>o1. (Inr (), o1)), sk_queued = (\<lambda>_. 0),
      sk_plain = fst,
      sk_read = (\<lambda>n (w, r). Some (case r of [] \<Rightarrow> (Inl would_block, (w, [])) | b # r \<Rightarrow> (Inr b, (w, r))))\<rparr>"

definition demo_connection :: "answer list \<Rightarrow> u8 list \<Rightarrow> (u8 list \<times> u8 list list) connection" where
  "demo_connection answers input =
     (new_connection ([], []) (broker_new answers) 1 4096)\<lparr>cn_input := input\<rparr>"

definition zeros21 :: "u8 list" where
  "zeros21 = [0, 0, 0, 0, 0, 0, 0, 0, 0, 0, 0, 0, 0, 0, 0, 0, 0, 0, 0, 0, 0]"

theorem parse_chunking_independent_witness:
  "\<not> is_ok (fst (conn_parse demo_sink 0 (demo_connection [] ([1, 2, 3] @ zeros21))))"
proof -
  have "conn_parse demo_sink 0 (demo_connection [] [1, 2, 3]) = (Inr (), demo_connection [] [1, 2, 3])"
    by (simp add: conn_parse_def parse_loop.simps next_packet_def demo_connection_def new_connection_def)
  from parse_chunking_independent [OF this, of zeros21]
  have "conn_parse demo_sink 0 (demo_connection [] ([1, 2, 3] @ zeros21))
      = conn_parse demo_sink 0 ((demo_connection [] [1, 2, 3])\<lparr>cn_input := [1, 2, 3] @ zeros21\<rparr>)"
    by (simp add: demo_connection_def)
  also have "\<not> is_ok (fst \<dots>)"
    by (simp add: demo_connection_def new_connection_def conn_parse_def parse_loop.simps zeros21_def
        next_packet_def packet_read_def header_field_def from_le32_def read_exact_def Let_def)
  finally show ?thesis .
qed

subsection \<open>Data from the host\<close>

text \<open>
  An accepted WRTE reaches exactly its stream. The data goes behind everything that stream
  still has to deliver, what was delivered stays, every other stream is untouched, and nothing is
  sent to the host until the data has been drained.
\<close>

theorem write_reaches_stream:
  assumes "conn_inv t c" and "p_command p = WRTE" and "p_data p \<noteq> []"
    and "bt_get (cn_streams c) (p_arg1 p) = Some s" and "conn_handle sk now p c = (Inr (), c')"
  shows "cn_tls c' = cn_tls c
    \<and> (\<exists>s'. bt_get (cn_streams c') = (bt_get (cn_streams c))(p_arg1 p \<mapsto> s')
        \<and> stream_todo s' = stream_todo s @ p_data p \<and> stream_delivered s' = stream_delivered s
        \<and> st_remote s = p_arg0 p)"
proof -
  have ne: "WRTE \<noteq> OPEN" "WRTE \<noteq> OKAY" by (simp_all add: command_values)
  then have "handle_write sk p c = (Inr (), c')" using assms(2,5) by (simp add: conn_handle_def)
  then obtain s' where enq: "stream_enqueue (p_data p) s = (Inr (), s')"
      and c': "c' = update_stream (p_arg1 p) s' c" and "st_remote s = p_arg0 p"
    using assms(3,4) by (auto simp: handle_write_def split: if_splits prod.splits)
  moreover have "stream_ok s"
    using streams_ok_get [of t "cn_next c" "cn_streams c"] assms(1,4) by (auto simp: conn_inv_def)
  ultimately show ?thesis
    using stream_enqueue_ok [OF enq _ assms(3)] assms(4)
    by (auto simp: update_stream_def bt_get_update)
qed

definition demo_open_connection :: "stream \<Rightarrow> (u8 list \<times> u8 list list) connection" where
  "demo_open_connection s = (demo_connection [] [])\<lparr>cn_streams := [(1, s)], cn_next := 2\<rparr>"

lemma demo_open_inv:
  "ds = [] \<or> ds = [[1, 2, 3]] \<Longrightarrow> conn_inv 1 (demo_open_connection (demo_stream ds tx))"
  by (auto simp: demo_open_connection_def demo_connection_def new_connection_def conn_inv_def
      streams_ok_def demo_stream_def stream_ok_def queue_ok_def owner_ok_def pending_bytes_def
      bt_values_def stream_pending_bytes_def bt_ok_def bt_keys_def PENDING_LIMIT_def limit_defs
      STREAM_INPUT_LIMIT_def)

theorem write_reaches_stream_witness:
  "\<exists>c' s'. conn_handle demo_sink 0 (packet_new WRTE 1 1 [9]) (demo_open_connection (demo_stream [[1, 2, 3]] []))
       = (Inr (), c')
     \<and> bt_get (cn_streams c') 1 = Some s' \<and> stream_todo s' = [1, 2, 3, 9]"
proof -
  let ?c = "demo_open_connection (demo_stream [[1, 2, 3]] [])"
  obtain c' where h: "conn_handle demo_sink 0 (packet_new WRTE 1 1 [9]) ?c = (Inr (), c')"
    by (auto simp: conn_handle_def command_values packet_new_def handle_write_def demo_open_connection_def
        demo_stream_def pending_bytes_def bt_values_def stream_pending_bytes_def STREAM_INPUT_LIMIT_def
        demo_connection_def new_connection_def bt_get_def stream_enqueue_def PENDING_LIMIT_def)
  have g: "bt_get (cn_streams ?c) 1 = Some (demo_stream [[1, 2, 3]] [])"
    by (simp add: demo_open_connection_def bt_get_def)
  have t: "stream_todo (demo_stream [[1, 2, 3]] []) = [1, 2, 3]"
    by (simp add: stream_todo_def undelivered_def demo_stream_def)
  from write_reaches_stream [OF demo_open_inv _ _ _ h] g t show ?thesis
    using h by (auto simp: packet_new_def)
qed


subsection \<open>Acknowledgements\<close>

lemma service_read_cases:
  "service_read n i s = (s', ps, cl, w) \<Longrightarrow>
     ps = [] \<and> st_waiting s' = st_waiting s
       \<or> (\<exists>d. ps = [packet_new WRTE i (st_remote s) d] \<and> d \<noteq> [] \<and> length d \<le> n \<and> st_waiting s')"
  by (auto simp: service_read_def Let_def split: prod.splits sum.splits list.splits
      dest: source_read_length)

lemma flush_pending_error: "flush_pending_loop w src ds off = (Inl e, src', ds', off') \<Longrightarrow> ds' \<noteq> []"
proof (induction w src ds off rule: flush_pending_loop.induct)
  case (2 w src d ds off)
  obtain a src1 where s: "source_write (drop off d) src = (a, src1)" by fastforce
  show ?case
  proof (cases a)
    case (Inl x)
    with "2.prems" s show ?thesis by (auto split: if_splits)
  next
    case (Inr n)
    from "2.prems" s Inr "2.IH" [OF s [symmetric] Inr] show ?thesis by (auto split: if_splits)
  qed
qed simp

text \<open>Something is still to be delivered just when the queue is not empty.\<close>

lemma stream_todo_empty: "stream_ok s \<Longrightarrow> stream_todo s = [] \<longleftrightarrow> st_pending s = []"
  by (cases "st_pending s") (auto simp: stream_ok_def queue_ok_def stream_todo_def undelivered_def)

lemma stream_flushed:
  assumes "stream_flush_pending s = (r, s1)" and "stream_ok s"
  shows "stream_delivered s1 = stream_delivered s @ stream_todo s \<longleftrightarrow> st_pending s1 = []"
proof -
  note ok = stream_flush_pending_ok [OF assms]
  have "stream_delivered s1 = stream_delivered s @ stream_todo s \<longleftrightarrow> stream_todo s1 = []"
    unfolding ok(3) [symmetric] by simp
  then show ?thesis using stream_todo_empty [OF ok(1)] by simp
qed

text \<open>What a pass sends: the acknowledgement, and data.\<close>

lemma service_stream_sends:
  assumes "stream_ok s" and "service_stream mx q now i s = (s', ps, closed, work)"
  shows "\<exists>ws. ps = (if st_pending s \<noteq> [] \<and> stream_delivered s' = stream_delivered s @ stream_todo s
                   \<and> st_closing s = None then [packet_new OKAY i (st_remote s) []] else []) @ ws
    \<and> (ws \<noteq> [] \<longrightarrow> (\<exists>d. ws = [packet_new WRTE i (st_remote s) d] \<and> d \<noteq> [] \<and> length d \<le> min mx CHUNK)
         \<and> \<not> st_waiting s \<and> st_waiting s' \<and> st_opening s = None \<and> st_closing s = None \<and> q < SOFT_QUEUE)
    \<and> (ws = [] \<longrightarrow> st_waiting s' = st_waiting s)"
proof -
  obtain r s1 where f: "stream_flush_pending s = (r, s1)" by fastforce
  note drained = stream_flushed [OF f assms(1)]
  have fr: "st_opening s1 = st_opening s" "st_closing s1 = st_closing s" "st_remote s1 = st_remote s"
      "st_waiting s1 = st_waiting s"
    using f by (auto simp: stream_flush_pending_def split: prod.splits)
  have failed: "st_pending s1 \<noteq> []" if "r = Inl e" for e
    using f that flush_pending_error by (auto simp: stream_flush_pending_def split: prod.splits)
  have idle: "st_pending s = [] \<or> stream_todo s \<noteq> []" using stream_todo_empty [OF assms(1)] by blast
  obtain s2 ws c2 w2 where rd: "service_read (min mx CHUNK) i s1 = (s2, ws, c2, w2)"
    using prod_cases4 by blast
  have del: "stream_delivered s2 = stream_delivered s1"
    using service_read_frame [OF rd] by (simp add: stream_delivered_def)
  define late where "late = (case st_opening s of Some t \<Rightarrow> secs 10 < now - t | None \<Rightarrow> False)"
  define acks where "acks = (if st_pending s \<noteq> [] \<and> st_pending s1 = [] \<and> st_closing s = None
                             then [packet_new OKAY i (st_remote s) []] else [])"
  consider "late" "ps = []" "s' = s"
    | e where "r = Inl e" "ps = []" "s' = s1"
    | "ps = acks" "s' = s1"
    | "ps = acks @ ws" "s' = s2" "st_opening s = None" "st_closing s = None" "\<not> st_waiting s" "q < SOFT_QUEUE"
    using assms(2) f fr rd
    by (fastforce simp: service_stream_def Let_def late_def acks_def split: if_splits sum.splits option.splits)
  then show ?thesis
  proof cases
    case 1
    then show ?thesis using idle by auto
  next
    case 2
    then show ?thesis using failed drained fr by simp
  next
    case 3
    then show ?thesis using drained fr by (simp add: acks_def)
  next
    case 4
    then show ?thesis
      using drained fr del service_read_cases [OF rd] by (intro exI [of _ ws]) (auto simp: acks_def)
  qed
qed

text \<open>
  C23: the flow-control discipline towards the host. A pass over a sound stream acknowledges the
  host's data, with one \<open>OKAY\<close>, exactly when the stream had some queued, all of it has now been delivered
  to the service, and the stream is not being closed. It sends data only when the previous data was
  acknowledged and the stream is neither opening nor closing, then waits for the acknowledgement, at
  most one packet of at most 64 KiB.
\<close>

theorem service_stream_discipline:
  assumes "stream_ok s" and "service_stream mx q now i s = (s', ps, closed, work)"
  shows "\<exists>ws. ps = (if st_pending s \<noteq> [] \<and> stream_delivered s' = stream_delivered s @ stream_todo s
                   \<and> st_closing s = None then [packet_new OKAY i (st_remote s) []] else []) @ ws
    \<and> (ws \<noteq> [] \<longrightarrow> (\<exists>d. ws = [packet_new WRTE i (st_remote s) d] \<and> d \<noteq> [] \<and> length d \<le> min mx CHUNK)
         \<and> \<not> st_waiting s \<and> st_waiting s' \<and> st_opening s = None \<and> st_closing s = None \<and> q < SOFT_QUEUE)
    \<and> (ws = [] \<longrightarrow> st_waiting s' = st_waiting s)"
  by (rule service_stream_sends [OF assms])

theorem service_stream_discipline_witness:
  "fst (snd (service_stream 4096 0 0 1 (demo_stream [[1, 2, 3]] [TAccept 9]))) = [packet_new OKAY 1 1 []]"
proof -
  let ?s = "demo_stream [[1, 2, 3]] [TAccept 9]"
  have ok: "stream_ok ?s" by (simp add: stream_ok_def demo_stream_def queue_ok_def PENDING_LIMIT_def)
  obtain s' ps cl w where p: "service_stream 4096 0 0 1 ?s = (s', ps, cl, w)"
    using prod_cases4 by blast
  then have "stream_delivered s' = stream_delivered ?s @ stream_todo ?s" "st_waiting s' = st_waiting ?s"
    by (auto simp: service_stream_def demo_stream_def stream_flush_pending_def source_write_def
        sock_write_def sock_new_def service_read_def source_read_def sock_read_def SOFT_QUEUE_def
        stream_delivered_def stream_todo_def undelivered_def source_sent_def)
  with service_stream_discipline [OF ok p] p show ?thesis by (auto simp: demo_stream_def)
qed

subsection \<open>Waiting without losing work\<close>

text \<open>
  C33: sleeping in \<open>poll\<close> loses nothing. A service stream that is neither opening nor closing and is
  not in the poll set has nothing to do: a pass over it changes nothing, sends nothing and does not
  close it. (Opening and closing streams are served by the 100 ms timeout.)
\<close>

theorem unpolled_stream_idle:
  assumes "(i, s) \<in> set (cn_streams c)" and "is_socket (st_source s)"
    and "st_opening s = None" and "st_closing s = None"
    and "\<not> (\<exists>ev. (PollStream i, ev) \<in> set (poll_set sk c))"
  shows "service_stream (cn_max c) (sk_queued sk (cn_tls c)) now i s = (s, [], False, False)"
proof -
  have "stream_events (sk_queued sk (cn_tls c)) s = (False, False)"
  proof (rule ccontr)
    assume ev: "stream_events (sk_queued sk (cn_tls c)) s \<noteq> (False, False)"
    then have "(PollStream i, stream_events (sk_queued sk (cn_tls c)) s) \<in> set (poll_set sk c)"
      using assms(1,2) by (force simp: poll_set_def Let_def)
    with assms(5) show False by blast
  qed
  then have "st_pending s = []" "st_waiting s \<or> \<not> sk_queued sk (cn_tls c) < SOFT_QUEUE"
    using assms(3,4) by (auto simp: stream_events_def)
  moreover from this(1) have "stream_flush_pending s = (Inr False, s)"
    by (simp add: stream_flush_pending_def)
  ultimately show ?thesis
    using assms(3,4) by (auto simp: service_stream_def)
qed

theorem unpolled_stream_idle_witness:
  "service_stream 4096 0 7 1 ((demo_stream [] [])\<lparr>st_waiting := True\<rparr>)
     = ((demo_stream [] [])\<lparr>st_waiting := True\<rparr>, [], False, False)"
  using unpolled_stream_idle [of 1 "(demo_stream [] [])\<lparr>st_waiting := True\<rparr>"
      "demo_open_connection ((demo_stream [] [])\<lparr>st_waiting := True\<rparr>)" demo_sink 7]
  by (simp add: demo_open_connection_def demo_stream_def is_socket_def poll_set_def stream_events_def
      demo_connection_def new_connection_def demo_sink_def)

subsection \<open>The session\<close>

lemma new_connection_inv: "conn_inv t (new_connection tls b t limit)"
  by (simp add: conn_inv_def new_connection_def streams_ok_def bt_ok_Nil)

text \<open>
  C21: the bounds of a connection hold whatever the host sends and whatever the services, the
  sockets and the supervisor do: at every point where the loop can stop there are at most 64
  streams with sound queues and distinct numbers that were handed out before, at most 8 MiB of
  input waits for the services, and there are at most 16 reverse listeners.
\<close>

theorem session_bounds:
  assumes "conn_loop sk turns (new_connection tls b t limit) = Some (r, c)"
  shows "length (cn_streams c) \<le> MAX_STREAMS \<and> distinct (bt_keys (cn_streams c))
    \<and> pending_bytes (cn_streams c) \<le> STREAM_INPUT_LIMIT
    \<and> (\<forall>(i, s) \<in> set (cn_streams c). stream_ok s \<and> i \<noteq> 0 \<and> i < cn_next c)
    \<and> length (cn_reverse c) \<le> REVERSE_LIMIT"
proof -
  have "conn_inv t c"
    using conn_loop_step [OF assms, of t] new_connection_inv [of t tls b limit] by (auto simp: conn_step_def)
  then show ?thesis
    by (auto simp: conn_inv_def streams_ok_def dest: bt_ok_distinct)
qed

lemma cnxn_banner_ok: "is_ok (packet_write (packet_new CNXN VERSION (word_of_nat n) (str_bytes banner)) False)"
  by (simp add: packet_write_def packet_new_def banner_def FEATURES_def MAX_PAYLOAD_def Let_def)

theorem session_bounds_witness:
  "length (cn_streams (snd (the (conn_loop demo_sink [(True, 0, None)]
      (new_connection ([], []) (broker_new []) 1 4096))))) \<le> MAX_STREAMS"
  using session_bounds [of demo_sink "[(True, 0, None)]" "([], [])" "broker_new []" 1 4096 "Inr ()"
      "new_connection ([], []) (broker_new []) 1 4096"]
  by simp

lemma extends_peers: "extends t b b' \<Longrightarrow> br_peers b' = br_peers b"
  by (simp add: extends_def)

lemma drop_all_extends:
  "(\<forall>(i, s) \<in> set m. owner_ok t (st_source s)) \<Longrightarrow> extends t b (drop_all m b)"
proof (induction m arbitrary: b)
  case Nil
  then show ?case by (simp add: drop_all_def)
next
  case (Cons e m)
  obtain i s where e: "e = (i, s)" by fastforce
  have "extends t b (drop_source (st_source s) b)"
    using Cons.prems e by (intro drop_source_extends) auto
  moreover have "extends t (drop_source (st_source s) b) (drop_all m (drop_source (st_source s) b))"
    using Cons.prems by (intro Cons.IH) auto
  ultimately show ?case using e by (auto simp: drop_all_def bt_values_def intro: extends_trans)
qed

lemma session_extends:
  "session sk turns nb t limit tls b = Some (r, b') \<Longrightarrow> extends t b b'"
proof -
  assume s: "session sk turns nb t limit tls b = Some (r, b')"
  have loop: "extends t b (drop_all (cn_streams c) (cn_broker c))"
    if "conn_loop sk turns (new_connection tls1 b t limit) = Some (x, c)" for tls1 x c
  proof -
    have inv: "conn_inv t c" "extends t b (cn_broker c)"
      using conn_loop_step [OF that, of t] new_connection_inv [of t tls1 b limit]
      by (auto simp: conn_step_def new_connection_def)
    then have "extends t (cn_broker c) (drop_all (cn_streams c) (cn_broker c))"
      by (intro drop_all_extends) (auto simp: conn_inv_def streams_ok_def)
    with inv(2) show ?thesis by (rule extends_trans)
  qed
  show ?thesis
    using s by (auto simp: session_def split: sum.splits prod.splits option.splits intro: loop)
qed

lemma broker_disconnected:
  "broker_call (Disconnected t) b = (res, b') \<Longrightarrow>
     br_peers b' = bt_remove t (br_peers b)
       \<and> (requests b' = requests b \<or> requests b' = requests b @ [Disconnected t])"
  using broker_call_requests [of "Disconnected t" b res b']
  by (auto simp: broker_call_eq Let_def split: prod.splits dest!: broker_exchange_frame)

lemma session_requests:
  assumes "transport_run sk opts send rx accept peer nb turns t b = Some (r, b')" and "bt_ok (br_peers b)"
  shows "br_peers b' = br_peers b \<and> requests b' = requests b
    \<or> (\<exists>tls rx'. accept rx' = Some (Inr tls) \<and> bt_get (br_peers b') = (bt_get (br_peers b))(t := None)
        \<and> (requests b' \<in> {requests b, requests b @ [Authenticated t (peer tls)]} \<and> \<not> is_ok r
           \<or> (\<exists>rs. list_all (own_request t) rs
               \<and> requests b' \<in> {requests b @ Authenticated t (peer tls) # rs,
                               requests b @ Authenticated t (peer tls) # rs @ [Disconnected t]})))"
proof -
  consider (early) "b' = b"
    | (auth) tls rx' a b1 where "accept rx' = Some (Inr tls)"
        "broker_call (Authenticated t (peer tls)) b = (a, b1)"
        "case a of Inl e \<Rightarrow> r = Inl e \<and> b' = b1
         | Inr _ \<Rightarrow> \<exists>l x b2. session sk turns nb t l tls b1 = Some (x, b2)
             \<and> b' = snd (broker_call (Disconnected t) b2)"
    using assms(1)
    by (fastforce simp: transport_run_def split: sum.splits option.splits prod.splits)
  then show ?thesis
  proof cases
    case early
    then show ?thesis by simp
  next
    case (auth tls rx' a b1)
    have peers1: "bt_get (br_peers b1) = (bt_get (br_peers b))(t := (if is_ok a then Some (peer tls) else None))"
      using auth(2) assms(2)
      by (auto simp: broker_call_eq Let_def split: prod.splits dest!: broker_exchange_frame)
    show ?thesis
    proof (cases a)
      case (Inl e)
      then show ?thesis using auth peers1 broker_call_requests [OF auth(2)] by auto
    next
      case (Inr u)
      then obtain l x b2 where s: "session sk turns nb t l tls b1 = Some (x, b2)"
          and b': "b' = snd (broker_call (Disconnected t) b2)" using auth(3) by auto
      obtain y b3 where d: "broker_call (Disconnected t) b2 = (y, b3)" by fastforce
      have r1: "requests b1 = requests b @ [Authenticated t (peer tls)]"
        using broker_call_requests [OF auth(2)] Inr by auto
      obtain rs where rs: "requests b2 = requests b1 @ rs" "list_all (own_request t) rs"
          "br_peers b2 = br_peers b1"
        using session_extends [OF s] by (auto simp: extends_def)
      show ?thesis
        using auth(1) b' d broker_disconnected [OF d] r1 rs peers1 by auto
    qed
  qed
qed


definition demo_rx :: "u8 list" where
  "demo_rx = packet_header (packet_new CNXN STLS_VERSION 4096 []) 0
     @ packet_header (packet_new STLS STLS_VERSION 0 []) 0"

lemma demo_exchange: "plain_exchange (\<lambda>_. Inr ()) demo_rx = Inr (4096, [])"
proof -
  have "packet_read demo_rx 4096 False
      = Inr (packet_new CNXN STLS_VERSION 4096 [], packet_header (packet_new STLS STLS_VERSION 0 []) 0)"
    by (simp add: packet_read_general demo_rx_def packet_new_def exI [of _ 0])
  moreover have "packet_read (packet_header (packet_new STLS STLS_VERSION 0 []) 0) 4096 False
      = Inr (packet_new STLS STLS_VERSION 0 [], [])"
    by (simp add: packet_read_general packet_new_def exI [of _ 0])
  ultimately show ?thesis
    by (simp add: plain_exchange_def packet_write_def packet_new_def MAX_PAYLOAD_def Let_def)
qed

definition demo_run :: "((err + unit) \<times> broker) option" where
  "demo_run = transport_run demo_sink None (\<lambda>_. Inr ()) demo_rx (\<lambda>_. Some (Inr ([], []))) (\<lambda>_. ''ab'')
     None [] 1 (broker_new [Answered False ''host is not paired'' []])"

lemma demo_run_Some: "demo_run \<noteq> None"
  by (simp add: demo_run_def transport_run_def opt_result_def demo_exchange broker_new_def broker_call_eq
      broker_exchange_def Let_def)


end
