(* ===== verification/Store.thy ===== *)
theory Store
  imports Crypto Ordered_Map
begin

text \<open>
  \<open>src/src/unix/store.rs\<close>: the persistent state. \<open>Disk\<close> operations follow a script that says for
  each system call whether it works; \<open>atomic\<close> replaces a file; the store keeps the configuration,
  the identity and the paired hosts in step with their files. The JSON encodings are serde's and
  parameters.
\<close>

section \<open>The state directory\<close>

text \<open>
  The files of the state directory by name. The script has one entry per system call: it works as
  specified, or fails with an error (a failing write leaves a prefix of \<open>k\<close> bytes). When the script
  is used up every call fails without effect, which is also what a crash of the process looks like
  on the disk: so statements about the files after an operation cover a crash at any point.
\<close>

datatype call = COk | CErr io_error nat

record disk =
  dk_files :: "string \<Rightarrow> u8 list option"
  dk_script :: "call list"

definition syscall ::
    "(nat \<Rightarrow> (string \<Rightarrow> u8 list option) \<Rightarrow> string \<Rightarrow> u8 list option)
       \<Rightarrow> ((string \<Rightarrow> u8 list option) \<Rightarrow> (io_error + 'a) \<times> (string \<Rightarrow> u8 list option))
       \<Rightarrow> disk \<Rightarrow> ('a, disk) outcome" where
  "syscall partial op d =
     (case dk_script d of
        [] \<Rightarrow> (Inl (io_err OtherIo ''no such call''), d)
      | COk # s \<Rightarrow>
          (let (r, f) = op (dk_files d)
           in (case r of Inl e \<Rightarrow> Inl (Io e) | Inr x \<Rightarrow> Inr x, d\<lparr>dk_files := f, dk_script := s\<rparr>))
      | CErr e k # s \<Rightarrow> (Inl (Io e), d\<lparr>dk_files := partial k (dk_files d), dk_script := s\<rparr>))"

abbreviation no_partial :: "nat \<Rightarrow> (string \<Rightarrow> u8 list option) \<Rightarrow> string \<Rightarrow> u8 list option" where
  "no_partial \<equiv> \<lambda>k f. f"

definition fs_create_new :: "string \<Rightarrow> disk \<Rightarrow> (unit, disk) outcome" where
  "fs_create_new p = syscall no_partial (\<lambda>f.
     if f p \<noteq> None then (Inl (IoError OtherIo (Some 17) ''File exists''), f) else (Inr (), f(p \<mapsto> [])))"

definition fs_append :: "string \<Rightarrow> u8 list \<Rightarrow> disk \<Rightarrow> (unit, disk) outcome" where
  "fs_append p b = syscall
     (\<lambda>k f. case f p of None \<Rightarrow> f | Some c \<Rightarrow> f(p \<mapsto> c @ take k b))
     (\<lambda>f. case f p of None \<Rightarrow> (Inl (IoError OtherIo None ''stale file''), f)
          | Some c \<Rightarrow> (Inr (), f(p \<mapsto> c @ b)))"

text \<open>Calls that change nothing the model sees: syncing, opening a directory, permissions.\<close>

definition fs_other :: "disk \<Rightarrow> (unit, disk) outcome" where
  "fs_other = syscall no_partial (\<lambda>f. (Inr (), f))"

definition fs_hard_link :: "string \<Rightarrow> string \<Rightarrow> disk \<Rightarrow> (unit, disk) outcome" where
  "fs_hard_link p q = syscall no_partial (\<lambda>f.
     case f p of None \<Rightarrow> (Inl (IoError NotFound (Some 2) ''No such file''), f)
     | Some c \<Rightarrow>
         if f q \<noteq> None then (Inl (IoError OtherIo (Some 17) ''File exists''), f)
         else (Inr (), f(q \<mapsto> c)))"

definition fs_rename :: "string \<Rightarrow> string \<Rightarrow> disk \<Rightarrow> (unit, disk) outcome" where
  "fs_rename p q = syscall no_partial (\<lambda>f.
     case f p of None \<Rightarrow> (Inl (IoError NotFound (Some 2) ''No such file''), f)
     | Some c \<Rightarrow> (Inr (), f(p := None, q \<mapsto> c)))"

definition fs_remove :: "string \<Rightarrow> disk \<Rightarrow> (unit, disk) outcome" where
  "fs_remove p = syscall no_partial (\<lambda>f.
     if f p = None then (Inl (IoError NotFound (Some 2) ''No such file''), f)
     else (Inr (), f(p := None)))"

definition fs_read :: "string \<Rightarrow> disk \<Rightarrow> (u8 list, disk) outcome" where
  "fs_read p = syscall no_partial (\<lambda>f.
     case f p of None \<Rightarrow> (Inl (IoError NotFound (Some 2) ''No such file''), f) | Some c \<Rightarrow> (Inr c, f))"

text \<open>\<open>Path::exists\<close> answers false when it cannot find out.\<close>

definition fs_exists :: "string \<Rightarrow> disk \<Rightarrow> bool \<times> disk" where
  "fs_exists p d =
     (let (r, d') = syscall no_partial (\<lambda>f. (Inr (f p \<noteq> None), f)) d
      in (case r of Inl _ \<Rightarrow> False | Inr b \<Rightarrow> b, d'))"

section \<open>Replacing a file\<close>

definition rollback_failed :: err where
  "rollback_failed = Msg ''state commit and rollback failed; inspect storage before restart''"

text \<open>
  The closure of \<open>atomic\<close>: the error result carries \<open>preserve_backup\<close>. The file handle writes the
  JSON text and a newline.
\<close>

type_synonym commit_result = "(err \<times> bool) + unit"

definition keep_err :: "err + 'a \<Rightarrow> (err \<times> bool) + 'a" where
  "keep_err r = (case r of Inl e \<Rightarrow> Inl (e, False) | Inr x \<Rightarrow> Inr x)"

definition write_temp :: "string \<Rightarrow> u8 list \<Rightarrow> disk \<Rightarrow> (unit, disk) outcome" where
  "write_temp temp body d =
     sbind (fs_create_new temp d) (\<lambda>_ d.
     sbind (fs_append temp body d) (\<lambda>_ d.
     sbind (fs_append temp [10] d) (\<lambda>_ d.
     sbind (fs_other d) (\<lambda>_ d. fs_other d))))"

definition swap_in :: "string \<Rightarrow> string \<Rightarrow> string \<Rightarrow> bool \<Rightarrow> disk \<Rightarrow> commit_result \<times> disk" where
  "swap_in temp backup path had_previous d =
     (case sbind (fs_other d) (\<lambda>_ d. fs_rename temp path d) of
        (Inl e, d) \<Rightarrow> (Inl (e, False), d)
      | (Inr _, d) \<Rightarrow>
          (case fs_other d of
             (Inr _, d) \<Rightarrow> (Inr (), d)
           | (Inl error, d) \<Rightarrow>
               (case (if had_previous then fs_rename backup path d else fs_remove path d) of
                  (Inl _, d) \<Rightarrow> (Inl (rollback_failed, True), d)
                | (Inr _, d) \<Rightarrow> (Inl (error, False), snd (fs_other d)))))"

definition atomic_commit :: "string \<Rightarrow> string \<Rightarrow> string \<Rightarrow> u8 list \<Rightarrow> disk \<Rightarrow> commit_result \<times> disk" where
  "atomic_commit temp backup path body d =
     (case write_temp temp body d of
        (Inl e, d) \<Rightarrow> (Inl (e, False), d)
      | (Inr _, d) \<Rightarrow>
          (case fs_hard_link path backup d of
             (Inr _, d) \<Rightarrow> swap_in temp backup path True d
           | (Inl (Io e), d) \<Rightarrow>
               if io_kind_of e = NotFound then swap_in temp backup path False d
               else (Inl (Io e, False), d)
           | (Inl e, d) \<Rightarrow> (Inl (e, False), d)))"

definition temp_name :: "u8 list \<Rightarrow> string" where
  "temp_name r = ''.'' @ hex r @ ''.tmp''"

definition backup_name :: "u8 list \<Rightarrow> string" where
  "backup_name r = ''.'' @ hex r @ ''.rollback''"

text \<open>\<open>draws\<close> are the two random numbers (\<open>None\<close> when the source fails).\<close>

definition atomic :: "u8 list option \<times> u8 list option \<Rightarrow> string \<Rightarrow> u8 list \<Rightarrow> disk \<Rightarrow> (unit, disk) outcome" where
  "atomic draws path body d =
     (case draws of
        (Some r1, Some r2) \<Rightarrow>
          (let temp = temp_name r1; backup = backup_name r2;
               (result, d) = atomic_commit temp backup path body d;
               d = (case result of Inl _ \<Rightarrow> snd (fs_remove temp d) | Inr _ \<Rightarrow> d);
               d = (case result of Inl (_, True) \<Rightarrow> d | _ \<Rightarrow> snd (fs_remove backup d))
           in (case result of Inl (e, _) \<Rightarrow> Inl e | Inr _ \<Rightarrow> Inr (), d))
      | _ \<Rightarrow> (Inl (Msg ''secure random unavailable''), d))"

subsection \<open>What it does to the files\<close>

text \<open>No injected failure claims that a file does not exist.\<close>

fun genuine_call :: "call \<Rightarrow> bool" where
  "genuine_call COk = True"
| "genuine_call (CErr e k) = (io_kind_of e \<noteq> NotFound)"

definition genuine :: "call list \<Rightarrow> bool" where
  "genuine s = list_all genuine_call s"

lemmas fs_defs = fs_create_new_def fs_append_def fs_other_def fs_hard_link_def fs_rename_def
  fs_remove_def fs_read_def syscall_def

lemma syscall_genuine:
  "syscall pa op d = (r, d') \<Longrightarrow> genuine (dk_script d) \<Longrightarrow> genuine (dk_script d')"
  by (auto simp: syscall_def genuine_def split: list.splits call.splits prod.splits)

lemma fs_genuine:
  "fs_create_new p d = (r, d') \<Longrightarrow> genuine (dk_script d) \<Longrightarrow> genuine (dk_script d')"
  "fs_append p b d = (r, d') \<Longrightarrow> genuine (dk_script d) \<Longrightarrow> genuine (dk_script d')"
  "fs_other d = (r, d') \<Longrightarrow> genuine (dk_script d) \<Longrightarrow> genuine (dk_script d')"
  "fs_hard_link p q d = (r, d') \<Longrightarrow> genuine (dk_script d) \<Longrightarrow> genuine (dk_script d')"
  unfolding fs_create_new_def fs_append_def fs_other_def fs_hard_link_def
  by (auto intro: syscall_genuine)

lemma fs_create_newD:
  "fs_create_new p d = (r, d') \<Longrightarrow>
     (case r of Inr _ \<Rightarrow> dk_files d' = (dk_files d)(p \<mapsto> []) | Inl _ \<Rightarrow> dk_files d' = dk_files d)"
  by (auto simp: fs_defs split: list.splits call.splits if_splits)

lemma fs_appendD:
  "fs_append p b d = (r, d') \<Longrightarrow>
     (\<forall>q. q \<noteq> p \<longrightarrow> dk_files d' q = dk_files d q)
       \<and> (\<forall>x. r = Inr x \<longrightarrow> (\<exists>c. dk_files d p = Some c \<and> dk_files d' p = Some (c @ b)))"
  by (auto simp: fs_defs split: list.splits call.splits option.splits)

lemma fs_otherD: "fs_other d = (r, d') \<Longrightarrow> dk_files d' = dk_files d"
  by (auto simp: fs_defs split: list.splits call.splits)

lemma fs_hard_linkD:
  "fs_hard_link p q d = (r, d') \<Longrightarrow> dk_files d q = None \<Longrightarrow> genuine (dk_script d) \<Longrightarrow>
     (case r of
        Inr _ \<Rightarrow> (\<exists>c. dk_files d p = Some c \<and> dk_files d' = (dk_files d)(q \<mapsto> c))
      | Inl e \<Rightarrow> dk_files d' = dk_files d
          \<and> (\<forall>x. e = Io x \<longrightarrow> io_kind_of x = NotFound \<longrightarrow> dk_files d p = None) \<and> (\<exists>x. e = Io x))"
  by (auto simp: fs_defs genuine_def split: list.splits call.splits option.splits)

lemma fs_renameD:
  "fs_rename p q d = (r, d') \<Longrightarrow>
     (case r of
        Inr _ \<Rightarrow> (\<exists>c. dk_files d p = Some c \<and> dk_files d' = (dk_files d)(p := None, q \<mapsto> c))
      | Inl _ \<Rightarrow> dk_files d' = dk_files d)"
  by (auto simp: fs_defs split: list.splits call.splits option.splits)

lemma fs_removeD:
  "fs_remove p d = (r, d') \<Longrightarrow>
     (case r of Inr _ \<Rightarrow> dk_files d' = (dk_files d)(p := None) | Inl _ \<Rightarrow> dk_files d' = dk_files d)"
  by (auto simp: fs_defs split: list.splits call.splits if_splits)

lemma fs_remove_other: "q \<noteq> p \<Longrightarrow> dk_files (snd (fs_remove p d)) q = dk_files d q"
  using fs_removeD [of p d] by (cases "fs_remove p d") (auto split: sum.splits)

lemma write_temp_files:
  "write_temp temp body d = (r, d') \<Longrightarrow>
     (\<forall>q. q \<noteq> temp \<longrightarrow> dk_files d' q = dk_files d q)
       \<and> (\<forall>x. r = Inr x \<longrightarrow> dk_files d' temp = Some (body @ [10]))
       \<and> (genuine (dk_script d) \<longrightarrow> genuine (dk_script d'))"
proof -
  assume w: "write_temp temp body d = (r, d')"
  obtain r1 d1 where 1: "fs_create_new temp d = (r1, d1)" by fastforce
  obtain r2 d2 where 2: "fs_append temp body d1 = (r2, d2)" by fastforce
  obtain r3 d3 where 3: "fs_append temp [10] d2 = (r3, d3)" by fastforce
  obtain r4 d4 where 4: "fs_other d3 = (r4, d4)" by fastforce
  obtain r5 d5 where 5: "fs_other d4 = (r5, d5)" by fastforce
  note steps = fs_create_newD [OF 1] fs_appendD [OF 2] fs_appendD [OF 3] fs_otherD [OF 4] fs_otherD [OF 5]
  note gen = fs_genuine(1) [OF 1] fs_genuine(2) [OF 2] fs_genuine(2) [OF 3] fs_genuine(3) [OF 4]
    fs_genuine(3) [OF 5]
  show ?thesis
    using w 1 2 3 4 5 steps gen
    by (cases r1; cases r2; cases r3; cases r4; cases r5) (auto simp: write_temp_def)
qed

text \<open>Swapping in: the new content, or the old one unless the rollback failed too.\<close>

lemma swap_in_files:
  assumes "swap_in temp backup path had d = (r, d')"
    and "temp \<noteq> path" "backup \<noteq> path" "temp \<noteq> backup"
    and "dk_files d temp = Some new"
    and "dk_files d path = (if had then dk_files d backup else None)"
    and "had \<Longrightarrow> dk_files d backup \<noteq> None"
  shows "(\<forall>q. q \<notin> {temp, backup, path} \<longrightarrow> dk_files d' q = dk_files d q)
    \<and> (case r of Inr _ \<Rightarrow> dk_files d' path = Some new
       | Inl (e, keep) \<Rightarrow> if keep then e = rollback_failed \<and> dk_files d' path = Some new
                        else dk_files d' path = dk_files d path)"
proof -
  obtain r1 d1 where 1: "fs_other d = (r1, d1)" by fastforce
  obtain r2 d2 where 2: "fs_rename temp path d1 = (r2, d2)" by fastforce
  obtain r3 d3 where 3: "fs_other d2 = (r3, d3)" by fastforce
  obtain r4 d4 where 4: "(if had then fs_rename backup path d3 else fs_remove path d3) = (r4, d4)" by fastforce
  obtain r5 d5 where 5: "fs_other d4 = (r5, d5)" by fastforce
  note steps = fs_otherD [OF 1] fs_renameD [OF 2] fs_otherD [OF 3] fs_otherD [OF 5]
  have 6: "case r4 of Inl _ \<Rightarrow> dk_files d4 = dk_files d3
      | Inr _ \<Rightarrow> dk_files d4 = (if had then (dk_files d3)(backup := None, path := dk_files d3 backup)
                               else (dk_files d3)(path := None))"
    using 4 fs_renameD [of backup path d3 r4 d4] fs_removeD [of path d3 r4 d4]
    by (auto split: if_splits sum.splits)
  show ?thesis
  proof (cases r1)
    case (Inl e)
    with assms 1 steps show ?thesis by (auto simp: swap_in_def)
  next
    case r1: (Inr u)
    show ?thesis
    proof (cases r2)
      case (Inl e)
      with assms 1 2 r1 steps show ?thesis by (auto simp: swap_in_def)
    next
      case r2: (Inr v)
      have f2: "dk_files d2 = (dk_files d)(temp := None, path \<mapsto> new)"
        using steps assms(5) r2 by auto
      show ?thesis
      proof (cases r3)
        case (Inr w)
        with assms 1 2 3 r1 r2 steps f2 show ?thesis by (auto simp: swap_in_def)
      next
        case r3: (Inl e)
        show ?thesis
        proof (cases r4)
          case (Inl e')
          with assms 1 2 3 4 r1 r2 r3 steps f2 6 show ?thesis by (auto simp: swap_in_def)
        next
          case (Inr w)
          with assms 1 2 3 4 5 r1 r2 r3 steps f2 6 show ?thesis
            by (auto simp: swap_in_def split: if_splits)
        qed
      qed
    qed
  qed
qed

lemma atomic_commit_files:
  assumes "atomic_commit temp backup path body d = (r, d')"
    and "temp \<noteq> path" "backup \<noteq> path" "temp \<noteq> backup" "dk_files d backup = None"
    and "genuine (dk_script d)"
  shows "(\<forall>q. q \<notin> {temp, backup, path} \<longrightarrow> dk_files d' q = dk_files d q)
    \<and> (case r of Inr _ \<Rightarrow> dk_files d' path = Some (body @ [10])
       | Inl (e, keep) \<Rightarrow> if keep then e = rollback_failed \<and> dk_files d' path = Some (body @ [10])
                        else dk_files d' path = dk_files d path)"
proof -
  obtain r1 d1 where w: "write_temp temp body d = (r1, d1)" by fastforce
  note wt = write_temp_files [OF w]
  obtain r2 d2 where h: "fs_hard_link path backup d1 = (r2, d2)" by fastforce
  show ?thesis
  proof (cases r1)
    case (Inl e)
    with assms w wt show ?thesis by (auto simp: atomic_commit_def)
  next
    case r1: (Inr u)
    have b: "dk_files d1 backup = None" "dk_files d1 path = dk_files d path"
        "dk_files d1 temp = Some (body @ [10])"
      using wt assms r1 by auto
    note hl = fs_hard_linkD [OF h b(1)]
    show ?thesis
    proof (cases r2)
      case (Inr v)
      with hl wt assms(6) obtain c where c: "dk_files d1 path = Some c" "dk_files d2 = (dk_files d1)(backup \<mapsto> c)"
        by auto
      have "swap_in temp backup path True d2 = (r, d')"
        using assms(1) w r1 h Inr by (simp add: atomic_commit_def)
      from swap_in_files [OF this assms(2-4), of "body @ [10]"] c b wt assms(2-4)
      show ?thesis by (auto split: sum.splits if_splits)
    next
      case (Inl e)
      with hl wt assms(6) obtain x where x: "e = Io x" "dk_files d2 = dk_files d1"
          "io_kind_of x = NotFound \<Longrightarrow> dk_files d1 path = None" by auto
      show ?thesis
      proof (cases "io_kind_of x = NotFound")
        case True
        then have "swap_in temp backup path False d2 = (r, d')"
          using assms(1) w r1 h Inl x by (simp add: atomic_commit_def)
        from swap_in_files [OF this assms(2-4), of "body @ [10]"] x(2) x(3) [OF True] b wt assms(2-4)
        show ?thesis by (auto split: sum.splits if_splits)
      next
        case False
        with assms w r1 h Inl x b wt show ?thesis by (auto simp: atomic_commit_def)
      qed
    qed
  qed
qed

lemma temp_backup_distinct: "temp_name a \<noteq> backup_name b"
proof
  assume "temp_name a = backup_name b"
  then have "rev (temp_name a) = rev (backup_name b)" by simp
  then show False by (simp add: temp_name_def backup_name_def)
qed

lemma atomic_files:
  assumes "atomic draws path body d = (r, d')" and "genuine (dk_script d)"
    and "\<And>x. path \<noteq> temp_name x" "\<And>x. path \<noteq> backup_name x"
    and "\<And>x. snd draws = Some x \<Longrightarrow> dk_files d (backup_name x) = None"
  shows "(\<forall>q. (\<forall>x. q \<noteq> temp_name x) \<longrightarrow> (\<forall>x. q \<noteq> backup_name x) \<longrightarrow> q \<noteq> path \<longrightarrow> dk_files d' q = dk_files d q)
    \<and> (case r of Inr _ \<Rightarrow> dk_files d' path = Some (body @ [10])
       | Inl e \<Rightarrow> dk_files d' path = dk_files d path \<or> e = rollback_failed \<and> dk_files d' path = Some (body @ [10]))"
proof (cases "\<exists>r1 r2. draws = (Some r1, Some r2)")
  case False
  then have "r = Inl (Msg ''secure random unavailable'')" "d' = d"
    using assms(1) by (auto simp: atomic_def split: prod.splits option.splits)
  then show ?thesis by simp
next
  case True
  then obtain r1 r2 where dr: "draws = (Some r1, Some r2)" by blast
  obtain c d1 where c: "atomic_commit (temp_name r1) (backup_name r2) path body d = (c, d1)" by fastforce
  have "temp_name r1 \<noteq> path" "backup_name r2 \<noteq> path" using assms(3,4) by metis+
  note cf = atomic_commit_files [OF c this temp_backup_distinct _ assms(2)]
  have rm: "dk_files (snd (fs_remove (backup_name r2) x)) path = dk_files x path"
      "dk_files (snd (fs_remove (temp_name r1) x)) path = dk_files x path" for x
    using assms(3,4) by (simp_all add: fs_remove_other)
  have cf': "(\<forall>q. q \<notin> {temp_name r1, backup_name r2, path} \<longrightarrow> dk_files d1 q = dk_files d q)"
    "case c of Inr _ \<Rightarrow> dk_files d1 path = Some (body @ [10])
       | Inl (e, keep) \<Rightarrow> if keep then e = rollback_failed \<and> dk_files d1 path = Some (body @ [10])
                        else dk_files d1 path = dk_files d path"
    using cf assms(5) dr by simp_all
  show ?thesis
    using assms(1) dr c cf' rm
    by (auto simp: atomic_def Let_def fs_remove_other split: sum.splits prod.splits bool.splits if_splits)
qed

text \<open>
  C16: saving is all or nothing. Whatever system calls fail, and wherever the process dies, the file
  holds either its complete old content or the complete new text; success means the new one, and an
  error means the old one, except for the explicit error that the rollback failed as well. No other
  file of the directory is touched.
\<close>

theorem atomic_all_or_nothing:
  assumes "genuine (dk_script d)" and "\<And>x. path \<noteq> temp_name x" and "\<And>x. path \<noteq> backup_name x"
    and "\<And>x. snd draws = Some x \<Longrightarrow> dk_files d (backup_name x) = None"
    and "atomic draws path body d = (r, d')"
  shows "dk_files d' path \<in> {dk_files d path, Some (body @ [10])}
    \<and> (r = Inr () \<longrightarrow> dk_files d' path = Some (body @ [10]))
    \<and> (\<forall>e. r = Inl e \<longrightarrow> e \<noteq> rollback_failed \<longrightarrow> dk_files d' path = dk_files d path)
    \<and> (\<forall>q. (\<forall>x. q \<noteq> temp_name x \<and> q \<noteq> backup_name x) \<longrightarrow> q \<noteq> path \<longrightarrow> dk_files d' q = dk_files d q)"
  using atomic_files [OF assms(5,1-4)] by (auto split: sum.splits)

definition demo_disk :: "call list \<Rightarrow> disk" where
  "demo_disk s = \<lparr>dk_files = [''config.json'' \<mapsto> [1, 10]], dk_script = s\<rparr>"

lemma config_json_plain: "''config.json'' \<noteq> temp_name x" "''config.json'' \<noteq> backup_name x"
  by (simp_all add: temp_name_def backup_name_def)

text \<open>The directory cannot be synced after the rename: the old file comes back.\<close>

theorem atomic_all_or_nothing_witness:
  "dk_files (snd (atomic (Some [1], Some [2]) ''config.json'' [7]
     (demo_disk (replicate 8 COk @ [CErr (IoError OtherIo (Some 5) ''EIO'') 0] @ replicate 4 COk))))
     ''config.json'' \<in> {Some [1, 10], Some ([7] @ [10])}"
proof -
  let ?d = "demo_disk (replicate 8 COk @ [CErr (IoError OtherIo (Some 5) ''EIO'') 0] @ replicate 4 COk)"
  obtain r d' where a: "atomic (Some [1], Some [2]) ''config.json'' [7] ?d = (r, d')" by fastforce
  have "genuine (dk_script ?d)" by (simp add: genuine_def demo_disk_def list_all_iff)
  from atomic_all_or_nothing [OF this config_json_plain _ a] a show ?thesis
    by (simp add: demo_disk_def backup_name_def)
qed

section \<open>The store\<close>

text \<open>The encodings of the three files.\<close>

record codec =
  enc_config :: "config \<Rightarrow> u8 list"
  dec_config :: "u8 list \<Rightarrow> config option"
  enc_identity :: "identity \<Rightarrow> u8 list"
  dec_identity :: "u8 list \<Rightarrow> identity option"
  enc_hosts :: "host list \<Rightarrow> u8 list"
  dec_hosts :: "u8 list \<Rightarrow> host list option"

record store =
  so_disk :: disk
  so_config :: config
  so_identity :: identity
  so_hosts :: "host list"

type_synonym draws = "u8 list option \<times> u8 list option"

definition store_read :: "(u8 list \<Rightarrow> 'a option) \<Rightarrow> string \<Rightarrow> disk \<Rightarrow> ('a, disk) outcome" where
  "store_read dec path d =
     sbind (fs_read path d) (\<lambda>content d.
     sbind (fs_other d) (\<lambda>_ d.
     sbind (fs_other d) (\<lambda>_ d.
       if \<not> length content \<le> 1024 * 1024 then (Inl (Msg ''state file exceeds limit''), d)
       else case dec content of None \<Rightarrow> (Inl (Msg ''invalid JSON''), d) | Some x \<Rightarrow> (Inr x, d))))"

datatype flock = Locked | HeldByOther | LockError io_error

definition already_running :: err where
  "already_running = Msg ''altdb is already running''"

text \<open>Creating and locking the state directory: \<open>is_link\<close> is what \<open>symlink_metadata\<close> finds.\<close>

definition store_lock :: "bool \<Rightarrow> flock \<Rightarrow> disk \<Rightarrow> (unit, disk) outcome" where
  "store_lock is_link lock d =
     sbind (fs_other d) (\<lambda>_ d.
     sbind (fs_other d) (\<lambda>_ d.
       if is_link then (Inl (Msg ''state directory must not be a symlink''), d)
       else sbind (fs_other d) (\<lambda>_ d.
            sbind (fs_other d) (\<lambda>_ d.
              case lock of
                Locked \<Rightarrow> (Inr (), d)
              | HeldByOther \<Rightarrow> (Inl already_running, d)
              | LockError e \<Rightarrow> (Inl (Io e), d)))))"

fun check_hosts :: "key_check \<Rightarrow> host list \<Rightarrow> err + unit" where
  "check_hosts kc [] = Inr ()"
| "check_hosts kc (h # hs) =
     rbind (kc (h_public_key h)) (\<lambda>(fp, _).
     rbind (ensure (fp = h_fingerprint h) (Msg ''host fingerprint mismatch'')) (\<lambda>_. check_hosts kc hs))"

text \<open>A file that is read when it exists and made otherwise.\<close>

definition load_or_make ::
    "(u8 list \<Rightarrow> 'a option) \<Rightarrow> ('a \<Rightarrow> u8 list) \<Rightarrow> (err + 'a) \<Rightarrow> draws \<Rightarrow> string \<Rightarrow> disk \<Rightarrow> ('a, disk) outcome" where
  "load_or_make dec enc fresh draws path d =
     (let (present, d) = fs_exists path d
      in if present then store_read dec path d
         else (case fresh of
             Inl e \<Rightarrow> (Inl e, d)
           | Inr x \<Rightarrow> sbind (atomic draws path (enc x) d) (\<lambda>_ d. (Inr x, d))))"

definition store_open ::
    "codec \<Rightarrow> key_check \<Rightarrow> bool \<Rightarrow> flock \<Rightarrow> (err + identity) \<Rightarrow> draws \<Rightarrow> draws \<Rightarrow> disk \<Rightarrow> (store, disk) outcome" where
  "store_open cd kc is_link lock fresh draws1 draws2 d =
     sbind (store_lock is_link lock d) (\<lambda>_ d.
     sbind (load_or_make (dec_config cd) (enc_config cd) (Inr default_config) draws1 ''config.json'' d) (\<lambda>c d.
     case config_validate c of
       Inl e \<Rightarrow> (Inl e, d)
     | Inr _ \<Rightarrow>
         sbind (load_or_make (dec_identity cd) (enc_identity cd) fresh draws2 ''identity.json'' d) (\<lambda>i d.
         let (present, d) = fs_exists ''hosts.json'' d
         in sbind (if present then store_read (dec_hosts cd) ''hosts.json'' d else (Inr [], d)) (\<lambda>hosts d.
              (rbind (ensure (length hosts \<le> MAX_HOSTS) (Msg ''too many stored hosts'')) (\<lambda>_.
               rbind (check_hosts kc hosts) (\<lambda>_.
                 Inr \<lparr>so_disk = d, so_config = c, so_identity = i, so_hosts = hosts\<rparr>)), d)))))"

text \<open>Saving the hosts: memory follows only after the file.\<close>

definition save_hosts :: "codec \<Rightarrow> draws \<Rightarrow> host list \<Rightarrow> 'a \<Rightarrow> store \<Rightarrow> ('a, store) outcome" where
  "save_hosts cd draws hosts x s =
     (case atomic draws ''hosts.json'' (enc_hosts cd hosts) (so_disk s) of
        (Inl e, d) \<Rightarrow> (Inl e, s\<lparr>so_disk := d\<rparr>)
      | (Inr _, d) \<Rightarrow> (Inr x, s\<lparr>so_disk := d, so_hosts := hosts\<rparr>))"

definition store_configure :: "codec \<Rightarrow> draws \<Rightarrow> config \<Rightarrow> store \<Rightarrow> (unit, store) outcome" where
  "store_configure cd draws c s =
     (case config_validate c of
        Inl e \<Rightarrow> (Inl e, s)
      | Inr _ \<Rightarrow>
          (case atomic draws ''config.json'' (enc_config cd c) (so_disk s) of
             (Inl e, d) \<Rightarrow> (Inl e, s\<lparr>so_disk := d\<rparr>)
           | (Inr _, d) \<Rightarrow> (Inr (), s\<lparr>so_disk := d, so_config := c\<rparr>)))"

text \<open>\<open>split_whitespace().next().unwrap_or_default()\<close>.\<close>

definition first_word :: "string \<Rightarrow> string" where
  "first_word s = concat (takeWhile (\<lambda>c. \<not> is_whitespace c) (dropWhile is_whitespace (utf8_chars s)))"

definition store_pair ::
    "codec \<Rightarrow> key_check \<Rightarrow> draws \<Rightarrow> u64 \<Rightarrow> string \<Rightarrow> store \<Rightarrow> (string, store) outcome" where
  "store_pair cd kc draws now key s =
     (case kc key of
        Inl e \<Rightarrow> (Inl e, s)
      | Inr (fp, name) \<Rightarrow>
          if list_ex (\<lambda>h. h_fingerprint h = fp) (so_hosts s)
          then save_hosts cd draws (so_hosts s) fp s
          else if \<not> length (so_hosts s) < MAX_HOSTS then (Inl (Msg ''paired host limit reached''), s)
          else save_hosts cd draws
            (so_hosts s @ [\<lparr>h_fingerprint = fp, h_public_key = first_word key, h_name = name,
                            h_paired_at = now, h_last_connected = None\<rparr>]) fp s)"

definition store_revoke :: "codec \<Rightarrow> draws \<Rightarrow> string \<Rightarrow> store \<Rightarrow> (unit, store) outcome" where
  "store_revoke cd draws fp s =
     save_hosts cd draws (filter (\<lambda>h. h_fingerprint h \<noteq> fp) (so_hosts s)) () s"

text \<open>\<open>iter_mut().find\<close>: the first host with the fingerprint.\<close>

fun touch_host :: "string \<Rightarrow> u64 \<Rightarrow> host list \<Rightarrow> host list option" where
  "touch_host fp now [] = None"
| "touch_host fp now (h # hs) =
     (if h_fingerprint h = fp then Some (h\<lparr>h_last_connected := Some now\<rparr> # hs)
      else map_option ((#) h) (touch_host fp now hs))"

definition store_connected :: "codec \<Rightarrow> draws \<Rightarrow> u64 \<Rightarrow> string \<Rightarrow> store \<Rightarrow> (unit, store) outcome" where
  "store_connected cd draws now fp s =
     (case touch_host fp now (so_hosts s) of
        None \<Rightarrow> (Inl (Msg ''host is not paired''), s)
      | Some hosts \<Rightarrow> save_hosts cd draws hosts () s)"


section \<open>Facts about stored keys\<close>

lemma concat_utf8_chars [simp]: "concat (utf8_chars s) = s"
  by (induction s rule: utf8_chars.induct) auto

lemma utf8_chars_prefix: "utf8_chars (concat (take k (utf8_chars s))) = take k (utf8_chars s)"
proof (induction s arbitrary: k rule: utf8_chars.induct)
  case 1
  then show ?case by simp
next
  case (2 c s)
  show ?case
  proof (cases k)
    case 0
    then show ?thesis by simp
  next
    case (Suc j)
    let ?n = "utf8_extra c"
    have "utf8_chars (c # take ?n s @ concat (take j (utf8_chars (drop ?n s))))
        = (c # take ?n s) # take j (utf8_chars (drop ?n s))"
    proof (cases "?n \<le> length s")
      case True
      then show ?thesis using "2.IH" [of j] by simp
    next
      case False
      then show ?thesis by simp
    qed
    with Suc show ?thesis by simp
  qed
qed

lemma takeWhile_is_take: "\<exists>k. takeWhile P xs = take k xs"
  by (metis takeWhile_eq_take)

lemma host_key_rechecks:
  assumes "host_key b64 spki key = Inr (fp, name)" and "b64 [] = Some []"
  shows "\<exists>n. host_key b64 spki (first_word key) = Inr (fp, n)"
proof -
  define w where "w = takeWhile (\<lambda>c. \<not> is_whitespace c) (utf8_chars key)"
  have len: "length key \<le> 8190" "NUL \<notin> set key" using assms(1) by (auto simp: host_key_def)
  obtain raw k where raw: "b64 (concat w) = Some raw" "android_key_fingerprint spki raw = Some k" "fp = hex k"
    using assms(1)
    by (auto simp: host_key_def splitn2_ws_def w_def Let_def split: option.splits)
  have "length raw = 524" using raw(2) by (auto simp: android_key_fingerprint_def split: if_splits)
  then have "w \<noteq> []" using raw(1) assms(2) by auto
  then have "\<not> is_whitespace (hd (utf8_chars key))" "utf8_chars key \<noteq> []"
    unfolding w_def by (cases "utf8_chars key"; auto split: if_splits)+
  then have "dropWhile is_whitespace (utf8_chars key) = utf8_chars key"
    by (cases "utf8_chars key") auto
  then have fw: "first_word key = concat w" by (simp add: first_word_def w_def)
  obtain j where j: "w = take j (utf8_chars key)" using takeWhile_is_take w_def by blast
  have chars: "utf8_chars (concat w) = w" unfolding j by (rule utf8_chars_prefix)
  have key: "key = concat w @ concat (drop j (utf8_chars key))"
    unfolding j by (metis append_take_drop_id concat_append concat_utf8_chars)
  then have sub: "length (concat w) \<le> length key" "set (concat w) \<subseteq> set key"
    by (metis length_append le_add1, metis set_append sup_ge1)
  have "\<forall>c \<in> set w. \<not> is_whitespace c" unfolding w_def by (auto dest: set_takeWhileD)
  then have tw: "takeWhile (\<lambda>c. \<not> is_whitespace c) w = w" "dropWhile (\<lambda>c. \<not> is_whitespace c) w = []"
    by (simp_all add: takeWhile_eq_all_conv dropWhile_eq_Nil_conv)
  have "NUL \<notin> set (concat w)" using sub(2) len(2) by blast
  with sub(1) len(1) raw show ?thesis
    unfolding fw host_key_def splitn2_ws_def Let_def chars tw by simp
qed

section \<open>Memory and disk stay in step\<close>

lemma check_hosts_iff:
  "check_hosts kc hs = Inr () \<longleftrightarrow> (\<forall>h \<in> set hs. \<exists>n. kc (h_public_key h) = Inr (h_fingerprint h, n))"
  by (induction hs) (auto split: prod.splits)

definition hosts_stored :: "codec \<Rightarrow> store \<Rightarrow> bool" where
  "hosts_stored cd s \<longleftrightarrow>
     (case dk_files (so_disk s) ''hosts.json'' of
        None \<Rightarrow> so_hosts s = []
      | Some b \<Rightarrow> b = enc_hosts cd (so_hosts s) @ [10])"

definition store_inv :: "codec \<Rightarrow> key_check \<Rightarrow> store \<Rightarrow> bool" where
  "store_inv cd kc s \<longleftrightarrow>
     dk_files (so_disk s) ''config.json'' = Some (enc_config cd (so_config s) @ [10])
       \<and> config_validate (so_config s) = Inr ()
       \<and> dk_files (so_disk s) ''identity.json'' = Some (enc_identity cd (so_identity s) @ [10])
       \<and> hosts_stored cd s \<and> length (so_hosts s) \<le> MAX_HOSTS
       \<and> distinct (map h_fingerprint (so_hosts s)) \<and> check_hosts kc (so_hosts s) = Inr ()"

text \<open>The random names are not in use.\<close>

definition fresh_draws :: "draws \<Rightarrow> store \<Rightarrow> bool" where
  "fresh_draws draws s \<longleftrightarrow>
     (\<forall>x. snd draws = Some x \<longrightarrow> dk_files (so_disk s) (backup_name x) = None)"

lemma json_plain:
  "''hosts.json'' \<noteq> temp_name x" "''hosts.json'' \<noteq> backup_name x"
  "''identity.json'' \<noteq> temp_name x" "''identity.json'' \<noteq> backup_name x"
  by (simp_all add: temp_name_def backup_name_def)

lemmas plain_names = config_json_plain json_plain

definition hosts_ok :: "key_check \<Rightarrow> host list \<Rightarrow> bool" where
  "hosts_ok kc hs \<longleftrightarrow>
     length hs \<le> MAX_HOSTS \<and> distinct (map h_fingerprint hs) \<and> check_hosts kc hs = Inr ()"

lemma save_hosts_inv:
  assumes "store_inv cd kc s" and "genuine (dk_script (so_disk s))" and "fresh_draws draws s"
    and "hosts_ok kc hs" and "save_hosts cd draws hs x s = (r, s')"
  shows "(r = Inl rollback_failed \<or> store_inv cd kc s')
    \<and> (case r of Inl _ \<Rightarrow> so_hosts s' = so_hosts s | Inr y \<Rightarrow> y = x \<and> so_hosts s' = hs)
    \<and> so_config s' = so_config s \<and> so_identity s' = so_identity s"
proof -
  obtain a d where a: "atomic draws ''hosts.json'' (enc_hosts cd hs) (so_disk s) = (a, d)" by fastforce
  have "snd draws = Some x \<Longrightarrow> dk_files (so_disk s) (backup_name x) = None" for x
    using assms(3) by (simp add: fresh_draws_def)
  note f = atomic_files [OF a assms(2) json_plain(1,2) this]
  show ?thesis
    using assms(1,4,5) a f plain_names
    by (cases a) (auto simp: save_hosts_def store_inv_def hosts_stored_def hosts_ok_def split: option.splits)
qed

lemma touch_host_keeps:
  "touch_host fp now hs = Some hs' \<Longrightarrow>
     map h_fingerprint hs' = map h_fingerprint hs \<and> map h_public_key hs' = map h_public_key hs"
  by (induction hs arbitrary: hs') (auto split: if_splits)

lemma check_hosts_cong:
  "map h_fingerprint hs = map h_fingerprint hs' \<Longrightarrow> map h_public_key hs = map h_public_key hs' \<Longrightarrow>
     check_hosts kc hs = check_hosts kc hs'"
proof (induction hs arbitrary: hs')
  case Nil
  then show ?case by simp
next
  case (Cons h hs)
  then obtain k ks where k: "hs' = k # ks" by (cases hs') auto
  with Cons.prems have "check_hosts kc hs = check_hosts kc ks" by (intro Cons.IH) auto
  with Cons.prems k show ?case by simp
qed

text \<open>The four operations, as one.\<close>

datatype store_op = OpConfigure config | OpPair u64 string | OpRevoke string | OpConnected u64 string

definition store_apply ::
    "codec \<Rightarrow> key_check \<Rightarrow> draws \<Rightarrow> store_op \<Rightarrow> store \<Rightarrow> (unit, store) outcome" where
  "store_apply cd kc draws op s =
     (case op of
        OpConfigure c \<Rightarrow> store_configure cd draws c s
      | OpPair now key \<Rightarrow> sbind (store_pair cd kc draws now key s) (\<lambda>_ s. (Inr (), s))
      | OpRevoke fp \<Rightarrow> store_revoke cd draws fp s
      | OpConnected now fp \<Rightarrow> store_connected cd draws now fp s)"

lemma store_configure_inv:
  assumes "store_inv cd kc s" and "genuine (dk_script (so_disk s))" and "fresh_draws draws s"
    and "store_configure cd draws c s = (r, s')"
  shows "(r = Inl rollback_failed \<or> store_inv cd kc s')
    \<and> (is_ok r \<or> so_config s' = so_config s) \<and> so_hosts s' = so_hosts s \<and> so_identity s' = so_identity s"
proof -
  obtain a d where a: "atomic draws ''config.json'' (enc_config cd c) (so_disk s) = (a, d)" by fastforce
  have "snd draws = Some x \<Longrightarrow> dk_files (so_disk s) (backup_name x) = None" for x
    using assms(3) by (simp add: fresh_draws_def)
  note f = atomic_files [OF a assms(2) config_json_plain this]
  show ?thesis
  proof (cases "is_ok (config_validate c)")
    case False
    with assms(1,4) show ?thesis by (auto simp: not_is_ok_iff store_configure_def)
  next
    case True
    then have v: "config_validate c = Inr ()" by (auto simp: is_ok_iff)
    have files: "dk_files d ''hosts.json'' = dk_files (so_disk s) ''hosts.json''"
        "dk_files d ''identity.json'' = dk_files (so_disk s) ''identity.json''"
      using f plain_names by auto
    show ?thesis
    proof (cases a)
      case (Inl e)
      then have "r = Inl e" "s' = s\<lparr>so_disk := d\<rparr>" using assms(4) a v by (auto simp: store_configure_def)
      with assms(1) f Inl files show ?thesis
        by (auto simp: store_inv_def hosts_stored_def split: option.splits)
    next
      case (Inr u)
      then have "r = Inr ()" "s' = s\<lparr>so_disk := d, so_config := c\<rparr>"
        using assms(4) a v by (auto simp: store_configure_def)
      with assms(1) f Inr files v show ?thesis
        by (auto simp: store_inv_def hosts_stored_def split: option.splits)
    qed
  qed
qed

lemma store_pair_hosts_ok:
  assumes "hosts_ok (host_key b64 spki) hs" and "host_key b64 spki key = Inr (fp, name)"
    and "b64 [] = Some []" and "\<not> list_ex (\<lambda>h. h_fingerprint h = fp) hs" and "length hs < MAX_HOSTS"
    and "h_fingerprint h = fp" and "h_public_key h = first_word key"
  shows "hosts_ok (host_key b64 spki) (hs @ [h])"
  using assms host_key_rechecks [OF assms(2,3)]
  by (auto simp: hosts_ok_def check_hosts_iff list_ex_iff image_iff)

text \<open>
  C17: the store never contradicts its files. Each of its operations keeps the configuration, the
  identity and the hosts equal to what the files hold, the configuration valid, at most 32 hosts
  with distinct fingerprints, each the fingerprint of its stored key; and an operation that fails
  changes nothing in memory. The one exception is the explicit error that the rollback failed.
\<close>

theorem store_memory_disk:
  assumes "store_inv cd (host_key b64 spki) s" and "b64 [] = Some []"
    and "genuine (dk_script (so_disk s))" and "fresh_draws draws s"
    and "store_apply cd (host_key b64 spki) draws op s = (r, s')"
  shows "(r = Inl rollback_failed \<or> store_inv cd (host_key b64 spki) s')
    \<and> (is_ok r \<or> so_config s' = so_config s \<and> so_hosts s' = so_hosts s) \<and> so_identity s' = so_identity s"
proof -
  have ok: "hosts_ok (host_key b64 spki) (so_hosts s)"
    using assms(1) by (simp add: store_inv_def hosts_ok_def)
  note save = save_hosts_inv [OF assms(1,3,4)]
  show ?thesis
  proof (cases op)
    case (OpConfigure c)
    with assms(5) store_configure_inv [OF assms(1,3,4)] show ?thesis by (auto simp: store_apply_def)
  next
    case (OpPair now key)
    show ?thesis
    proof (cases "host_key b64 spki key")
      case (Inl e)
      with OpPair assms(1,5) show ?thesis by (auto simp: store_apply_def store_pair_def)
    next
      case (Inr p)
      obtain fp name where p: "p = (fp, name)" by fastforce
      define hs where "hs = (if list_ex (\<lambda>h. h_fingerprint h = fp) (so_hosts s) then so_hosts s
        else so_hosts s @ [\<lparr>h_fingerprint = fp, h_public_key = first_word key, h_name = name,
                            h_paired_at = now, h_last_connected = None\<rparr>])"
      obtain a s1 where sv: "save_hosts cd draws hs fp s = (a, s1)" by fastforce
      show ?thesis
      proof (cases "list_ex (\<lambda>h. h_fingerprint h = fp) (so_hosts s) \<or> length (so_hosts s) < MAX_HOSTS")
        case True
        then have "hosts_ok (host_key b64 spki) hs"
          using ok store_pair_hosts_ok [OF ok Inr [unfolded p] assms(2)] by (auto simp: hs_def)
        moreover have "store_pair cd (host_key b64 spki) draws now key s = (a, s1)"
          using True Inr p sv by (auto simp: store_pair_def hs_def split: if_splits)
        ultimately show ?thesis
          using save [OF _ sv] OpPair assms(5) by (cases a) (auto simp: store_apply_def)
      next
        case False
        with OpPair Inr p assms(1,5) show ?thesis by (auto simp: store_apply_def store_pair_def)
      qed
    qed
  next
    case (OpRevoke fp)
    have "hosts_ok (host_key b64 spki) (filter (\<lambda>h. h_fingerprint h \<noteq> fp) (so_hosts s))"
      using ok by (auto simp: hosts_ok_def check_hosts_iff distinct_map_filter
          intro: le_trans [OF length_filter_le])
    from save [OF this] assms(5) OpRevoke show ?thesis
      by (fastforce simp: store_apply_def store_revoke_def split: sum.splits)
  next
    case (OpConnected now fp)
    show ?thesis
    proof (cases "touch_host fp now (so_hosts s)")
      case None
      with OpConnected assms(1,5) show ?thesis by (auto simp: store_apply_def store_connected_def)
    next
      case (Some hs)
      note t = touch_host_keeps [OF Some]
      have "length hs = length (so_hosts s)" using t by (metis length_map)
      with ok t check_hosts_cong [of hs "so_hosts s"] have "hosts_ok (host_key b64 spki) hs"
        by (simp add: hosts_ok_def)
      from save [OF this] assms(5) OpConnected Some show ?thesis
        by (fastforce simp: store_apply_def store_connected_def split: sum.splits)
    qed
  qed
qed

text \<open>A store with one byte per value, no hosts, and a key check that refuses everything.\<close>

definition demo_codec :: codec where
  "demo_codec =
     \<lparr>enc_config = (\<lambda>c. [if cf_enabled c then 1 else 0]),
      dec_config = (\<lambda>b. if b = [1, 10] then Some default_config else None),
      enc_identity = (\<lambda>_. [2]), dec_identity = (\<lambda>_. Some \<lparr>id_key = [], id_certificate = [], id_guid = []\<rparr>),
      enc_hosts = (\<lambda>_. [3]), dec_hosts = (\<lambda>_. Some [])\<rparr>"

definition demo_store :: "call list \<Rightarrow> store" where
  "demo_store script =
     \<lparr>so_disk = \<lparr>dk_files = [''config.json'' \<mapsto> [1, 10], ''identity.json'' \<mapsto> [2, 10]], dk_script = script\<rparr>,
      so_config = default_config, so_identity = \<lparr>id_key = [], id_certificate = [], id_guid = []\<rparr>,
      so_hosts = []\<rparr>"

lemma demo_store_inv: "store_inv demo_codec kc (demo_store script)"
  by (simp add: store_inv_def demo_store_def demo_codec_def default_config_def config_validate_def
      hosts_stored_def)

theorem store_memory_disk_witness:
  "so_config (snd (store_apply demo_codec (host_key (\<lambda>s. Some []) (\<lambda>_ _. None)) (Some [1], Some [2])
       (OpConfigure (default_config\<lparr>cf_fixed_port := 80\<rparr>)) (demo_store []))) = default_config"
proof -
  let ?c = "default_config\<lparr>cf_fixed_port := 80\<rparr>" and ?kc = "host_key (\<lambda>s. Some []) (\<lambda>_ _. None)"
  obtain r s' where a: "store_apply demo_codec ?kc (Some [1], Some [2]) (OpConfigure ?c) (demo_store []) = (r, s')"
    by fastforce
  have fresh: "fresh_draws (Some [1], Some [2]) (demo_store [])" "genuine (dk_script (so_disk (demo_store [])))"
    by (simp_all add: fresh_draws_def demo_store_def backup_name_def genuine_def)
  have "\<not> is_ok r"
    using a by (auto simp: store_apply_def store_configure_def config_validate_def)
  with store_memory_disk [OF demo_store_inv refl fresh(2,1) a] have "so_config s' = so_config (demo_store [])"
    by simp
  with a show ?thesis by (simp add: demo_store_def)
qed

section \<open>Restarting\<close>

text \<open>A disk on which at least the next \<open>n\<close> calls work.\<close>

definition healthy :: "nat \<Rightarrow> disk \<Rightarrow> bool" where
  "healthy n d \<longleftrightarrow> n \<le> length (dk_script d) \<and> list_all ((=) COk) (dk_script d)"

lemma syscall_healthy:
  assumes "healthy (Suc n) d"
  obtains d' where "syscall pa op d = ((case fst (op (dk_files d)) of Inl e \<Rightarrow> Inl (Io e) | Inr x \<Rightarrow> Inr x), d')"
    and "dk_files d' = snd (op (dk_files d))" and "healthy n d'"
proof -
  obtain s where s: "dk_script d = COk # s" "n \<le> length s" "list_all ((=) COk) s"
    using assms by (cases "dk_script d") (auto simp: healthy_def)
  then show thesis
    by (intro that [of "d\<lparr>dk_files := snd (op (dk_files d)), dk_script := s\<rparr>"])
      (simp_all add: healthy_def syscall_def case_prod_unfold Let_def)
qed

lemma fs_other_healthy:
  assumes "healthy (Suc n) d"
  obtains d' where "fs_other d = (Inr (), d')" and "dk_files d' = dk_files d" and "healthy n d'"
  using syscall_healthy [OF assms, of no_partial "\<lambda>f. (Inr (), f)"] by (auto simp: fs_other_def)

lemma store_lock_healthy:
  assumes "healthy (n + 4) d"
  obtains d' where "store_lock False Locked d = (Inr (), d')" and "dk_files d' = dk_files d" and "healthy n d'"
proof -
  obtain d1 where 1: "fs_other d = (Inr (), d1)" "dk_files d1 = dk_files d" "healthy (Suc (Suc (Suc n))) d1"
    using assms by (auto simp: numeral_eq_Suc elim: fs_other_healthy)
  obtain d2 where 2: "fs_other d1 = (Inr (), d2)" "dk_files d2 = dk_files d1" "healthy (Suc (Suc n)) d2"
    using 1(3) by (rule fs_other_healthy)
  obtain d3 where 3: "fs_other d2 = (Inr (), d3)" "dk_files d3 = dk_files d2" "healthy (Suc n) d3"
    using 2(3) by (rule fs_other_healthy)
  obtain d4 where 4: "fs_other d3 = (Inr (), d4)" "dk_files d4 = dk_files d3" "healthy n d4"
    using 3(3) by (rule fs_other_healthy)
  show thesis using 1 2 3 4 by (intro that [of d4]) (simp_all add: store_lock_def)
qed

lemma store_read_healthy:
  assumes "healthy (n + 3) d" and "dk_files d p = Some c" and "length c \<le> 1024 * 1024" and "dec c = Some x"
  obtains d' where "store_read dec p d = (Inr x, d')" and "dk_files d' = dk_files d" and "healthy n d'"
proof -
  have h: "healthy (Suc (Suc (Suc n))) d" using assms(1) by (simp add: numeral_eq_Suc)
  obtain d1 where 1: "fs_read p d = (Inr c, d1)" "dk_files d1 = dk_files d" "healthy (Suc (Suc n)) d1"
    using syscall_healthy [OF h, of no_partial "\<lambda>f. case f p of
        None \<Rightarrow> (Inl (IoError NotFound (Some 2) ''No such file''), f) | Some c \<Rightarrow> (Inr c, f)"] assms(2)
    by (auto simp: fs_read_def)
  obtain d2 where 2: "fs_other d1 = (Inr (), d2)" "dk_files d2 = dk_files d1" "healthy (Suc n) d2"
    using 1(3) by (rule fs_other_healthy)
  obtain d3 where 3: "fs_other d2 = (Inr (), d3)" "dk_files d3 = dk_files d2" "healthy n d3"
    using 2(3) by (rule fs_other_healthy)
  show thesis using 1 2 3 assms(3,4) by (intro that [of d3]) (simp_all add: store_read_def)
qed

lemma fs_exists_healthy:
  assumes "healthy (Suc n) d"
  obtains d' where "fs_exists p d = (dk_files d p \<noteq> None, d')" and "dk_files d' = dk_files d" and "healthy n d'"
proof -
  let ?op = "\<lambda>f :: string \<Rightarrow> u8 list option. (Inr (f p \<noteq> None) :: io_error + bool, f)"
  obtain d' where d': "syscall no_partial ?op d
      = ((case fst (?op (dk_files d)) of Inl e \<Rightarrow> Inl (Io e) | Inr x \<Rightarrow> Inr x), d')"
      "dk_files d' = snd (?op (dk_files d))" "healthy n d'"
    by (rule syscall_healthy [OF assms])
  show thesis
  proof (rule that)
    show "fs_exists p d = (dk_files d p \<noteq> None, d')"
      unfolding fs_exists_def d'(1) by (simp only: Let_def fst_conv prod.case sum.case)
    show "dk_files d' = dk_files d" using d'(2) by (simp only: snd_conv)
  qed (rule d'(3))
qed

lemma load_healthy:
  assumes "healthy (n + 4) d" and "dk_files d p = Some c" and "length c \<le> 1024 * 1024" and "dec c = Some x"
  obtains d' where "load_or_make dec enc fresh draws p d = (Inr x, d')" and "dk_files d' = dk_files d"
    and "healthy n d'"
proof -
  have h: "healthy (Suc (n + 3)) d" using assms(1) by (simp add: numeral_eq_Suc)
  obtain d1 where 1: "fs_exists p d = (True, d1)" "dk_files d1 = dk_files d" "healthy (n + 3) d1"
    using fs_exists_healthy [OF h, of p] assms(2) by auto
  obtain d2 where "store_read dec p d1 = (Inr x, d2)" "dk_files d2 = dk_files d1" "healthy n d2"
    using store_read_healthy [OF 1(3), of p c dec x] 1(2) assms(2-4) by auto
  with 1 show thesis by (intro that [of d2]) (simp_all add: load_or_make_def)
qed

text \<open>
  C25: a restart loses nothing. Opening the state directory of a store whose files are in step, on a
  disk that works and with an encoding that can be read back, gives the same configuration,
  identity and hosts, and changes no file.
\<close>

theorem store_reopen:
  assumes "store_inv cd kc s"
    and "dec_config cd (enc_config cd (so_config s) @ [10]) = Some (so_config s)"
    and "dec_identity cd (enc_identity cd (so_identity s) @ [10]) = Some (so_identity s)"
    and "dec_hosts cd (enc_hosts cd (so_hosts s) @ [10]) = Some (so_hosts s)"
    and "length (enc_config cd (so_config s)) < 1024 * 1024"
    and "length (enc_identity cd (so_identity s)) < 1024 * 1024"
    and "length (enc_hosts cd (so_hosts s)) < 1024 * 1024"
    and "healthy 16 d" and "dk_files d = dk_files (so_disk s)"
  shows "\<exists>d'. store_open cd kc False Locked fresh dr1 dr2 d
      = (Inr \<lparr>so_disk = d', so_config = so_config s, so_identity = so_identity s, so_hosts = so_hosts s\<rparr>, d')
    \<and> dk_files d' = dk_files d"
proof -
  have inv: "dk_files d ''config.json'' = Some (enc_config cd (so_config s) @ [10])"
      "config_validate (so_config s) = Inr ()"
      "dk_files d ''identity.json'' = Some (enc_identity cd (so_identity s) @ [10])"
      "length (so_hosts s) \<le> MAX_HOSTS" "check_hosts kc (so_hosts s) = Inr ()"
      "case dk_files d ''hosts.json'' of None \<Rightarrow> so_hosts s = [] | Some b \<Rightarrow> b = enc_hosts cd (so_hosts s) @ [10]"
    using assms(1,9) by (simp_all add: store_inv_def hosts_stored_def)
  obtain d1 where 1: "store_lock False Locked d = (Inr (), d1)" "dk_files d1 = dk_files d" "healthy 12 d1"
    using store_lock_healthy [of 12 d] assms(8) by auto
  obtain d2 where 2: "load_or_make (dec_config cd) (enc_config cd) (Inr default_config) dr1 ''config.json'' d1
      = (Inr (so_config s), d2)" "dk_files d2 = dk_files d" "healthy 8 d2"
    using load_healthy [of 8 d1 "''config.json''" "enc_config cd (so_config s) @ [10]" "dec_config cd"
        "so_config s" "enc_config cd" "Inr default_config" dr1] 1(2,3) inv(1) assms(2,5) by auto
  obtain d3 where 3: "load_or_make (dec_identity cd) (enc_identity cd) fresh dr2 ''identity.json'' d2
      = (Inr (so_identity s), d3)" "dk_files d3 = dk_files d" "healthy (Suc 3) d3"
    using load_healthy [of 4 d2 "''identity.json''" "enc_identity cd (so_identity s) @ [10]"
        "dec_identity cd" "so_identity s" "enc_identity cd" fresh dr2] 2(2,3) inv(3) assms(3,6) by auto
  obtain d4 where 4: "fs_exists ''hosts.json'' d3 = (dk_files d ''hosts.json'' \<noteq> None, d4)"
      "dk_files d4 = dk_files d" "healthy (0 + 3) d4"
    using fs_exists_healthy [OF 3(3), of "''hosts.json''"] 3(2) by auto
  obtain d5 where 5: "(if dk_files d ''hosts.json'' \<noteq> None then store_read (dec_hosts cd) ''hosts.json'' d4
      else (Inr [], d4)) = (Inr (so_hosts s), d5)" "dk_files d5 = dk_files d"
  proof (cases "dk_files d ''hosts.json''")
    case None
    with inv(6) 4(2) show thesis by (intro that [of d4]) simp_all
  next
    case (Some b)
    with inv(6) have "dk_files d4 ''hosts.json'' = Some (enc_hosts cd (so_hosts s) @ [10])" using 4(2) by simp
    from store_read_healthy [OF 4(3) this, of "dec_hosts cd" "so_hosts s"] assms(4,7) that Some 4(2)
    show thesis by auto
  qed
  show ?thesis
    using 1(1) 2(1) 3(1) 4(1) 5 inv(2,4,5) by (simp add: store_open_def Let_def)
qed

theorem store_reopen_witness:
  "\<exists>d'. store_open demo_codec (\<lambda>_. Inl Base64Err) False Locked (Inl Base64Err) (None, None) (None, None)
       (so_disk (demo_store (replicate 16 COk)))
     = (Inr \<lparr>so_disk = d', so_config = default_config,
             so_identity = \<lparr>id_key = [], id_certificate = [], id_guid = []\<rparr>, so_hosts = []\<rparr>, d')"
proof -
  have h: "healthy 16 (so_disk (demo_store (replicate 16 COk)))"
    by (simp add: healthy_def demo_store_def list_all_iff)
  have c: "[if cf_enabled default_config then 1 else 0, 10] = [1, 10 :: u8]"
    by (simp add: default_config_def)
  from store_reopen [where fresh = "Inl Base64Err" and ?dr1.0 = "(None, None)" and ?dr2.0 = "(None, None)",
      OF demo_store_inv [of "\<lambda>_. Inl Base64Err" "replicate 16 COk"] _ _ _ _ _ _ h] show ?thesis
    by (auto simp: demo_codec_def demo_store_def c)
qed

end
