(* ===== verification/Pairing.thy ===== *)
theory Pairing
  imports Tls
begin

text \<open>
  Pairing a computer: the SPAKE2 session \<open>Pake\<close> (\<open>src/src/crypto.rs\<close>, whose C side is
  \<open>src/native/crypto.c\<close>) with its message counters, and the exchange of \<open>src/src/pairing.rs\<close>.
  BoringSSL's SPAKE2, HKDF and AES-GCM are parameters.
\<close>

section \<open>The password-authenticated session\<close>

text \<open>
  \<open>pk_start\<close> makes the context and our message from the secret, \<open>pk_process\<close> the shared key
  material from the peer's message, \<open>pk_derive\<close> the AEAD key. \<open>pk_seal\<close> and \<open>pk_open\<close> take the key,
  the nonce and the text.
\<close>

record ('ctx, 'key) pake_lib =
  pk_start :: "bool \<Rightarrow> u8 list \<Rightarrow> ('ctx \<times> u8 list) option"
  pk_process :: "'ctx \<Rightarrow> u8 list \<Rightarrow> u8 list option"
  pk_derive :: "u8 list \<Rightarrow> 'key option"
  pk_seal :: "'key \<Rightarrow> u8 list \<Rightarrow> u8 list \<Rightarrow> u8 list option"
  pk_open :: "'key \<Rightarrow> u8 list \<Rightarrow> u8 list \<Rightarrow> u8 list option"

record ('ctx, 'key) pake =
  pa_ctx :: "'ctx option"
  pa_key :: "'key option"
  pa_enc :: u64
  pa_dec :: u64
  pa_message :: "u8 list"

definition pake_new :: "('ctx, 'key) pake_lib \<Rightarrow> bool \<Rightarrow> u8 list \<Rightarrow> err + ('ctx, 'key) pake" where
  "pake_new lib server secret =
     (case pk_start lib server secret of
        None \<Rightarrow> Inl (Msg ''SPAKE2 initialization failed'')
      | Some (ctx, msg) \<Rightarrow>
          Inr \<lparr>pa_ctx = Some ctx, pa_key = None, pa_enc = 0, pa_dec = 0, pa_message = take 32 msg\<rparr>)"

text \<open>\<open>altdb_pake_finish\<close>: the context is used up even when the exchange fails.\<close>

definition pake_finish_c ::
    "('ctx, 'key) pake_lib \<Rightarrow> u8 list \<Rightarrow> ('ctx, 'key) pake \<Rightarrow> bool \<times> ('ctx, 'key) pake" where
  "pake_finish_c lib msg p =
     (case pa_ctx p of
        None \<Rightarrow> (False, p)
      | Some ctx \<Rightarrow>
          if pa_key p \<noteq> None then (False, p)
          else
            (let p = p\<lparr>pa_ctx := None\<rparr>
             in case pk_process lib ctx msg of
                  None \<Rightarrow> (False, p)
                | Some material \<Rightarrow>
                    (case pk_derive lib material of
                       None \<Rightarrow> (False, p)
                     | Some key \<Rightarrow> (True, p\<lparr>pa_key := Some key\<rparr>))))"

definition pake_finish ::
    "('ctx, 'key) pake_lib \<Rightarrow> u8 list \<Rightarrow> ('ctx, 'key) pake \<Rightarrow> (unit, ('ctx, 'key) pake) outcome" where
  "pake_finish lib other p =
     (if length other \<noteq> 32 then (Inl (Msg ''invalid SPAKE2 message length''), p)
      else (let (ok, p) = pake_finish_c lib other p
            in (ensure ok (Msg ''SPAKE2 exchange failed''), p)))"

text \<open>The nonce: the counter in eight little-endian bytes, then four zeros.\<close>

definition nonce_of :: "u64 \<Rightarrow> u8 list" where
  "nonce_of n = to_le64 n @ [0, 0, 0, 0]"

text \<open>\<open>altdb_pake_crypt\<close>: the counter of the direction moves only when the operation worked, and
  never wraps.\<close>

definition pake_crypt_c ::
    "('ctx, 'key) pake_lib \<Rightarrow> bool \<Rightarrow> u8 list \<Rightarrow> ('ctx, 'key) pake \<Rightarrow> u8 list option \<times> ('ctx, 'key) pake" where
  "pake_crypt_c lib encrypt input p =
     (case pa_key p of
        None \<Rightarrow> (None, p)
      | Some key \<Rightarrow>
          (let n = (if encrypt then pa_enc p else pa_dec p)
           in if n = - 1 then (None, p)
              else (case (if encrypt then pk_seal lib else pk_open lib) key (nonce_of n) input of
                  None \<Rightarrow> (None, p)
                | Some out \<Rightarrow>
                    (Some out, if encrypt then p\<lparr>pa_enc := pa_enc p + 1\<rparr> else p\<lparr>pa_dec := pa_dec p + 1\<rparr>))))"

definition pake_crypt ::
    "('ctx, 'key) pake_lib \<Rightarrow> bool \<Rightarrow> u8 list \<Rightarrow> ('ctx, 'key) pake \<Rightarrow> (u8 list, ('ctx, 'key) pake) outcome" where
  "pake_crypt lib encrypt input p =
     (if \<not> length input \<le> 16400 then (Inl (Msg ''pairing message too large''), p)
      else (case pake_crypt_c lib encrypt input p of
          (None, p) \<Rightarrow> (Inl (Msg ''pairing authentication failed''), p)
        | (Some out, p) \<Rightarrow> (Inr out, p)))"

fun pake_seal_all ::
    "('ctx, 'key) pake_lib \<Rightarrow> u8 list list \<Rightarrow> ('ctx, 'key) pake \<Rightarrow> (u8 list list, ('ctx, 'key) pake) outcome" where
  "pake_seal_all lib [] p = (Inr [], p)"
| "pake_seal_all lib (m # ms) p =
     sbind (pake_crypt lib True m p) (\<lambda>c p.
     sbind (pake_seal_all lib ms p) (\<lambda>cs p. (Inr (c # cs), p)))"

fun pake_open_all ::
    "('ctx, 'key) pake_lib \<Rightarrow> u8 list list \<Rightarrow> ('ctx, 'key) pake \<Rightarrow> (u8 list list, ('ctx, 'key) pake) outcome" where
  "pake_open_all lib [] p = (Inr [], p)"
| "pake_open_all lib (c # cs) p =
     sbind (pake_crypt lib False c p) (\<lambda>m p.
     sbind (pake_open_all lib cs p) (\<lambda>ms p. (Inr (m # ms), p)))"

text \<open>
  The documented contract of the AEAD: opening under a nonce gives exactly the texts sealed under
  that nonce, and sealing adds sixteen bytes.
\<close>

definition aead_ok :: "('ctx, 'key) pake_lib \<Rightarrow> bool" where
  "aead_ok lib \<longleftrightarrow>
     (\<forall>k n c m. pk_open lib k n c = Some m \<longleftrightarrow> pk_seal lib k n m = Some c)
       \<and> (\<forall>k n m c n'. pk_seal lib k n m = Some c \<longrightarrow> pk_open lib k n' c \<noteq> None \<longrightarrow> n' = n)
       \<and> (\<forall>k n m c. pk_seal lib k n m = Some c \<longrightarrow> length c = length m + 16)"

lemma nonce_of_inject [simp]: "nonce_of a = nonce_of b \<longleftrightarrow> a = b"
proof
  assume "nonce_of a = nonce_of b"
  then have "to_le64 a = to_le64 b" by (simp add: nonce_of_def)
  then have "le_nat (le_bytes 8 (unat a)) = le_nat (le_bytes 8 (unat b))" by (simp add: to_le64_def)
  then have "unat a mod 2 ^ 64 = unat b mod 2 ^ 64" by simp
  then have "unat a = unat b" by simp
  then show "a = b" by (simp add: word_unat_eq_iff)
qed simp

lemma pake_crypt_True:
  "pake_crypt lib True m p = (Inr c, p') \<longleftrightarrow>
     length m \<le> 16400 \<and> pa_enc p \<noteq> - 1 \<and> p' = p\<lparr>pa_enc := pa_enc p + 1\<rparr>
       \<and> (\<exists>k. pa_key p = Some k \<and> pk_seal lib k (nonce_of (pa_enc p)) m = Some c)"
  by (auto simp: pake_crypt_def pake_crypt_c_def Let_def split: option.splits if_splits)

lemma pake_crypt_False:
  "pake_crypt lib False c p = (Inr m, p') \<longleftrightarrow>
     length c \<le> 16400 \<and> pa_dec p \<noteq> - 1 \<and> p' = p\<lparr>pa_dec := pa_dec p + 1\<rparr>
       \<and> (\<exists>k. pa_key p = Some k \<and> pk_open lib k (nonce_of (pa_dec p)) c = Some m)"
  by (auto simp: pake_crypt_def pake_crypt_c_def Let_def split: option.splits if_splits)

lemma unat_Suc_word: "n \<noteq> (- 1 :: u64) \<Longrightarrow> unat (n + 1) = Suc (unat n)"
proof -
  assume "n \<noteq> - 1"
  then have "1 + n \<noteq> 0" by (auto simp: add_eq_0_iff)
  then show ?thesis by (simp add: unatSuc add.commute)
qed

lemma pake_seal_open:
  assumes "aead_ok lib"
  shows "pake_seal_all lib ms p = (Inr cs, p') \<Longrightarrow> pa_key p = Some k \<Longrightarrow> pa_key q = Some k
     \<Longrightarrow> pa_enc p = pa_dec q \<Longrightarrow> \<forall>m \<in> set ms. length m \<le> 16384 \<Longrightarrow>
     unat (pa_enc p) \<le> unat (pa_enc p')
       \<and> (\<forall>c \<in> set cs. \<exists>n m. pk_seal lib k (nonce_of n) m = Some c \<and> unat n < unat (pa_enc p'))
       \<and> (\<exists>q'. pake_open_all lib cs q = (Inr ms, q') \<and> pa_enc p' = pa_dec q' \<and> pa_key q' = Some k)"
proof (induction ms arbitrary: p q cs)
  case Nil
  then show ?case by auto
next
  case (Cons m ms)
  from Cons.prems(1) obtain c p1 cs1 where c: "pake_crypt lib True m p = (Inr c, p1)"
      and cs: "pake_seal_all lib ms p1 = (Inr cs1, p')" "cs = c # cs1"
    by (auto simp: sbind_eq_Inr_iff)
  have p1: "p1 = p\<lparr>pa_enc := pa_enc p + 1\<rparr>" "pa_enc p \<noteq> - 1"
      "pk_seal lib k (nonce_of (pa_enc p)) m = Some c"
    using c Cons.prems(2) by (auto simp: pake_crypt_True)
  have len: "length c \<le> 16400"
  proof -
    have "length c = length m + 16" using assms p1(3) by (auto simp: aead_ok_def)
    with Cons.prems(5) show ?thesis by simp
  qed
  have "pk_open lib k (nonce_of (pa_dec q)) c = Some m"
    using assms p1(3) Cons.prems(4) by (simp add: aead_ok_def)
  then have d: "pake_crypt lib False c q = (Inr m, q\<lparr>pa_dec := pa_dec q + 1\<rparr>)"
    using p1(2) Cons.prems(3,4) len by (simp add: pake_crypt_False)
  have up: "unat (pa_enc p + 1) = Suc (unat (pa_enc p))" using p1(2) by (rule unat_Suc_word)
  have "unat (pa_enc p1) \<le> unat (pa_enc p')
       \<and> (\<forall>c \<in> set cs1. \<exists>n m. pk_seal lib k (nonce_of n) m = Some c \<and> unat n < unat (pa_enc p'))
       \<and> (\<exists>q'. pake_open_all lib cs1 (q\<lparr>pa_dec := pa_dec q + 1\<rparr>) = (Inr ms, q') \<and> pa_enc p' = pa_dec q'
            \<and> pa_key q' = Some k)"
    using cs(1) p1(1) Cons.prems by (intro Cons.IH) auto
  moreover from this up p1 have "unat (pa_enc p) < unat (pa_enc p')" by simp
  ultimately show ?case using cs(2) d p1(3) by auto
qed

text \<open>
  C28: messages of a pairing session arrive in order or not at all. Of two ends with the same key
  whose counters agree, one reads back exactly the messages the other sealed, in their order; and
  presenting any of them once more is refused, since no nonce is used for two texts.
\<close>

theorem pake_ordered_delivery:
  assumes "aead_ok lib" and "pa_key p = pa_key q" and "pa_enc p = pa_dec q"
    and "pake_seal_all lib ms p = (Inr cs, p')" and "ms \<noteq> []" and "\<forall>m \<in> set ms. length m \<le> 16384"
  shows "\<exists>q'. pake_open_all lib cs q = (Inr ms, q') \<and> pa_dec q' = pa_enc p'
    \<and> (\<forall>c \<in> set cs. \<not> is_ok (fst (pake_crypt lib False c q')))"
proof -
  obtain k where k: "pa_key p = Some k"
    using assms(4,5) by (cases ms) (auto simp: sbind_eq_Inr_iff pake_crypt_True)
  then have "pa_key q = Some k" using assms(2) by simp
  from pake_seal_open [OF assms(1,4) k this assms(3,6)] obtain q' where
      q': "pake_open_all lib cs q = (Inr ms, q')" "pa_enc p' = pa_dec q'" "pa_key q' = Some k"
    and sealed: "\<forall>c \<in> set cs. \<exists>n m. pk_seal lib k (nonce_of n) m = Some c \<and> unat n < unat (pa_enc p')"
    by blast
  have "\<not> is_ok (fst (pake_crypt lib False c q'))" if "c \<in> set cs" for c
  proof
    assume "is_ok (fst (pake_crypt lib False c q'))"
    then obtain m q'' where "pake_crypt lib False c q' = (Inr m, q'')"
      by (cases "pake_crypt lib False c q'") (auto simp: is_ok_iff)
    then have "pk_open lib k (nonce_of (pa_dec q')) c \<noteq> None" using q'(3) by (auto simp: pake_crypt_False)
    moreover obtain n m' where n: "pk_seal lib k (nonce_of n) m' = Some c" "unat n < unat (pa_enc p')"
      using sealed \<open>c \<in> set cs\<close> by blast
    ultimately have "nonce_of (pa_dec q') = nonce_of n" using assms(1) unfolding aead_ok_def by metis
    with n(2) q'(2) show False by simp
  qed
  with q' show ?thesis by auto
qed

text \<open>An AEAD that writes the nonce in front of the text.\<close>

definition clear_pake :: "(unit, unit) pake_lib" where
  "clear_pake =
     \<lparr>pk_start = (\<lambda>_ _. Some ((), replicate 32 0)), pk_process = (\<lambda>_ m. Some m), pk_derive = (\<lambda>_. Some ()),
      pk_seal = (\<lambda>_ n m. if length n = 12 then Some (n @ [0, 0, 0, 0] @ m) else None),
      pk_open = (\<lambda>_ n c. if length n = 12 \<and> take 16 c = n @ [0, 0, 0, 0] then Some (drop 16 c) else None)\<rparr>"

lemma clear_pake_ok: "aead_ok clear_pake"
proof -
  have "take 16 c = n @ [0, 0, 0, 0] \<longleftrightarrow> (\<exists>m. c = n @ [0, 0, 0, 0] @ m)" if "length n = 12" for n c :: "u8 list"
  proof
    assume "take 16 c = n @ [0, 0, 0, 0]"
    then have "c = (n @ [0, 0, 0, 0]) @ drop 16 c" by (metis append_take_drop_id)
    then show "\<exists>m. c = n @ [0, 0, 0, 0] @ m" by auto
  qed (use that in auto)
  then show ?thesis by (auto simp: aead_ok_def clear_pake_def split: if_splits)
qed

definition clear_session :: "(unit, unit) pake" where
  "clear_session = \<lparr>pa_ctx = None, pa_key = Some (), pa_enc = 0, pa_dec = 0, pa_message = []\<rparr>"

theorem pake_ordered_delivery_witness:
  "\<exists>q'. pake_open_all clear_pake [nonce_of 0 @ [0, 0, 0, 0] @ [7], nonce_of 1 @ [0, 0, 0, 0] @ [8]]
     clear_session = (Inr [[7], [8]], q') \<and> pa_dec q' = 2"
proof -
  have s: "pake_seal_all clear_pake [[7], [8]] clear_session
      = (Inr [nonce_of 0 @ [0, 0, 0, 0] @ [7], nonce_of 1 @ [0, 0, 0, 0] @ [8]],
         clear_session\<lparr>pa_enc := 2\<rparr>)"
    by (simp add: clear_session_def pake_crypt_def pake_crypt_c_def clear_pake_def nonce_of_def)
  from pake_ordered_delivery [OF clear_pake_ok refl _ s] show ?thesis
    by (auto simp: clear_session_def)
qed

section \<open>The exchange\<close>

definition PEER_SIZE :: nat where "PEER_SIZE = 8192"

text \<open>
  The connection during pairing: the sink that takes our bytes, the bytes the peer delivers before
  the connection ends, and the world \<open>commit\<close> acts on (the supervisor).
\<close>

record ('o, 'w) exchange =
  ex_out :: 'o
  ex_in :: "u8 list"
  ex_world :: 'w

definition ex_put :: "'o sink \<Rightarrow> u8 list \<Rightarrow> ('o, 'w) exchange \<Rightarrow> (unit, ('o, 'w) exchange) outcome" where
  "ex_put sk b x = (let (r, o') = sk_put sk b (ex_out x) in (r, x\<lparr>ex_out := o'\<rparr>))"

definition pair_send :: "'o sink \<Rightarrow> u8 \<Rightarrow> u8 list \<Rightarrow> ('o, 'w) exchange \<Rightarrow> (unit, ('o, 'w) exchange) outcome" where
  "pair_send sk kind body x =
     sbind (ex_put sk [1, kind] x) (\<lambda>_ x.
     sbind (ex_put sk (to_be32 (word_of_nat (length body))) x) (\<lambda>_ x.
     sbind (ex_put sk body x) (\<lambda>_ x.
       let (r, o') = sk_flush sk (ex_out x) in (io_result r, x\<lparr>ex_out := o'\<rparr>))))"

definition ex_read :: "nat \<Rightarrow> ('o, 'w) exchange \<Rightarrow> (u8 list, ('o, 'w) exchange) outcome" where
  "ex_read n x =
     (case read_exact n (ex_in x) of
        Inl e \<Rightarrow> (Inl e, x\<lparr>ex_in := []\<rparr>)
      | Inr (b, rest) \<Rightarrow> (Inr b, x\<lparr>ex_in := rest\<rparr>))"

definition pair_receive :: "u8 \<Rightarrow> ('o, 'w) exchange \<Rightarrow> (u8 list, ('o, 'w) exchange) outcome" where
  "pair_receive kind x =
     sbind (ex_read 6 x) (\<lambda>h x.
       if \<not> (h ! 0 = 1 \<and> h ! 1 = kind) then (Inl (Msg ''invalid pairing header''), x)
       else
         let len = unat (from_be32 (drop 2 h))
         in if \<not> (len > 0 \<and> len \<le> PEER_SIZE * 2) then (Inl (Msg ''invalid pairing length''), x)
            else ex_read len x)"

text \<open>The peer information: a zero byte, then the key up to the first NUL, in 8192 bytes.\<close>

definition peer_key :: "u8 list \<Rightarrow> err + string" where
  "peer_key their =
     rbind (ensure (length their = PEER_SIZE \<and> their ! 0 = 0) (Msg ''invalid pairing peer information'')) (\<lambda>_.
     rbind (ensure (0 \<in> set (tl their)) (Msg ''unterminated host key'')) (\<lambda>_.
       from_utf8 (takeWhile (\<lambda>b. b \<noteq> 0) (tl their))))"

definition device_info :: "string \<Rightarrow> u8 list" where
  "device_info guid = 1 # str_bytes guid @ replicate (PEER_SIZE - 1 - length guid) 0"

definition ex_lift :: "err + 'a \<Rightarrow> ('o, 'w) exchange \<Rightarrow> ('a, ('o, 'w) exchange) outcome" where
  "ex_lift r x = (r, x)"

definition ex_commit ::
    "(string \<Rightarrow> 'w \<Rightarrow> (unit, 'w) outcome) \<Rightarrow> string \<Rightarrow> ('o, 'w) exchange \<Rightarrow> (unit, ('o, 'w) exchange) outcome" where
  "ex_commit commit key x = (let (r, w) = commit key (ex_world x) in (r, x\<lparr>ex_world := w\<rparr>))"

text \<open>
  \<open>pair_with_commit\<close> after the TLS handshake, in its three parts. \<open>exported\<close> is the keying material;
  \<open>kc\<close> is the check of host keys.
\<close>

definition pair_start ::
    "'o sink \<Rightarrow> ('ctx, 'key) pake_lib \<Rightarrow> string \<Rightarrow> err + u8 list \<Rightarrow> ('o, 'w) exchange
       \<Rightarrow> (('ctx, 'key) pake, ('o, 'w) exchange) outcome" where
  "pair_start sk lib password exported x =
     sbind (ex_lift exported x) (\<lambda>material x.
     sbind (ex_lift (pake_new lib True (str_bytes password @ material)) x) (\<lambda>pake x.
     sbind (pair_send sk 0 (pa_message pake) x) (\<lambda>_ x.
     sbind (pair_receive 0 x) (\<lambda>other x.
       let (fin, pake) = pake_finish lib other pake in sbind (ex_lift fin x) (\<lambda>_ x. (Inr pake, x))))))"

definition pair_peer ::
    "('ctx, 'key) pake_lib \<Rightarrow> key_check \<Rightarrow> string \<Rightarrow> ('ctx, 'key) pake \<Rightarrow> ('o, 'w) exchange
       \<Rightarrow> (string \<times> ('ctx, 'key) pake, ('o, 'w) exchange) outcome" where
  "pair_peer lib kc guid pake x =
     (if \<not> length guid < PEER_SIZE - 1 then (Inl (Msg ''device GUID too long''), x)
      else
        sbind (pair_receive 1 x) (\<lambda>sealed x.
        let (opened, pake) = pake_crypt lib False sealed pake
        in sbind (ex_lift opened x) (\<lambda>their x.
           sbind (ex_lift (peer_key their) x) (\<lambda>key x.
           sbind (ex_lift (kc key) x) (\<lambda>_ x. (Inr (key, pake), x))))))"

definition pair_with_commit ::
    "'o sink \<Rightarrow> ('ctx, 'key) pake_lib \<Rightarrow> key_check \<Rightarrow> (string \<Rightarrow> 'w \<Rightarrow> (unit, 'w) outcome) \<Rightarrow> string \<Rightarrow> string
       \<Rightarrow> err + u8 list \<Rightarrow> ('o, 'w) exchange \<Rightarrow> (string, ('o, 'w) exchange) outcome" where
  "pair_with_commit sk lib kc commit guid password exported x =
     sbind (pair_start sk lib password exported x) (\<lambda>pake x.
     sbind (pair_peer lib kc guid pake x) (\<lambda>(key, pake) x.
     sbind (ex_commit commit key x) (\<lambda>_ x.
     let (reply, pake) = pake_crypt lib True (device_info guid) pake
     in sbind (ex_lift reply x) (\<lambda>c x.
        sbind (pair_send sk 1 c x) (\<lambda>_ x. (Inr key, x))))))"

text \<open>\<open>pair\<close> commits nothing.\<close>

definition pair ::
    "'o sink \<Rightarrow> ('ctx, 'key) pake_lib \<Rightarrow> key_check \<Rightarrow> string \<Rightarrow> string \<Rightarrow> err + u8 list \<Rightarrow> ('o, 'w) exchange
       \<Rightarrow> (string, ('o, 'w) exchange) outcome" where
  "pair sk lib kc guid password exported x =
     pair_with_commit sk lib kc (\<lambda>_ w. (Inr (), w)) guid password exported x"

section \<open>What is sent when\<close>

definition pair_frame :: "u8 \<Rightarrow> u8 list \<Rightarrow> u8 list" where
  "pair_frame kind body = [1, kind] @ to_be32 (word_of_nat (length body)) @ body"

lemma take_pair_frame:
  "take (6 + n) (pair_frame k b) = [1, k] @ to_be32 (word_of_nat (length b)) @ take n b"
proof -
  have "pair_frame k b = ([1, k] @ to_be32 (word_of_nat (length b))) @ b" by (simp add: pair_frame_def)
  moreover have "length ([1, k] @ to_be32 (word_of_nat (length b))) = 6" by simp
  ultimately show ?thesis by (metis append.assoc diff_add_inverse take_all_iff take_append le_add1)
qed

lemma pair_start_receives:
  fixes lib :: "('ctx, 'key) pake_lib"
  assumes "pair_start sk lib password exported x = (Inr pake, y)"
  shows "\<exists>(pk :: ('ctx, 'key) pake) z. pair_send sk 0 (pa_message pk) x = (Inr (), z) \<and> is_ok (fst (pair_receive 0 z))"
proof -
  from assms obtain pk :: "('ctx, 'key) pake" and z other where "pair_send sk 0 (pa_message pk) x = (Inr (), z)"
      "pair_receive 0 z = (Inr other, y)"
    unfolding pair_start_def ex_lift_def sbind_eq_Inr_iff Let_def split_beta
    by (auto simp: sbind_eq_Inr_iff)
  then show ?thesis by force
qed

lemma ex_read_frame: "ex_read n x = (r, x') \<Longrightarrow> ex_out x' = ex_out x \<and> ex_world x' = ex_world x"
  by (auto simp: ex_read_def split: sum.splits)

lemma pair_receive_frame: "pair_receive k x = (r, x') \<Longrightarrow> ex_out x' = ex_out x \<and> ex_world x' = ex_world x"
proof -
  assume p: "pair_receive k x = (r, x')"
  obtain a y where y: "ex_read 6 x = (a, y)" by fastforce
  show ?thesis
    using p y ex_read_frame [OF y]
    by (cases a) (auto simp: pair_receive_def Let_def split: if_splits dest!: ex_read_frame)
qed

context byte_sink
begin

lemma ex_put_sent:
  assumes "invar (ex_out x)" and "ex_put sink b x = (r, x')"
  obtains n where "sk_plain sink (ex_out x') = sk_plain sink (ex_out x) @ take n b"
    and "r = Inr () \<Longrightarrow> take n b = b" and "invar (ex_out x')" and "ex_world x' = ex_world x"
proof -
  obtain o2 where o2: "sk_put sink b (ex_out x) = (r, o2)" "x' = x\<lparr>ex_out := o2\<rparr>"
    using assms(2) by (auto simp: ex_put_def split: prod.splits)
  obtain c d where cd: "b = c @ d" "sk_plain sink o2 = sk_plain sink (ex_out x) @ c" "r = Inr () \<Longrightarrow> d = []"
    using put_prefix [OF assms(1) o2(1)] by blast
  have "invar o2" using put_invar [OF assms(1), of b] o2(1) by simp
  with cd o2(2) show thesis by (intro that [of "length c"]) auto
qed

lemma pair_send_sent:
  assumes "invar (ex_out x)" and "pair_send sink k b x = (r, x')"
  obtains n where "sk_plain sink (ex_out x') = sk_plain sink (ex_out x) @ take n (pair_frame k b)"
    and "r = Inr () \<Longrightarrow> take n (pair_frame k b) = pair_frame k b" and "invar (ex_out x')"
    and "ex_world x' = ex_world x"
proof -
  let ?l = "to_be32 (word_of_nat (length b))"
  obtain r1 x1 where 1: "ex_put sink [1, k] x = (r1, x1)" by fastforce
  obtain n1 where n1: "sk_plain sink (ex_out x1) = sk_plain sink (ex_out x) @ take n1 [1, k]"
      "r1 = Inr () \<Longrightarrow> take n1 [1, k] = [1, k]" "invar (ex_out x1)" "ex_world x1 = ex_world x"
    using ex_put_sent [OF assms(1) 1] by blast
  obtain r2 x2 where 2: "ex_put sink ?l x1 = (r2, x2)" by fastforce
  obtain n2 where n2: "sk_plain sink (ex_out x2) = sk_plain sink (ex_out x1) @ take n2 ?l"
      "r2 = Inr () \<Longrightarrow> take n2 ?l = ?l" "invar (ex_out x2)" "ex_world x2 = ex_world x1"
    using ex_put_sent [OF n1(3) 2] by blast
  obtain r3 x3 where 3: "ex_put sink b x2 = (r3, x3)" by fastforce
  obtain n3 where n3: "sk_plain sink (ex_out x3) = sk_plain sink (ex_out x2) @ take n3 b"
      "r3 = Inr () \<Longrightarrow> take n3 b = b" "invar (ex_out x3)" "ex_world x3 = ex_world x2"
    using ex_put_sent [OF n2(3) 3] by blast
  obtain f o4 where 4: "sk_flush sink (ex_out x3) = (f, o4)" by fastforce
  have o4: "sk_plain sink o4 = sk_plain sink (ex_out x3)" "invar o4"
    using flush_plain [of "ex_out x3"] flush_invar [OF n3(3)] 4 by simp_all
  consider e where "r1 = Inl e" | e where "r1 = Inr ()" "r2 = Inl e"
    | e where "r1 = Inr ()" "r2 = Inr ()" "r3 = Inl e" | "r1 = Inr ()" "r2 = Inr ()" "r3 = Inr ()"
    by (cases r1; cases r2; cases r3) auto
  then show thesis
  proof cases
    case 1
    with assms(2) \<open>ex_put sink [1, k] x = (r1, x1)\<close> n1 show thesis
      by (intro that [of "min 2 n1"]) (auto simp: pair_send_def pair_frame_def take_Cons' min_def)
  next
    case 2
    with assms(2) \<open>ex_put sink [1, k] x = (r1, x1)\<close> \<open>ex_put sink ?l x1 = (r2, x2)\<close> n1 n2 show thesis
      by (intro that [of "2 + min 4 n2"]) (auto simp: pair_send_def pair_frame_def min_def)
  next
    case c3: 3
    with assms(2) \<open>ex_put sink [1, k] x = (r1, x1)\<close> \<open>ex_put sink ?l x1 = (r2, x2)\<close>
      \<open>ex_put sink b x2 = (r3, x3)\<close> n1 n2 n3 show thesis
      by (intro that [of "6 + n3"]) (auto simp: pair_send_def take_pair_frame)
  next
    case c4: 4
    with assms(2) \<open>ex_put sink [1, k] x = (r1, x1)\<close> \<open>ex_put sink ?l x1 = (r2, x2)\<close>
      \<open>ex_put sink b x2 = (r3, x3)\<close> 4 n1 n2 n3 o4 show thesis
      by (intro that [of "6 + length b"]) (auto simp: pair_send_def pair_frame_def)
  qed
qed

text \<open>Before the commit only the SPAKE2 message, or part of it, has been sent.\<close>

lemma pair_start_sent:
  fixes lib :: "('ctx, 'key) pake_lib"
  assumes "invar (ex_out x)" and "pair_start sink lib password exported x = (r, x')"
  obtains b n where "sk_plain sink (ex_out x') = sk_plain sink (ex_out x) @ take n (pair_frame 0 b)"
    and "invar (ex_out x')" and "ex_world x' = ex_world x"
    and "is_ok r \<Longrightarrow> take n (pair_frame 0 b) = pair_frame 0 b"
proof -
  consider (early) "x' = x" "\<not> is_ok r"
    | (sent) pake :: "('ctx, 'key) pake" and s y where "pair_send sink 0 (pa_message pake) x = (s, y)"
        "s = Inr () \<longrightarrow> (\<exists>other z. pair_receive 0 y = (other, z) \<and> x' = z)"
        "\<not> is_ok s \<longrightarrow> x' = y \<and> \<not> is_ok r"
  proof (cases exported)
    case (Inl e)
    with assms(2) show thesis by (intro early) (auto simp: pair_start_def ex_lift_def)
  next
    case (Inr material)
    note exp = this
    show thesis
    proof (cases "pake_new lib True (str_bytes password @ material)")
      case (Inl e)
      with exp assms(2) have "x' = x" "r = Inl e" by (auto simp: pair_start_def ex_lift_def)
      then show thesis by (intro early) simp_all
    next
      case (Inr pake)
      obtain s y where s: "pair_send sink 0 (pa_message pake) x = (s, y)" by fastforce
      obtain other z where z: "pair_receive 0 y = (other, z)" by fastforce
      have "\<not> is_ok s \<longrightarrow> x' = y \<and> \<not> is_ok r" "s = Inr () \<longrightarrow> x' = z"
        using assms(2) exp Inr s z
        by (cases s; cases other; auto simp: pair_start_def ex_lift_def sbind_def split: sum.splits prod.splits)+
      with s z sent show thesis by blast
    qed
  qed
  then show thesis
  proof cases
    case early
    with assms(1) show thesis by (intro that [of 0 "[]"]) auto
  next
    case (sent pake s y)
    obtain n where n: "sk_plain sink (ex_out y) = sk_plain sink (ex_out x) @ take n (pair_frame 0 (pa_message pake))"
        "s = Inr () \<Longrightarrow> take n (pair_frame 0 (pa_message pake)) = pair_frame 0 (pa_message pake)"
        "invar (ex_out y)" "ex_world y = ex_world x"
      using pair_send_sent [OF assms(1) sent(1)] by blast
    have "ex_out x' = ex_out y \<and> ex_world x' = ex_world y"
      using sent(2,3) by (cases s) (auto dest: pair_receive_frame)
    with n sent(3) show thesis
      by (intro that [of n "pa_message pake"]) (cases s; auto)+
  qed
qed

lemma pair_peer_frame:
  "pair_peer lib kc guid pake x = (r, x') \<Longrightarrow> ex_out x' = ex_out x \<and> ex_world x' = ex_world x
     \<and> (\<forall>key pake'. r = Inr (key, pake') \<longrightarrow> is_ok (kc key))"
proof -
  assume p: "pair_peer lib kc guid pake x = (r, x')"
  obtain a y where y: "pair_receive 1 x = (a, y)" by fastforce
  show ?thesis
    using p y pair_receive_frame [OF y]
    by (cases a) (auto simp: pair_peer_def ex_lift_def sbind_def Let_def is_ok_iff
        split: if_splits sum.splits prod.splits)
qed

text \<open>
  The whole exchange: either nothing but the SPAKE2 message was sent and the world is unchanged,
  or \<open>commit\<close> was called once with a key that passed the check; the answer to the host starts only
  if it succeeded, and the exchange succeeds only if that answer is complete.
\<close>

lemma pair_commit_first:
  assumes "invar (ex_out x)" and "pair_with_commit sink lib kc commit guid password exported x = (r, x')"
  shows "\<exists>b n. sk_plain sink (ex_out x') = sk_plain sink (ex_out x) @ take n (pair_frame 0 b)
        \<and> \<not> is_ok r
        \<and> (ex_world x' = ex_world x
           \<or> (\<exists>key e. is_ok (kc key) \<and> commit key (ex_world x) = (Inl e, ex_world x')))
    \<or> (\<exists>key b. is_ok (kc key) \<and> commit key (ex_world x) = (Inr (), ex_world x')
        \<and> (r = Inr key \<or> \<not> is_ok r)
        \<and> (\<exists>c n. sk_plain sink (ex_out x')
              = sk_plain sink (ex_out x) @ pair_frame 0 b @ take n (pair_frame 1 c)
            \<and> (is_ok r \<longrightarrow> take n (pair_frame 1 c) = pair_frame 1 c)))"
proof -
  obtain a y where st: "pair_start sink lib password exported x = (a, y)" by fastforce
  obtain b n where bn: "sk_plain sink (ex_out y) = sk_plain sink (ex_out x) @ take n (pair_frame 0 b)"
      "invar (ex_out y)" "ex_world y = ex_world x" "is_ok a \<Longrightarrow> take n (pair_frame 0 b) = pair_frame 0 b"
    using pair_start_sent [OF assms(1) st] by blast
  show ?thesis
  proof (cases a)
    case (Inl e)
    with assms(2) st bn show ?thesis by (auto simp: pair_with_commit_def)
  next
    case (Inr pake)
    obtain p z where pe: "pair_peer lib kc guid pake y = (p, z)" by fastforce
    note fr = pair_peer_frame [OF pe]
    show ?thesis
    proof (cases p)
      case (Inl e)
      then have "x' = z" "r = Inl e" using assms(2) st Inr pe by (auto simp: pair_with_commit_def)
      with fr bn show ?thesis by auto
    next
      case p: (Inr kp)
      obtain key pake2 where kp: "kp = (key, pake2)" by fastforce
      have kc: "is_ok (kc key)" using fr p kp by simp
      obtain cr w where cm: "commit key (ex_world z) = (cr, w)" by fastforce
      show ?thesis
      proof (cases cr)
        case (Inl e)
        then have "x' = z\<lparr>ex_world := w\<rparr>" "r = Inl e"
          using assms(2) st Inr pe p kp cm by (auto simp: pair_with_commit_def ex_commit_def)
        with fr bn kc cm Inl show ?thesis by auto
      next
        case cr: (Inr u)
        let ?z = "z\<lparr>ex_world := w\<rparr>"
        obtain rep pake3 where rp: "pake_crypt lib True (device_info guid) pake2 = (rep, pake3)" by fastforce
        show ?thesis
        proof (cases rep)
          case (Inl e)
          then have "x' = ?z" "r = Inl e"
            using assms(2) st Inr pe p kp cm cr rp by (auto simp: pair_with_commit_def ex_commit_def ex_lift_def)
          then have "sk_plain sink (ex_out x')
              = sk_plain sink (ex_out x) @ pair_frame 0 b @ take 0 (pair_frame 1 [])"
            "commit key (ex_world x) = (Inr (), ex_world x')" "\<not> is_ok r"
            using fr bn cm cr Inr by simp_all
          with kc show ?thesis by blast
        next
          case rep: (Inr c)
          obtain s x4 where sd: "pair_send sink 1 c ?z = (s, x4)" by fastforce
          have "invar (ex_out ?z)" using fr bn(2) by simp
          then obtain m where m: "sk_plain sink (ex_out x4) = sk_plain sink (ex_out ?z) @ take m (pair_frame 1 c)"
              "s = Inr () \<Longrightarrow> take m (pair_frame 1 c) = pair_frame 1 c" "ex_world x4 = ex_world ?z"
            using pair_send_sent [OF _ sd] by blast
          have res: "x' = x4" "r = (case s of Inl e \<Rightarrow> Inl e | Inr _ \<Rightarrow> Inr key)"
            using assms(2) st Inr pe p kp cm cr rp rep sd
            by (auto simp: pair_with_commit_def ex_commit_def ex_lift_def sbind_def split: sum.splits)
          have "is_ok r \<longrightarrow> take m (pair_frame 1 c) = pair_frame 1 c" "r = Inr key \<or> \<not> is_ok r"
            using m(2) res(2) by (cases s; simp)+
          moreover have "sk_plain sink (ex_out x')
              = sk_plain sink (ex_out x) @ pair_frame 0 b @ take m (pair_frame 1 c)"
            using res(1) m(1) fr bn(1,4) Inr by simp
          moreover have "commit key (ex_world x) = (Inr (), ex_world x')"
            using res(1) m(3) cm cr fr bn(3) by simp
          ultimately show ?thesis using kc by blast
        qed
      qed
    qed
  qed
qed

end

text \<open>
  C15: trust is stored before it is acknowledged. Whatever the host sends and however the connection
  fails, over a TLS connection: unless \<open>commit\<close> was called with a key that passed the check and
  returned \<open>Ok\<close>, nothing but the SPAKE2 message goes to the host, the pairing fails, and the world
  changes at most by that one failed commit; the reply that tells the host it is paired comes only
  after the successful commit, and success is reported only once it is complete.
\<close>

theorem pairing_commits_before_reply:
  assumes "no_interrupt (ex_out x)"
    and "pair_with_commit (tls_sink lib) plib kc commit guid password exported x = (r, x')"
  shows "\<exists>b n. t_plain (ex_out x') = t_plain (ex_out x) @ take n (pair_frame 0 b)
        \<and> \<not> is_ok r
        \<and> (ex_world x' = ex_world x
           \<or> (\<exists>key e. is_ok (kc key) \<and> commit key (ex_world x) = (Inl e, ex_world x')))
    \<or> (\<exists>key b. is_ok (kc key) \<and> commit key (ex_world x) = (Inr (), ex_world x')
        \<and> (r = Inr key \<or> \<not> is_ok r)
        \<and> (\<exists>c n. t_plain (ex_out x') = t_plain (ex_out x) @ pair_frame 0 b @ take n (pair_frame 1 c)
            \<and> (is_ok r \<longrightarrow> take n (pair_frame 1 c) = pair_frame 1 c)))"
  using tls.pair_commit_first [OF assms] by (simp add: tls_sink_def)

theorem pairing_commits_before_reply_witness:
  "\<exists>r x'. pair_with_commit (tls_sink plain_ssl) clear_pake (\<lambda>k. Inr (k, k)) (\<lambda>k w. (Inr (), k # w)) ''g'' ''123456''
      (Inr []) \<lparr>ex_out = plain_tls [TAccept 100], ex_in = [1, 1, 0, 0, 0, 1, 9], ex_world = []\<rparr> = (r, x')
     \<and> \<not> is_ok r \<and> ex_world x' = [] \<and> (\<exists>b n. t_plain (ex_out x') = take n (pair_frame 0 b))"
proof -
  let ?x = "\<lparr>ex_out = plain_tls [TAccept 100], ex_in = [1, 1, 0, 0, 0, 1, 9], ex_world = [] :: string list\<rparr>"
  obtain r x' where run: "pair_with_commit (tls_sink plain_ssl) clear_pake (\<lambda>k. Inr (k, k))
      (\<lambda>k w. (Inr (), k # w)) ''g'' ''123456'' (Inr []) ?x = (r, x')" by fastforce
  have ok: "no_interrupt (ex_out ?x)" by (simp add: no_interrupt_def plain_tls_def sock_new_def)
  note th = pairing_commits_before_reply [OF ok run]
  have w: "ex_world x' = [] \<and> \<not> is_ok r"
  proof -
    obtain a y where st: "pair_start (tls_sink plain_ssl) clear_pake ''123456'' (Inr []) ?x = (a, y)" by fastforce
    have "\<not> is_ok a"
    proof
      assume "is_ok a"
      then obtain pake where "a = Inr pake" by (auto simp: is_ok_iff)
      then obtain pk :: "(unit, unit) pake" and z where
          sent: "pair_send (tls_sink plain_ssl) 0 (pa_message pk) ?x = (Inr (), z)"
          and got: "is_ok (fst (pair_receive 0 z))"
        using pair_start_receives [of _ clear_pake] st by blast
      from sent have "ex_in z = [1, 1, 0, 0, 0, 1, 9]"
        by (auto simp: pair_send_def ex_put_def sbind_eq_Inr_iff Let_def split: prod.splits)
      with got show False by (simp add: pair_receive_def ex_read_def read_exact_def)
    qed
    then have "\<not> is_ok r" "x' = y" using run st by (auto simp: pair_with_commit_def not_is_ok_iff)
    moreover have "ex_world y = []"
      using tls.pair_start_sent [OF _ st] ok by (metis exchange.select_convs(3) no_interrupt_def)
    ultimately show ?thesis by simp
  qed
  have "t_plain (ex_out ?x) = []" by (simp add: plain_tls_def)
  with th w have "\<exists>b n. t_plain (ex_out x') = take n (pair_frame 0 b)" by auto
  with run w show ?thesis by blast
qed

end
