(* ===== verification/Mdns.thy ===== *)
theory Mdns
  imports Network
begin

text \<open>
  \<open>src/src/unix/mdns.rs\<close>: the DNS names and records of the service announcements, the parser of
  incoming queries, and the responder with its timers. The sockets are parameters: what they send
  is a list of datagrams, what they receive is an argument.
\<close>

unbundle bit_operations_syntax

section \<open>Names and records\<close>

definition MDNS_CONNECT :: string where "MDNS_CONNECT = ''_adb-tls-connect._tcp.local''"
definition MDNS_PAIR :: string where "MDNS_PAIR = ''_adb-tls-pairing._tcp.local''"

definition split_dots :: "string \<Rightarrow> string list" where
  "split_dots n = split_on (\<lambda>c. c = CHR ''.'') n"

fun join_dots :: "string list \<Rightarrow> string" where
  "join_dots [] = []"
| "join_dots [l] = l"
| "join_dots (l # ls) = l @ ''.'' @ join_dots ls"

definition dns_label :: "string \<Rightarrow> u8 list" where
  "dns_label l = word_of_nat (length l) # str_bytes l"

definition dns_name :: "string \<Rightarrow> u8 list" where
  "dns_name n = concat (map dns_label (split_dots n)) @ [0]"

definition dns_record :: "string \<Rightarrow> u16 \<Rightarrow> u32 \<Rightarrow> u8 list \<Rightarrow> u8 list" where
  "dns_record n kind ttl data =
     dns_name n @ to_be16 kind @ to_be16 (if kind = 12 then 1 else 0x8001) @ to_be32 ttl
       @ to_be16 (word_of_nat (length data)) @ data"

text \<open>The three records of a service: PTR, SRV and TXT.\<close>

definition service_records :: "string \<Rightarrow> u32 \<Rightarrow> string \<Rightarrow> u16 \<Rightarrow> u8 list" where
  "service_records guid ttl service port =
     (let instance_name = guid @ ''.'' @ service; hostname = guid @ ''.local''
      in dns_record service 12 ttl (dns_name instance_name)
           @ dns_record instance_name 33 ttl ([0, 0, 0, 0] @ to_be16 port @ dns_name hostname)
           @ dns_record instance_name 16 ttl [0])"

definition response :: "string \<Rightarrow> endpoint list \<Rightarrow> u16 option \<Rightarrow> u32 \<Rightarrow> u8 list" where
  "response guid endpoints pair ttl =
     (let services = (case endpoints of
            [] \<Rightarrow> []
          | ep # _ \<Rightarrow> (MDNS_CONNECT, ep_port ep)
              # (case pair of None \<Rightarrow> [] | Some port \<Rightarrow> [(MDNS_PAIR, port)]));
          count = 3 * word_of_nat (length services) + word_of_nat (length endpoints) :: u16
      in [0, 0, 0x84, 0, 0, 0] @ to_be16 count @ [0, 0, 0, 0]
           @ concat (map (\<lambda>(service, port). service_records guid ttl service port) services)
           @ concat (map (\<lambda>ep. dns_record (guid @ ''.local'') 1 ttl (octets (ep_address ep))) endpoints))"

section \<open>Reading names\<close>

text \<open>
  The loop of \<open>query_name\<close>: \<open>next\<close> is where the name ends in the packet once a pointer was
  followed; the labels and the end are the result. The count of steps bounds it.
\<close>

function query_loop ::
    "u8 list \<Rightarrow> nat \<Rightarrow> nat \<Rightarrow> nat option \<Rightarrow> string list \<Rightarrow> nat \<Rightarrow> err + string list \<times> nat" where
  "query_loop data steps p nxt labels tot =
     (if \<not> (steps + 1 \<le> 64 \<and> p < length data) then Inl (Msg ''invalid DNS name'')
      else
        let b = data ! p; len = unat b; p = p + 1
        in if len = 0 then Inr (labels, case nxt of None \<Rightarrow> p | Some n \<Rightarrow> n)
           else if (ucast b :: u64) AND 0xC0 = 0xC0 then
             if \<not> p < length data then Inl (Msg ''truncated DNS pointer'')
             else query_loop data (steps + 1)
               (unat (push_bit 8 ((ucast b :: u64) AND 0x3F) OR ucast (data ! p)))
               (case nxt of None \<Rightarrow> Some (p + 1) | Some n \<Rightarrow> Some n) labels tot
           else if \<not> (len \<le> 63 \<and> p + len \<le> length data) then Inl (Msg ''invalid DNS label'')
           else
             let tot = tot + (len + 1)
             in if \<not> tot \<le> 255 then Inl (Msg ''DNS name too long'')
                else case from_utf8 (take len (drop p data)) of
                    Inl e \<Rightarrow> Inl e
                  | Inr l \<Rightarrow> query_loop data (steps + 1) (p + len) nxt (labels @ [map to_lower l]) tot)"
  by pat_completeness auto
termination
  by (relation "measure (\<lambda>(data, steps, _). 64 - steps)") auto

declare query_loop.simps [simp del]

text \<open>The name and the offset after it.\<close>

definition query_name :: "u8 list \<Rightarrow> nat \<Rightarrow> err + string \<times> nat" where
  "query_name data offset =
     rbind (query_loop data 0 offset None [] 0) (\<lambda>(labels, q). Inr (join_dots labels, q))"

definition our_name :: "string \<Rightarrow> string \<Rightarrow> bool" where
  "our_name guid q \<longleftrightarrow>
     q = MDNS_CONNECT \<or> q = MDNS_PAIR \<or> q = guid @ ''.local'' \<or> q = guid @ ''.'' @ MDNS_CONNECT
       \<or> q = guid @ ''.'' @ MDNS_PAIR"

fun relevant_loop :: "nat \<Rightarrow> u8 list \<Rightarrow> string \<Rightarrow> nat \<Rightarrow> bool" where
  "relevant_loop 0 data guid p = False"
| "relevant_loop (Suc n) data guid p =
     (case query_name data p of
        Inl _ \<Rightarrow> False
      | Inr (q, p) \<Rightarrow>
          if p + 4 > length data then False
          else if our_name guid q then True else relevant_loop n data guid (p + 4))"

definition relevant :: "u8 list \<Rightarrow> string \<Rightarrow> bool" where
  "relevant data guid =
     (if length data < 12 \<or> data ! 2 AND 0x80 \<noteq> 0 then False
      else
        let count = unat (from_be16 [data ! 4, data ! 5])
        in if count > 64 then False else relevant_loop count data guid 12)"

section \<open>The responder\<close>

text \<open>
  One socket per interface. \<open>mdns_socket\<close> stands for the calls that create, bind and join one;
  \<open>seen\<close> holds the interface indices already served.
\<close>

fun mdns_sockets_loop ::
    "(endpoint \<Rightarrow> 'os \<Rightarrow> ('sock, 'os) outcome) \<Rightarrow> u32 list \<Rightarrow> endpoint list \<Rightarrow> 'os
       \<Rightarrow> ((endpoint \<times> 'sock) list, 'os) outcome" where
  "mdns_sockets_loop mdns_socket seen [] os = (Inr [], os)"
| "mdns_sockets_loop mdns_socket seen (ep # eps) os =
     (if ep_index ep \<in> set seen then mdns_sockets_loop mdns_socket seen eps os
      else sbind (mdns_socket ep os) (\<lambda>sock os.
           sbind (mdns_sockets_loop mdns_socket (ep_index ep # seen) eps os) (\<lambda>rest os.
             (Inr ((ep, sock) # rest), os))))"

definition mdns_sockets ::
    "(endpoint \<Rightarrow> 'os \<Rightarrow> ('sock, 'os) outcome) \<Rightarrow> endpoint list \<Rightarrow> bool \<Rightarrow> 'os
       \<Rightarrow> ((endpoint \<times> 'sock) list, 'os) outcome" where
  "mdns_sockets mdns_socket endpoints test os =
     (if test then (Inr [], os) else mdns_sockets_loop mdns_socket [] endpoints os)"

text \<open>
  The state: the interfaces with a socket, what is announced, and the times of the last
  announcement and the last reply; \<open>md_sent\<close> records the datagrams sent, newest last, each with
  its time, the interface it left on and whether it answered a query. Times may lie before the
  start of the clock.
\<close>

record sent =
  se_time :: instant
  se_index :: u32
  se_reply :: bool
  se_packet :: "u8 list"

record mdns =
  md_specs :: "endpoint list"
  md_endpoints :: "endpoint list"
  md_guid :: string
  md_pair :: "u16 option"
  md_last :: int
  md_last_reply :: int
  md_sent :: "sent list"

definition mdns_new :: "instant \<Rightarrow> endpoint list \<Rightarrow> endpoint list \<Rightarrow> string \<Rightarrow> mdns" where
  "mdns_new now specs endpoints guid =
     \<lparr>md_specs = specs, md_endpoints = endpoints, md_guid = guid, md_pair = None,
      md_last = int now - int (secs 120), md_last_reply = int now - int (secs 1), md_sent = []\<rparr>"

definition mdns_packet :: "mdns \<Rightarrow> endpoint \<Rightarrow> u32 \<Rightarrow> u8 list" where
  "mdns_packet m spec ttl =
     response (md_guid m) (filter (\<lambda>e. ep_index e = ep_index spec) (md_endpoints m)) (md_pair m) ttl"

definition announce_as :: "bool \<Rightarrow> instant \<Rightarrow> u32 \<Rightarrow> mdns \<Rightarrow> mdns" where
  "announce_as reply now ttl m =
     m\<lparr>md_sent := md_sent m @ map (\<lambda>spec. \<lparr>se_time = now, se_index = ep_index spec, se_reply = reply,
            se_packet = mdns_packet m spec ttl\<rparr>) (md_specs m),
       md_last := int now\<rparr>"

definition mdns_announce :: "instant \<Rightarrow> u32 \<Rightarrow> mdns \<Rightarrow> mdns" where
  "mdns_announce = announce_as False"

definition mdns_pairing :: "instant \<Rightarrow> u16 option \<Rightarrow> mdns \<Rightarrow> mdns" where
  "mdns_pairing now port m = mdns_announce now 120 ((mdns_announce now 0 m)\<lparr>md_pair := port\<rparr>)"

text \<open>\<open>received\<close> has, for every socket, the datagrams waiting; at most sixteen are read of each.\<close>

definition mdns_tick :: "instant \<Rightarrow> u8 list list list \<Rightarrow> mdns \<Rightarrow> mdns" where
  "mdns_tick now received m =
     (let m = (if int now - md_last m \<ge> int (secs 60) then mdns_announce now 120 m else m);
          reply = list_ex (list_ex (\<lambda>d. relevant d (md_guid m))) (map (take 16) received)
      in if reply \<and> int now - md_last_reply m \<ge> int (millis 250)
         then (announce_as True now 120 m)\<lparr>md_last_reply := int now\<rparr> else m)"

text \<open>Dropping the responder withdraws the services.\<close>

definition mdns_drop :: "instant \<Rightarrow> mdns \<Rightarrow> mdns" where
  "mdns_drop now = mdns_announce now 0"

section \<open>Announcements can be read back\<close>

text \<open>A reader of resource records, as another responder would read them.\<close>

fun read_records :: "nat \<Rightarrow> u8 list \<Rightarrow> nat \<Rightarrow> (string \<times> u16 \<times> u16 \<times> u32 \<times> u8 list) list option" where
  "read_records 0 data p = (if p = length data then Some [] else None)"
| "read_records (Suc n) data p =
     (case query_name data p of
        Inl _ \<Rightarrow> None
      | Inr (q, p) \<Rightarrow>
          let r = drop p data; size = unat (from_be16 (take 2 (drop 8 r)))
          in if length r < 10 + size then None
             else map_option ((#) (q, from_be16 (take 2 r), from_be16 (take 2 (drop 2 r)),
                    from_be32 (take 4 (drop 4 r)), take size (drop 10 r)))
                  (read_records n data (p + 10 + size)))"

definition good_label :: "string \<Rightarrow> bool" where
  "good_label l \<longleftrightarrow> l \<noteq> [] \<and> length l \<le> 63 \<and> is_ascii l"

definition name_size :: "string list \<Rightarrow> nat" where
  "name_size ls = (\<Sum>l\<leftarrow>ls. length l + 1)"

definition good_name :: "string \<Rightarrow> bool" where
  "good_name n \<longleftrightarrow> list_all good_label (split_dots n) \<and> length (split_dots n) < 64 \<and> name_size (split_dots n) \<le> 255"

lemma length_dns_label: "length (dns_label l) = length l + 1"
  by (simp add: dns_label_def)

lemma length_dns_labels: "length (concat (map dns_label ls)) = name_size ls"
  by (induction ls) (simp_all add: dns_label_def name_size_def)

lemma label_byte:
  assumes "good_label l"
  shows "unat (word_of_nat (length l) :: u8) = length l"
    and "(ucast (word_of_nat (length l) :: u8) :: u64) AND 0xC0 \<noteq> 0xC0"
proof -
  show u: "unat (word_of_nat (length l) :: u8) = length l"
    using assms by (simp add: unat_u8_of_nat good_label_def)
  let ?b = "ucast (word_of_nat (length l) :: u8) :: u64"
  have "unat ?b = length l" 
  proof -
    have "unat ?b = unat (word_of_nat (length l) :: u8) mod 2 ^ 64" by (simp add: unsigned_ucast_eq take_bit_eq_mod)
    with u assms show ?thesis by (simp add: good_label_def)
  qed
  then have "?b \<le> 63" using assms by (simp add: word_le_nat_alt good_label_def)
  moreover have "?b AND 0xC0 \<le> ?b" by (rule word_and_le2)
  ultimately have "?b AND 0xC0 \<le> 63" by order
  then show "?b AND 0xC0 \<noteq> 0xC0" by auto
qed

lemma query_loop_labels:
  "list_all good_label ls \<Longrightarrow> steps + length ls < 64 \<Longrightarrow> tot + name_size ls \<le> 255
     \<Longrightarrow> query_loop (pre @ concat (map dns_label ls) @ 0 # post) steps (length pre) None acc tot
       = Inr (acc @ map (map to_lower) ls, length pre + name_size ls + 1)"
proof (induction ls arbitrary: pre steps acc tot)
  case Nil
  then show ?case by (simp add: query_loop.simps name_size_def nth_append)
next
  case (Cons l ls)
  let ?data = "pre @ concat (map dns_label (l # ls)) @ 0 # post"
  have l: "good_label l" "l \<noteq> []" "length l \<le> 63" "is_ascii l" using Cons.prems(1) by (auto simp: good_label_def)
  note lb = label_byte [OF l(1)]
  have b: "?data ! length pre = word_of_nat (length l)" by (simp add: dns_label_def nth_append)
  have sub: "take (length l) (drop (length pre + 1) ?data) = str_bytes l"
    by (simp add: dns_label_def)
  have len: "length pre + 1 + length l \<le> length ?data" "length pre < length ?data"
    by (simp_all add: dns_label_def)
  have tot: "tot + (length l + 1) \<le> 255" using Cons.prems(3) by (simp add: name_size_def)
  have "query_loop ?data steps (length pre) None acc tot
      = query_loop ?data (steps + 1) (length pre + 1 + length l) None (acc @ [map to_lower l]) (tot + (length l + 1))"
    using Cons.prems(2) lb b sub len tot l from_utf8_ascii [OF l(4)]
    by (subst query_loop.simps) (simp del: from_utf8_iff concat.simps list.map add: Let_def)
  also have "\<dots> = query_loop ((pre @ dns_label l) @ concat (map dns_label ls) @ 0 # post) (steps + 1)
      (length (pre @ dns_label l)) None (acc @ [map to_lower l]) (tot + (length l + 1))"
    by (simp add: dns_label_def)
  also have "\<dots> = Inr (acc @ map (map to_lower) (l # ls), length (pre @ dns_label l) + name_size ls + 1)"
    using Cons.prems by (subst Cons.IH) (simp_all add: name_size_def)
  finally show ?case by (simp add: length_dns_label name_size_def add.assoc)
qed

lemma join_split_dots [simp]: "join_dots (split_dots n) = n"
proof (induction n)
  case (Cons c n)
  then show ?case
    by (cases "split_dots n" rule: join_dots.cases) (auto simp: split_dots_def split: list.splits)
qed (simp add: split_dots_def)

lemma join_lower: "join_dots (map (map to_lower) ls) = map to_lower (join_dots ls)"
  by (induction ls rule: join_dots.induct) (simp_all add: to_lower_def)

lemma query_name_dns_name:
  assumes "good_name n"
  shows "query_name (pre @ dns_name n @ post) (length pre)
    = Inr (map to_lower n, length pre + length (dns_name n))"
proof -
  have "query_loop (pre @ concat (map dns_label (split_dots n)) @ 0 # post) 0 (length pre) None [] 0
      = Inr ([] @ map (map to_lower) (split_dots n), length pre + name_size (split_dots n) + 1)"
    using assms by (intro query_loop_labels) (simp_all add: good_name_def)
  then show ?thesis
    by (simp add: query_name_def dns_name_def length_dns_labels join_lower)
qed

type_synonym entry = "string \<times> u16 \<times> u32 \<times> u8 list"

fun write_entry :: "entry \<Rightarrow> u8 list" where
  "write_entry (n, kind, ttl, data) = dns_record n kind ttl data"

fun read_entry :: "entry \<Rightarrow> string \<times> u16 \<times> u16 \<times> u32 \<times> u8 list" where
  "read_entry (n, kind, ttl, data) = (map to_lower n, kind, if kind = 12 then 1 else 0x8001, ttl, data)"

fun good_entry :: "entry \<Rightarrow> bool" where
  "good_entry (n, kind, ttl, data) \<longleftrightarrow> good_name n \<and> length data < 65536"

lemma read_records_step:
  assumes "query_name data p = Inr (q, p1)" and "drop p1 data = body"
    and "unat (from_be16 (take 2 (drop 8 body))) = sz" and "10 + sz \<le> length body"
  shows "read_records (Suc k) data p
    = map_option ((#) (q, from_be16 (take 2 body), from_be16 (take 2 (drop 2 body)),
          from_be32 (take 4 (drop 4 body)), take sz (drop 10 body)))
        (read_records k data (p1 + 10 + sz))"
  unfolding read_records.simps assms(1) sum.case prod.case assms(2) Let_def
  using assms(3,4) by (simp del: drop_drop)

lemma read_records_Suc:
  assumes "good_entry e"
  shows "read_records (Suc k) (pre @ write_entry e @ post) (length pre)
    = map_option ((#) (read_entry e)) (read_records k (pre @ write_entry e @ post) (length pre + length (write_entry e)))"
proof -
  obtain n kind ttl d where e: "e = (n, kind, ttl, d)" by (cases e)
  have good: "good_name n" "length d < 65536" using assms e by simp_all
  let ?cl = "if kind = 12 then 1 else 0x8001 :: u16"
  let ?body = "to_be16 kind @ to_be16 ?cl @ to_be32 ttl @ to_be16 (word_of_nat (length d)) @ d @ post"
  let ?data = "pre @ write_entry e @ post"
  have data: "?data = pre @ dns_name n @ ?body" by (simp add: e dns_record_def)
  have q: "query_name ?data (length pre) = Inr (map to_lower n, length pre + length (dns_name n))"
    unfolding data by (rule query_name_dns_name [OF good(1)])
  have size: "unat (word_of_nat (length d) :: u16) = length d"
    using good(2) by (simp add: unat_of_nat)
  have rest: "drop (length pre + length (dns_name n)) ?data = ?body" unfolding data by simp
  have parts: "take 2 ?body = to_be16 kind" "take 2 (drop 2 ?body) = to_be16 ?cl"
      "take 4 (drop 4 ?body) = to_be32 ttl" "take (length d) (drop 10 ?body) = d"
    by simp_all
  have sz: "unat (from_be16 (take 2 (drop 8 ?body))) = length d" using size by simp
  have "length (write_entry e) = length (dns_name n) + 10 + length d"
    by (simp add: e dns_record_def)
  then show ?thesis
    using read_records_step [OF q rest sz, of k] unfolding parts
    by (simp add: e del: write_entry.simps read_records.simps add: add.assoc)
qed

lemma read_records_all:
  "list_all good_entry es \<Longrightarrow>
     read_records (length es) (pre @ concat (map write_entry es)) (length pre) = Some (map read_entry es)"
proof (induction es arbitrary: pre)
  case (Cons e es)
  have "list_all good_entry es" using Cons.prems by simp
  from Cons.IH [OF this, of "pre @ write_entry e"]
  have "read_records (length es) (pre @ write_entry e @ concat (map write_entry es)) (length pre + length (write_entry e))
      = Some (map read_entry es)" by simp
  moreover have "good_entry e" using Cons.prems by simp
  ultimately show ?case using read_records_Suc [of e "length es" pre "concat (map write_entry es)"] by simp
qed simp

text \<open>What is announced.\<close>

definition service_entries :: "string \<Rightarrow> u32 \<Rightarrow> string \<Rightarrow> u16 \<Rightarrow> entry list" where
  "service_entries guid ttl service port =
     [(service, 12, ttl, dns_name (guid @ ''.'' @ service)),
      (guid @ ''.'' @ service, 33, ttl, [0, 0, 0, 0] @ to_be16 port @ dns_name (guid @ ''.local'')),
      (guid @ ''.'' @ service, 16, ttl, [0])]"

definition announced :: "string \<Rightarrow> endpoint list \<Rightarrow> u16 option \<Rightarrow> u32 \<Rightarrow> entry list" where
  "announced guid endpoints pair ttl =
     (case endpoints of
        [] \<Rightarrow> []
      | ep # _ \<Rightarrow> service_entries guid ttl MDNS_CONNECT (ep_port ep)
          @ (case pair of None \<Rightarrow> [] | Some port \<Rightarrow> service_entries guid ttl MDNS_PAIR port))
      @ map (\<lambda>ep. (guid @ ''.local'', 1, ttl, octets (ep_address ep))) endpoints"

lemma split_dots_guid:
  assumes "CHR ''.'' \<notin> set guid"
  shows "split_dots (guid @ CHR ''.'' # s) = guid # split_dots s"
  using assms
proof (induction guid)
  case (Cons c guid)
  then show ?case by (auto simp: split_dots_def)
qed (simp add: split_dots_def)

lemma split_service:
  "split_dots MDNS_CONNECT = [''_adb-tls-connect'', ''_tcp'', ''local'']"
  "split_dots MDNS_PAIR = [''_adb-tls-pairing'', ''_tcp'', ''local'']"
  "split_dots ''local'' = [''local'']"
  by (simp_all add: split_dots_def MDNS_CONNECT_def MDNS_PAIR_def)

lemma good_names:
  assumes "good_label guid" and "CHR ''.'' \<notin> set guid"
  shows "good_name MDNS_CONNECT" "good_name MDNS_PAIR" "good_name (guid @ ''.local'')"
    "good_name (guid @ ''.'' @ MDNS_CONNECT)" "good_name (guid @ ''.'' @ MDNS_PAIR)"
  using assms
  by (simp_all add: good_name_def split_service split_dots_guid name_size_def good_label_def is_ascii_def)

lemma length_dns_name: "length (dns_name n) = name_size (split_dots n) + 1"
  by (simp add: dns_name_def length_dns_labels)

lemma announced_good:
  assumes "good_label guid" and "CHR ''.'' \<notin> set guid"
  shows "list_all good_entry (announced guid endpoints pair ttl)"
proof -
  note names = good_names [OF assms]
  then have "length (dns_name n) < 65536" if "good_name n" for n
    using that by (simp add: length_dns_name good_name_def)
  with names have "list_all good_entry (service_entries guid ttl s port)" if "s \<in> {MDNS_CONNECT, MDNS_PAIR}" for s port
    using that
    by (auto simp: service_entries_def length_dns_name good_name_def)
  with names show ?thesis
    by (auto simp: announced_def list_all_iff octets_def split: list.splits option.splits)
qed

lemma response_announced:
  "response guid endpoints pair ttl
    = [0, 0, 0x84, 0, 0, 0] @ to_be16 (word_of_nat (length (announced guid endpoints pair ttl))) @ [0, 0, 0, 0]
      @ concat (map write_entry (announced guid endpoints pair ttl))"
proof -
  have "concat (map write_entry (service_entries guid ttl s port)) = service_records guid ttl s port" for s port
    by (simp add: service_entries_def service_records_def Let_def)
  moreover have "length (service_entries guid ttl s port) = 3" for s port
    by (simp add: service_entries_def)
  ultimately show ?thesis
    by (auto simp: response_def announced_def Let_def comp_def algebra_simps split: list.splits option.splits)
qed

text \<open>
  C27: announcements are well-formed DNS. Reading a response with the responder's own name parser
  gives, for any device name of one valid label and any interfaces, exactly the PTR, SRV and TXT
  records of the services on offer and one address record per interface, as many as the header
  counts, and ends where the packet ends; every length and the count fit their fields.
\<close>

theorem response_reads_back:
  assumes "good_label guid" and "CHR ''.'' \<notin> set guid" and "length endpoints < 65000"
  shows "read_records (unat (from_be16 (take 2 (drop 6 (response guid endpoints pair ttl)))))
      (response guid endpoints pair ttl) 12
    = Some (map read_entry (announced guid endpoints pair ttl))"
proof -
  let ?es = "announced guid endpoints pair ttl"
  let ?h = "[0, 0, 0x84, 0, 0, 0] @ to_be16 (word_of_nat (length ?es)) @ [0, 0, 0, 0] :: u8 list"
  have "length ?es \<le> 6 + length endpoints"
    by (auto simp: announced_def service_entries_def split: list.splits option.splits)
  then have count: "unat (word_of_nat (length ?es) :: u16) = length ?es"
    using assms(3) by (simp add: unat_of_nat)
  have r: "response guid endpoints pair ttl = ?h @ concat (map write_entry ?es)"
    by (simp add: response_announced)
  have "read_records (length ?es) (?h @ concat (map write_entry ?es)) (length ?h) = Some (map read_entry ?es)"
    using announced_good [OF assms(1,2)] by (rule read_records_all)
  moreover have "take 2 (drop 6 (response guid endpoints pair ttl)) = to_be16 (word_of_nat (length ?es))"
    by (simp add: r)
  ultimately show ?thesis using count by (simp add: r)
qed

theorem response_reads_back_witness:
  "read_records 4 (response ''altdb-1'' [Endpoint ''wlan0'' 3 0xC0A80102 5555] None 120) 12
    = Some (map read_entry (announced ''altdb-1'' [Endpoint ''wlan0'' 3 0xC0A80102 5555] None 120))"
proof -
  have "good_label ''altdb-1''" by (simp add: good_label_def is_ascii_def)
  from response_reads_back [OF this, of "[Endpoint ''wlan0'' 3 0xC0A80102 5555]" None 120]
  show ?thesis by (simp add: response_announced announced_def service_entries_def)
qed

section \<open>Queries and replies\<close>

lemma query_loop_bounds:
  "query_loop data steps p nxt labels tot = Inr (ls, q) \<Longrightarrow> (\<forall>n. nxt = Some n \<longrightarrow> n \<le> length data)
     \<Longrightarrow> name_size labels = tot \<Longrightarrow> tot \<le> 255
     \<Longrightarrow> q \<le> length data \<and> (case nxt of None \<Rightarrow> p < q | Some n \<Rightarrow> q = n) \<and> name_size ls \<le> 255"
proof (induction data steps p nxt labels tot rule: query_loop.induct)
  case (1 data steps p nxt labels tot)
  show ?case
  proof (cases "steps + 1 \<le> 64 \<and> p < length data")
    case False
    with 1(3) show ?thesis by (simp add: query_loop.simps)
  next
    case c1: True
    show ?thesis
    proof (cases "unat (data ! p) = 0")
      case True
      with c1 1(3-6) show ?thesis by (auto simp: query_loop.simps [of data steps] Let_def split: option.splits)
    next
      case nz: False
      show ?thesis
      proof (cases "(ucast (data ! p) :: u64) AND 0xC0 = 0xC0")
        case True
        with c1 nz 1(1) 1(3-6) show ?thesis
          by (auto simp: query_loop.simps [of data steps] Let_def split: option.splits if_splits)
      next
        case False
        with c1 nz 1(2) 1(3-6)
        have "q \<le> length data \<and> (case nxt of None \<Rightarrow> p + 1 + unat (data ! p) < q | Some n \<Rightarrow> q = n)
            \<and> name_size ls \<le> 255"
          by (auto simp: query_loop.simps [of data steps] Let_def name_size_def
              split: option.splits if_splits sum.splits)
        then show ?thesis by (auto split: option.splits)
      qed
    qed
  qed
qed

lemma length_join_dots: "length (join_dots ls) \<le> name_size ls - 1"
  by (induction ls rule: join_dots.induct) (auto simp: name_size_def)

text \<open>
  C34: names from the network are read safely. Whatever the packet holds (pointer loops, lengths
  beyond its end, long names), reading a name ends, and a name that is accepted has at most 254
  bytes, ends inside the packet and beyond where it started, so the loop over the questions of a
  query advances and never leaves the packet.
\<close>

theorem query_name_bounds:
  assumes "query_name data p = Inr (n, q)"
  shows "p < q \<and> q \<le> length data \<and> length n \<le> 254"
proof -
  obtain ls where ls: "query_loop data 0 p None [] 0 = Inr (ls, q)" "n = join_dots ls"
    using assms by (auto simp: query_name_def)
  have "q \<le> length data \<and> p < q \<and> name_size ls \<le> 255"
    using query_loop_bounds [OF ls(1)] by (simp add: name_size_def)
  with length_join_dots [of ls] ls(2) show ?thesis by auto
qed

theorem query_name_bounds_witness:
  "\<exists>n q. query_name ([1] @ dns_name ''a.b'' @ [9]) 1 = Inr (n, q) \<and> q \<le> 7"
proof -
  have "good_name ''a.b''"
    by (simp add: good_name_def good_label_def is_ascii_def split_dots_def name_size_def)
  from query_name_dns_name [OF this, of "[1]" "[9]"]
  have "query_name ([1] @ dns_name ''a.b'' @ [9]) 1 = Inr (map to_lower ''a.b'', 1 + length (dns_name ''a.b''))"
    by simp
  from query_name_bounds [OF this] this show ?thesis
    by (auto simp: dns_name_def dns_label_def split_dots_def)
qed

text \<open>A run of the responder: ticks and changes of the pairing port, each at a time.\<close>

datatype mdns_event = Tick "u8 list list list" | Pairing_port "u16 option"

fun mdns_step :: "mdns_event \<Rightarrow> instant \<Rightarrow> mdns \<Rightarrow> mdns" where
  "mdns_step (Tick r) now m = mdns_tick now r m"
| "mdns_step (Pairing_port p) now m = mdns_pairing now p m"

fun mdns_events :: "(instant \<times> mdns_event) list \<Rightarrow> mdns \<Rightarrow> mdns" where
  "mdns_events [] m = m"
| "mdns_events ((now, e) # es) m = mdns_events es (mdns_step e now m)"

definition replies :: "mdns \<Rightarrow> sent list" where
  "replies m = filter se_reply (md_sent m)"

text \<open>Replies in order of time, those of different times a quarter of a second apart.\<close>

definition spaced :: "mdns \<Rightarrow> bool" where
  "spaced m \<longleftrightarrow>
     sorted_wrt (\<lambda>a b. se_time a = se_time b \<or> se_time a + millis 250 \<le> se_time b) (replies m)
       \<and> (\<forall>a \<in> set (replies m). int (se_time a) \<le> md_last_reply m)"

lemma replies_announce [simp]:
  "replies (announce_as False now ttl m) = replies m"
  "replies (announce_as True now ttl m) = replies m
     @ map (\<lambda>spec. \<lparr>se_time = now, se_index = ep_index spec, se_reply = True,
            se_packet = mdns_packet m spec ttl\<rparr>) (md_specs m)"
  "replies (m\<lparr>md_pair := p\<rparr>) = replies m"
  by (simp_all add: replies_def announce_as_def comp_def)

lemma announce_as_sel [simp]:
  "md_last_reply (announce_as b now ttl m) = md_last_reply m"
  "md_guid (announce_as b now ttl m) = md_guid m"
  by (simp_all add: announce_as_def)

lemma spaced_step: "spaced m \<Longrightarrow> spaced (mdns_step e now m)"
proof (cases e)
  case (Tick r)
  assume sp: "spaced m"
  let ?m = "if int now - md_last m \<ge> int (secs 60) then mdns_announce now 120 m else m"
  have m: "spaced ?m" "replies ?m = replies m" "md_last_reply ?m = md_last_reply m"
    using sp by (simp_all add: spaced_def mdns_announce_def)
  show "spaced (mdns_step e now m)"
  proof (cases "mdns_tick now r m = ?m")
    case True
    with m Tick show ?thesis by simp
  next
    case False
    then have due: "int now - md_last_reply m \<ge> int (millis 250)"
      and eq: "mdns_tick now r m = (announce_as True now 120 ?m)\<lparr>md_last_reply := int now\<rparr>"
      using m(3) by (auto simp: mdns_tick_def Let_def split: if_splits)
    let ?n = "announce_as True now 120 ?m"
    have r: "replies (?n\<lparr>md_last_reply := int now\<rparr>) = replies ?n" by (simp add: replies_def)
    have old: "se_time a + millis 250 \<le> now \<and> se_time a \<le> now" if "a \<in> set (replies m)" for a
      using sp due that by (fastforce simp: spaced_def)
    have "spaced (?n\<lparr>md_last_reply := int now\<rparr>)"
      using sp m(2) old unfolding spaced_def r
      by (auto simp: sorted_wrt_append sorted_wrt_map sorted_wrt_true)
    then show ?thesis using eq Tick by simp
  qed
next
  case (Pairing_port p)
  assume "spaced m"
  with Pairing_port show "spaced (mdns_step e now m)"
    by (simp add: spaced_def mdns_pairing_def mdns_announce_def)
qed

lemma spaced_events: "spaced m \<Longrightarrow> spaced (mdns_events es m)"
  by (induction es arbitrary: m) (auto simp: spaced_step)

text \<open>
  C35: queries cannot be amplified. However many queries arrive, whenever, the replies of the
  responder leave at least a quarter of a second apart: of any two replies sent at different times
  the later is 250 ms after the earlier, whatever else is announced in between.
\<close>

theorem mdns_replies_spaced:
  "sorted_wrt (\<lambda>a b. se_time a = se_time b \<or> se_time a + millis 250 \<le> se_time b)
     (replies (mdns_events es (mdns_new start specs endpoints guid)))"
proof -
  have "spaced (mdns_new start specs endpoints guid)" by (simp add: spaced_def replies_def mdns_new_def)
  from spaced_events [OF this, of es] show ?thesis by (simp add: spaced_def)
qed

end
