(* ===== verification/Privileges.thy ===== *)
theory Privileges
  imports Config
begin

text \<open>
  The parts of \<open>src/src/unix/ksu.rs\<close> that give up privileges: the credentials of a process, the
  system calls that change them, and the sequences in which the worker and the services call
  them. Every call works or fails as a script says; the KernelSU driver is one of the calls.
\<close>

section \<open>The credentials of a process\<close>

text \<open>
  \<open>pr_caps\<close> are the effective, permitted and inheritable sets, \<open>pr_bounding\<close> the capability
  bounding set, of which the kernel knows the numbers below \<open>pr_known\<close>. \<open>pr_escape\<close> says that
  KernelSU may still give the process root. A fault is the error number of a call that fails;
  when the script is used up, calls fail with \<open>EPERM\<close> (1).
\<close>

record proc =
  pr_uids :: "u32 \<times> u32 \<times> u32"
  pr_gids :: "u32 \<times> u32 \<times> u32"
  pr_groups :: "u32 list"
  pr_bounding :: "nat list"
  pr_known :: nat
  pr_caps :: "u64 \<times> u64 \<times> u64"
  pr_context :: string
  pr_no_new_privs :: bool
  pr_dumpable :: bool
  pr_escape :: bool
  pr_death_signal :: "nat option"
  pr_parent :: nat
  pr_faults :: "nat option list"

definition EINVAL :: nat where "EINVAL = 22"

definition sys_do :: "(proc \<Rightarrow> proc) \<Rightarrow> proc \<Rightarrow> nat option \<times> proc" where
  "sys_do op p =
     (case pr_faults p of
        [] \<Rightarrow> (Some 1, p)
      | f # fs \<Rightarrow> (f, case f of None \<Rightarrow> op (p\<lparr>pr_faults := fs\<rparr>) | Some _ \<Rightarrow> p\<lparr>pr_faults := fs\<rparr>))"

text \<open>A call whose failure is the given message.\<close>

definition sys_ensure :: "string \<Rightarrow> (proc \<Rightarrow> proc) \<Rightarrow> proc \<Rightarrow> (unit, proc) outcome" where
  "sys_ensure message op p = (let (f, p) = sys_do op p in (ensure (f = None) (Msg message), p))"

section \<open>The KernelSU driver\<close>

definition driver :: "proc \<Rightarrow> (unit, proc) outcome" where
  "driver p =
     sbind (sys_ensure ''KernelSU driver unavailable'' (\<lambda>p. p) p) (\<lambda>_ p.
       sys_ensure ''cannot protect KernelSU descriptor'' (\<lambda>p. p) p)"

definition prevent_escalation :: "proc \<Rightarrow> (unit, proc) outcome" where
  "prevent_escalation p =
     sbind (driver p) (\<lambda>_ p.
       sys_ensure ''KSU_NO_NEW_PRIVS unavailable'' (\<lambda>p. p\<lparr>pr_escape := False\<rparr>) p)"

record ksu_info =
  ki_version :: u32
  ki_flags :: u32
  ki_features :: u32
  ki_uapi :: u32

definition ksu_query :: "ksu_info \<Rightarrow> proc \<Rightarrow> (ksu_info, proc) outcome" where
  "ksu_query answer p =
     sbind (driver p) (\<lambda>_ p.
     sbind (sys_ensure ''KernelSU UAPI query failed'' (\<lambda>p. p) p) (\<lambda>_ p. (Inr answer, p)))"

definition validate_info :: "ksu_info \<Rightarrow> err + unit" where
  "validate_info info =
     rbind (ensure (MIN_KSU \<le> ki_version info)
       (Msg (''requires KernelSU v3.2.5 / '' @ show_nat (unat MIN_KSU) @ ''+; detected kernel ''
          @ show_nat (unat (ki_version info))))) (\<lambda>_.
       ensure (2 \<le> ki_uapi info)
         (Msg (''unsupported KernelSU UAPI '' @ show_nat (unat (ki_uapi info))
            @ ''; requires >= 2 (kernel '' @ show_nat (unat (ki_version info)) @ '')'')))"

text \<open>
  \<open>check\<close>: \<open>sdk\<close> is the Android version property, \<open>arm64\<close> the build's architecture, \<open>answer\<close> the
  driver's information, \<open>probe\<close> the exit of the disposable process that tries the flag.
\<close>

definition ksu_check :: "err + string \<Rightarrow> bool \<Rightarrow> ksu_info \<Rightarrow> err + bool \<Rightarrow> proc \<Rightarrow> (ksu_info, proc) outcome" where
  "ksu_check sdk arm64 answer probe p =
     (case rbind (ensure (fst (snd (pr_uids p)) = 0) (Msg ''requires root'')) (\<lambda>_.
           rbind sdk (\<lambda>text. rbind (parse_u32 text) (\<lambda>level.
           rbind (ensure (30 \<le> level) (Msg ''requires Android 11+'')) (\<lambda>_.
             ensure arm64 (Msg ''requires ARM64''))))) of
        Inl e \<Rightarrow> (Inl e, p)
      | Inr _ \<Rightarrow>
          sbind (ksu_query answer p) (\<lambda>info p.
            (rbind (validate_info info) (\<lambda>_. rbind probe (\<lambda>success.
             rbind (ensure success (Msg ''kernel does not implement KSU_NO_NEW_PRIVS'')) (\<lambda>_. Inr info))),
             p)))"

section \<open>Dropping the identity\<close>

text \<open>\<open>context\<close> writes the SELinux context of the thread.\<close>

definition set_context :: "string \<Rightarrow> proc \<Rightarrow> (unit, proc) outcome" where
  "set_context name p =
     (let (f, p) = sys_do (\<lambda>p. p\<lparr>pr_context := name\<rparr>) p
      in (case f of None \<Rightarrow> Inr () | Some e \<Rightarrow> Inl (Io (IoError OtherIo (Some e) ''context'')), p))"

text \<open>
  The loop over the capabilities: \<open>PR_CAPBSET_READ\<close> fails with \<open>EINVAL\<close> from the first number the
  kernel does not know, which ends the loop. \<open>n\<close> numbers are left to try.
\<close>

definition cap_read :: "nat \<Rightarrow> proc \<Rightarrow> nat option \<times> proc" where
  "cap_read cap p =
     (let (f, p') = sys_do (\<lambda>p. p) p
      in (if f = None \<and> pr_known p \<le> cap then Some EINVAL else f, p'))"

fun drop_bounding :: "nat \<Rightarrow> nat \<Rightarrow> proc \<Rightarrow> (unit, proc) outcome" where
  "drop_bounding 0 cap p = (Inr (), p)"
| "drop_bounding (Suc n) cap p =
     (case cap_read cap p of
        (Some e, p) \<Rightarrow> (ensure (e = EINVAL) (Msg ''capability query failed''), p)
      | (None, p) \<Rightarrow>
          sbind (sys_ensure ''capability bounding drop failed''
              (\<lambda>p. p\<lparr>pr_bounding := filter (\<lambda>c. c \<noteq> cap) (pr_bounding p)\<rparr>) p) (\<lambda>_ p.
            drop_bounding n (cap + 1) p))"

text \<open>
  \<open>identity\<close>: \<open>setresgid\<close> and \<open>setresuid\<close> are one check, the second only after the first. As
  prctl(2) documents, the kernel clears the parent death signal of a thread whose effective user
  or group changes.
\<close>

definition set_gids :: "u32 \<Rightarrow> proc \<Rightarrow> proc" where
  "set_gids uid p =
     p\<lparr>pr_gids := (uid, uid, uid),
       pr_death_signal := if fst (snd (pr_gids p)) = uid then pr_death_signal p else None\<rparr>"

definition set_uids :: "u32 \<Rightarrow> proc \<Rightarrow> proc" where
  "set_uids uid p =
     p\<lparr>pr_uids := (uid, uid, uid),
       pr_death_signal := if fst (snd (pr_uids p)) = uid then pr_death_signal p else None\<rparr>"

definition drop_ids :: "u32 \<Rightarrow> proc \<Rightarrow> (unit, proc) outcome" where
  "drop_ids uid p =
     sbind (sys_ensure ''identity drop failed'' (set_gids uid) p) (\<lambda>_ p.
       sys_ensure ''identity drop failed'' (set_uids uid) p)"

definition set_identity :: "u32 \<Rightarrow> u32 list \<Rightarrow> proc \<Rightarrow> (unit, proc) outcome" where
  "set_identity uid groups p =
     sbind (drop_bounding 64 0 p) (\<lambda>_ p.
     sbind (sys_ensure ''setgroups failed'' (\<lambda>p. p\<lparr>pr_groups := groups\<rparr>) p) (\<lambda>_ p.
     sbind (drop_ids uid p) (\<lambda>_ p.
     sbind (sys_ensure ''capability drop failed'' (\<lambda>p. p\<lparr>pr_caps := (0, 0, 0)\<rparr>) p) (\<lambda>_ p.
       (ensure (fst (pr_uids p) = uid \<and> fst (snd (pr_uids p)) = uid)
          (Msg ''identity verification failed''), p)))))"

definition shell_groups :: "u32 list" where
  "shell_groups = [1004, 1007, 1011, 1015, 1028, 1078, 3001, 3002, 3003, 3006, 3009, 3011]"

text \<open>\<open>android\<close> is the build target: test mode exists elsewhere only.\<close>

definition restrict_network :: "bool \<Rightarrow> bool \<Rightarrow> proc \<Rightarrow> (unit, proc) outcome" where
  "restrict_network android test p =
     (if test then (ensure (\<not> android) (Msg ''test mode is unavailable on Android''), p)
      else
        sbind (prevent_escalation p) (\<lambda>_ p.
        sbind (set_identity 2000 [3003] p) (\<lambda>_ p.
        sbind (set_context ''u:r:altdb_net:s0'' p) (\<lambda>_ p.
        sbind (sys_ensure ''no_new_privs failed'' (\<lambda>p. p\<lparr>pr_no_new_privs := True\<rparr>) p) (\<lambda>_ p.
          sys_ensure ''dump protection failed'' (\<lambda>p. p\<lparr>pr_dumpable := False\<rparr>) p)))))"

definition restrict_service :: "bool \<Rightarrow> bool \<Rightarrow> bool \<Rightarrow> bool \<Rightarrow> proc \<Rightarrow> (unit, proc) outcome" where
  "restrict_service android root allow_su test p =
     (if test then (ensure (\<not> android) (Msg ''test mode is unavailable on Android''), p)
      else if root then set_context ''u:r:ksu:s0'' p
      else
        sbind (if \<not> allow_su then prevent_escalation p else (Inr (), p)) (\<lambda>_ p.
        sbind (set_identity 2000 shell_groups p) (\<lambda>_ p.
          set_context ''u:r:shell:s0'' p)))"

text \<open>\<open>child_setup\<close>: setting the core limit and ignoring SIGPIPE are not checked.\<close>

definition child_setup :: "proc \<Rightarrow> (unit, proc) outcome" where
  "child_setup p =
     sbind (sys_ensure ''missing bootstrap descriptor'' (\<lambda>p. p) p) (\<lambda>_ p.
     sbind (sys_ensure ''parent death signal failed'' (\<lambda>p. p\<lparr>pr_death_signal := Some 9\<rparr>) p) (\<lambda>_ p.
       (ensure (1 < pr_parent p) (Msg ''supervisor exited''), p)))"

section \<open>What a restricted process can do\<close>

text \<open>
  The identity is dropped: the user, and the groups asked for, in all their copies; no capability
  in any set, none that an executed program could gain (of those the kernel knows).
\<close>

definition dropped :: "u32 \<Rightarrow> u32 list \<Rightarrow> proc \<Rightarrow> bool" where
  "dropped uid groups p \<longleftrightarrow>
     pr_uids p = (uid, uid, uid) \<and> pr_gids p = (uid, uid, uid) \<and> pr_groups p = groups
       \<and> pr_caps p = (0, 0, 0) \<and> list_all (\<lambda>c. pr_known p \<le> c) (pr_bounding p)"

text \<open>What is left of the parent death signal after the identity \<open>uid\<close> was taken.\<close>

definition kept_signal :: "u32 \<Rightarrow> proc \<Rightarrow> nat option" where
  "kept_signal uid p =
     (if fst (snd (pr_uids p)) = uid \<and> fst (snd (pr_gids p)) = uid then pr_death_signal p else None)"

text \<open>No injected failure pretends that a capability is unknown, and the kernel knows at most 64.\<close>

definition honest :: "proc \<Rightarrow> bool" where
  "honest p \<longleftrightarrow> Some EINVAL \<notin> set (pr_faults p) \<and> pr_known p \<le> 64"

lemma sys_do_cases:
  assumes "sys_do op p = (f, q)"
  obtains "f \<noteq> None" "\<exists>fs. q = p\<lparr>pr_faults := fs\<rparr> \<and> set fs \<subseteq> set (pr_faults p)"
  | "f = None" "\<exists>fs. q = op (p\<lparr>pr_faults := fs\<rparr>) \<and> set fs \<subseteq> set (pr_faults p)"
proof (cases "pr_faults p")
  case Nil
  then have "f \<noteq> None" "q = p\<lparr>pr_faults := pr_faults p\<rparr>" using assms by (auto simp: sys_do_def)
  with that(1) show thesis by blast
next
  case (Cons x xs)
  with assms that show thesis by (cases x) (auto simp: sys_do_def)
qed

lemma sys_ensure_ok:
  "sys_ensure m op p = (Inr u, q) \<Longrightarrow>
     \<exists>fs. q = op (p\<lparr>pr_faults := fs\<rparr>) \<and> set fs \<subseteq> set (pr_faults p)"
  by (auto simp: sys_ensure_def split: prod.splits elim!: sys_do_cases)

lemma set_context_ok:
  "set_context n p = (Inr u, q) \<Longrightarrow> \<exists>fs. q = p\<lparr>pr_faults := fs, pr_context := n\<rparr>"
  by (auto simp: set_context_def split: prod.splits option.splits elim!: sys_do_cases)

lemma drop_bounding_ok:
  "drop_bounding n cap p = (Inr u, q) \<Longrightarrow> honest p \<Longrightarrow> pr_known p \<le> cap + n \<Longrightarrow>
     (\<exists>fs. q = p\<lparr>pr_bounding := filter (\<lambda>c. c < cap \<or> pr_known p \<le> c) (pr_bounding p), pr_faults := fs\<rparr>
       \<and> set fs \<subseteq> set (pr_faults p))"
proof (induction n cap p rule: drop_bounding.induct)
  case (1 cap p)
  then have "filter (\<lambda>c. c < cap \<or> pr_known p \<le> c) (pr_bounding p) = pr_bounding p"
    by (auto simp: filter_id_conv)
  with 1 show ?case by (intro exI [of _ "pr_faults p"]) auto
next
  case (2 n cap p)
  obtain f p1 where s: "sys_do (\<lambda>p. p) p = (f, p1)" by fastforce
  obtain fs where p1: "p1 = p\<lparr>pr_faults := fs\<rparr>" "set fs \<subseteq> set (pr_faults p)"
    using sys_do_cases [OF s] by metis
  have inv: "f \<noteq> Some EINVAL"
    using s "2.prems"(2) by (auto simp: sys_do_def honest_def EINVAL_def split: list.splits option.splits)
  show ?case
  proof (cases "f = None \<and> cap < pr_known p")
    case False
    then have "q = p1" "pr_known p \<le> cap"
      using "2.prems"(1) s inv by (auto simp: cap_read_def split: if_splits option.splits)
    moreover from this have "filter (\<lambda>c. c < cap \<or> pr_known p \<le> c) (pr_bounding p) = pr_bounding p"
      by (auto simp: filter_id_conv)
    ultimately show ?thesis using p1 by (intro exI [of _ fs]) auto
  next
    case True
    then have r: "cap_read cap p = (None, p1)" using s by (simp add: cap_read_def)
    obtain v p2 where d: "sys_ensure ''capability bounding drop failed''
        (\<lambda>p. p\<lparr>pr_bounding := filter (\<lambda>c. c \<noteq> cap) (pr_bounding p)\<rparr>) p1 = (Inr v, p2)"
      and rest: "drop_bounding n (cap + 1) p2 = (Inr u, q)"
      using "2.prems"(1) r by (auto simp: sbind_eq_Inr_iff)
    obtain gs where p2: "p2 = p\<lparr>pr_faults := gs, pr_bounding := filter (\<lambda>c. c \<noteq> cap) (pr_bounding p)\<rparr>"
        "set gs \<subseteq> set (pr_faults p)"
      using sys_ensure_ok [OF d] p1 by auto
    have "honest p2" "pr_known p2 \<le> cap + 1 + n"
      using p2 "2.prems"(2,3) by (auto simp: honest_def)
    with "2.IH" [OF r [symmetric] refl d rest] obtain hs where
        "q = p2\<lparr>pr_bounding := filter (\<lambda>c. c < cap + 1 \<or> pr_known p2 \<le> c) (pr_bounding p2), pr_faults := hs\<rparr>"
        "set hs \<subseteq> set (pr_faults p2)"
      by auto
    moreover have "filter (\<lambda>c. c \<noteq> cap \<and> (c < Suc cap \<or> pr_known p \<le> c)) (pr_bounding p)
        = filter (\<lambda>c. c < cap \<or> pr_known p \<le> c) (pr_bounding p)"
      using True by (intro filter_cong) auto
    ultimately show ?thesis using p2 by (intro exI [of _ hs]) auto
  qed
qed

lemma prevent_escalation_ok:
  "prevent_escalation p = (Inr u, q) \<Longrightarrow>
     \<exists>fs. q = p\<lparr>pr_faults := fs, pr_escape := False\<rparr> \<and> set fs \<subseteq> set (pr_faults p)"
  by (fastforce simp: prevent_escalation_def driver_def sbind_eq_Inr_iff dest!: sys_ensure_ok)

text \<open>What taking an identity makes of a process, apart from its script.\<close>

definition with_identity :: "u32 \<Rightarrow> u32 list \<Rightarrow> proc \<Rightarrow> proc" where
  "with_identity uid groups p =
     p\<lparr>pr_bounding := filter (\<lambda>c. pr_known p \<le> c) (pr_bounding p), pr_groups := groups,
       pr_gids := (uid, uid, uid), pr_uids := (uid, uid, uid), pr_death_signal := kept_signal uid p,
       pr_caps := (0, 0, 0)\<rparr>"

lemma set_identity_exact:
  assumes "set_identity uid groups p = (Inr u, q)" and "honest p"
  shows "\<exists>fs. q = (with_identity uid groups p)\<lparr>pr_faults := fs\<rparr> \<and> set fs \<subseteq> set (pr_faults p)"
proof -
  obtain v1 p1 v2 p2 v3 p3 v4 where 1: "drop_bounding 64 0 p = (Inr v1, p1)"
    and 2: "sys_ensure ''setgroups failed'' (\<lambda>p. p\<lparr>pr_groups := groups\<rparr>) p1 = (Inr v2, p2)"
    and 3: "drop_ids uid p2 = (Inr v3, p3)"
    and 4: "sys_ensure ''capability drop failed'' (\<lambda>p. p\<lparr>pr_caps := (0, 0, 0)\<rparr>) p3 = (Inr v4, q)"
    using assms(1) by (auto simp: set_identity_def sbind_eq_Inr_iff)
  obtain fs2 where p2: "p2 = p1\<lparr>pr_faults := fs2, pr_groups := groups\<rparr>" "set fs2 \<subseteq> set (pr_faults p1)"
    using sys_ensure_ok [OF 2] by auto
  obtain fs3 gs where p3: "p3 = (set_uids uid ((set_gids uid (p2\<lparr>pr_faults := fs3\<rparr>))\<lparr>pr_faults := gs\<rparr>))"
      "set gs \<subseteq> set fs3" "set fs3 \<subseteq> set (pr_faults p2)"
  proof -
    obtain w y where y: "sys_ensure ''identity drop failed'' (set_gids uid) p2 = (Inr w, y)"
      and z: "sys_ensure ''identity drop failed'' (set_uids uid) y = (Inr v3, p3)"
      using 3 by (auto simp: drop_ids_def sbind_eq_Inr_iff)
    from sys_ensure_ok [OF y] sys_ensure_ok [OF z] that show thesis by (auto simp: set_gids_def)
  qed
  obtain fs4 where q: "q = p3\<lparr>pr_faults := fs4, pr_caps := (0, 0, 0)\<rparr>" "set fs4 \<subseteq> set (pr_faults p3)"
    using sys_ensure_ok [OF 4] by auto
  have "pr_known p \<le> 0 + 64" using assms(2) by (simp add: honest_def)
  from drop_bounding_ok [OF 1 assms(2) this] obtain fs where
      p1: "p1 = p\<lparr>pr_bounding := filter (\<lambda>c. pr_known p \<le> c) (pr_bounding p), pr_faults := fs\<rparr>"
        "set fs \<subseteq> set (pr_faults p)"
    by auto
  with p2 p3 q show ?thesis
    by (intro exI [of _ fs4]) (auto simp: with_identity_def set_gids_def set_uids_def kept_signal_def)
qed

lemma set_identity_ok:
  assumes "set_identity uid groups p = (Inr u, q)" and "honest p"
  shows "dropped uid groups q \<and> honest q \<and> pr_context q = pr_context p \<and> pr_escape q = pr_escape p
    \<and> pr_no_new_privs q = pr_no_new_privs p \<and> pr_dumpable q = pr_dumpable p
    \<and> pr_death_signal q = kept_signal uid p"
  using set_identity_exact [OF assms] assms(2)
  by (auto simp: with_identity_def dropped_def honest_def list_all_iff)

text \<open>The confinement of the network worker and of a service without root.\<close>

definition network_confined :: "proc \<Rightarrow> bool" where
  "network_confined p \<longleftrightarrow>
     dropped 2000 [3003] p \<and> \<not> pr_escape p \<and> pr_context p = ''u:r:altdb_net:s0''
       \<and> pr_no_new_privs p \<and> \<not> pr_dumpable p"

definition shell_confined :: "bool \<Rightarrow> proc \<Rightarrow> bool" where
  "shell_confined allow_su p \<longleftrightarrow>
     dropped 2000 shell_groups p \<and> pr_context p = ''u:r:shell:s0'' \<and> (allow_su \<or> \<not> pr_escape p)"

lemma restrict_network_ok:
  assumes "restrict_network android False p = (Inr u, q)" and "honest p"
  shows "network_confined q \<and> pr_death_signal q = kept_signal 2000 p"
proof -
  obtain v p1 where 1: "prevent_escalation p = (Inr v, p1)"
    and r1: "sbind (set_identity 2000 [3003] p1) (\<lambda>_ p.
        sbind (set_context ''u:r:altdb_net:s0'' p) (\<lambda>_ p.
        sbind (sys_ensure ''no_new_privs failed'' (\<lambda>p. p\<lparr>pr_no_new_privs := True\<rparr>) p) (\<lambda>_ p.
          sys_ensure ''dump protection failed'' (\<lambda>p. p\<lparr>pr_dumpable := False\<rparr>) p))) = (Inr u, q)"
    using assms(1) by (auto simp: restrict_network_def sbind_eq_Inr_iff)
  have "honest p1" "\<not> pr_escape p1" "kept_signal 2000 p1 = kept_signal 2000 p"
    using prevent_escalation_ok [OF 1] assms(2) by (auto simp: honest_def kept_signal_def)
  with r1 show ?thesis
    by (auto simp: sbind_eq_Inr_iff network_confined_def dropped_def
        dest!: set_identity_ok set_context_ok sys_ensure_ok)
qed

lemma restrict_service_exact:
  assumes "restrict_service android False allow_su False p = (Inr u, q)" and "honest p"
  shows "\<exists>fs. q = (with_identity 2000 shell_groups p)
      \<lparr>pr_escape := allow_su \<and> pr_escape p, pr_context := ''u:r:shell:s0'', pr_faults := fs\<rparr>"
proof -
  obtain v p1 where 1: "(if \<not> allow_su then prevent_escalation p else (Inr (), p)) = (Inr v, p1)"
    and r1: "sbind (set_identity 2000 shell_groups p1) (\<lambda>_ p. set_context ''u:r:shell:s0'' p) = (Inr u, q)"
    using assms(1) by (auto simp: restrict_service_def sbind_eq_Inr_iff)
  obtain fs where p1: "p1 = p\<lparr>pr_faults := fs, pr_escape := allow_su \<and> pr_escape p\<rparr>" "set fs \<subseteq> set (pr_faults p)"
  proof (cases allow_su)
    case True
    with 1 that [of "pr_faults p"] show thesis by simp
  next
    case False
    with 1 prevent_escalation_ok [of p v p1] that show thesis by auto
  qed
  then have "honest p1" using assms(2) by (auto simp: honest_def)
  with r1 obtain gs hs where
      q: "q = ((with_identity 2000 shell_groups p1)\<lparr>pr_faults := gs\<rparr>)\<lparr>pr_faults := hs, pr_context := ''u:r:shell:s0''\<rparr>"
    by (auto simp: sbind_eq_Inr_iff dest!: set_identity_exact set_context_ok)
  show ?thesis using p1(1) by (intro exI [of _ hs]) (simp add: q with_identity_def kept_signal_def)
qed

lemma restrict_service_ok:
  assumes "restrict_service android False allow_su False p = (Inr u, q)" and "honest p"
  shows "shell_confined allow_su q \<and> pr_death_signal q = kept_signal 2000 p"
  using restrict_service_exact [OF assms]
  by (auto simp: with_identity_def shell_confined_def dropped_def list_all_iff)

text \<open>A process of root with a script, for the examples.\<close>

definition root_proc :: "nat option list \<Rightarrow> proc" where
  "root_proc faults =
     \<lparr>pr_uids = (0, 0, 0), pr_gids = (0, 0, 0), pr_groups = [], pr_bounding = [0, 1], pr_known = 2,
      pr_caps = (-1, -1, 0), pr_context = ''u:r:ksu:s0'', pr_no_new_privs = False, pr_dumpable = True,
      pr_escape = True, pr_death_signal = None, pr_parent = 2, pr_faults = faults\<rparr>"

end
