(* ===== verification/Services.thy ===== *)
theory Services
  imports Protocol Ipc Privileges
begin

text \<open>
  \<open>src/src/unix/services.rs\<close>: the helper process of one service. Which service a request starts,
  the parsing of shell requests, the environment of the shell, and the copying of input and
  output. Pipes, the terminal and the socket are parameters: what a read delivers is a script,
  what a write does is a function on a state.
\<close>

section \<open>Shell requests\<close>

record shell_args =
  sa_command :: string
  sa_pty :: bool
  sa_v2 :: bool
  sa_term :: string

definition plain_command :: "string \<Rightarrow> shell_args" where
  "plain_command c = \<lparr>sa_command = c, sa_pty = False, sa_v2 = False, sa_term = ''dumb''\<rparr>"

definition reboot_targets :: "string list" where
  "reboot_targets =
     [[], ''bootloader'', ''recovery'', ''sideload'', ''sideload-auto-reboot'', ''fastboot'']"

fun shell_options :: "string list \<Rightarrow> shell_args \<Rightarrow> err + shell_args" where
  "shell_options [] a = Inr a"
| "shell_options (opt # opts) a =
     (if opt = ''v2'' then shell_options opts (a\<lparr>sa_v2 := True\<rparr>)
      else if opt = ''raw'' then shell_options opts (a\<lparr>sa_pty := False\<rparr>)
      else if opt = ''pty'' then shell_options opts (a\<lparr>sa_pty := True\<rparr>)
      else if starts_with opt ''TERM='' then
        rbind (ensure (length opt \<le> 128) (Msg ''TERM too long'')) (\<lambda>_.
          shell_options opts (a\<lparr>sa_term := drop 5 opt\<rparr>))
      else shell_options opts a)"

definition shell_args_parse :: "string \<Rightarrow> err + shell_args" where
  "shell_args_parse name =
     rbind (ensure (length name \<le> 4096 \<and> NUL \<notin> set name) (Msg ''invalid service request'')) (\<lambda>_.
     case strip_prefix ''exec:'' name of
       Some command \<Rightarrow> Inr (plain_command command)
     | None \<Rightarrow>
         (case strip_prefix ''reboot:'' name of
            Some target \<Rightarrow>
              rbind (ensure (target \<in> set reboot_targets) (Msg ''unsupported reboot target'')) (\<lambda>_.
              rbind (ensure (\<not> starts_with target ''sideload'') (Msg ''sideload is not supported'')) (\<lambda>_.
                Inr (plain_command (''/system/bin/reboot '' @ target))))
          | None \<Rightarrow>
              (case split_once (CHR '':'') name of
                 None \<Rightarrow> Inl (Msg ''unsupported service'')
               | Some (header, command) \<Rightarrow>
                   let options = split_on (\<lambda>c. c = CHR '','') header
                   in rbind (ensure (hd options = ''shell'') (Msg ''unsupported service'')) (\<lambda>_.
                        shell_options (tl options)
                          \<lparr>sa_command = command, sa_pty = (command = []), sa_v2 = False,
                           sa_term = ''dumb''\<rparr>))))"

section \<open>Which service runs\<close>

text \<open>\<open>run\<close> after the checks of the bootstrap: what the request selects.\<close>

datatype service_action =
    BindListener string
  | ServeSync
  | RelayTcp u16
  | RelayUnix string
  | RunShell shell_args

definition service_select :: "service_start \<Rightarrow> err + service_action" where
  "service_select start =
     (if ss_bind start then Inr (BindListener (ss_name start))
      else if ss_name start = ''sync:'' then Inr ServeSync
      else case strip_prefix ''tcp:'' (ss_name start) of
        Some spec \<Rightarrow> rbind (parse_u16 spec) (\<lambda>port. Inr (RelayTcp port))
      | None \<Rightarrow>
          if starts_with (ss_name start) ''localabstract:''
             \<or> starts_with (ss_name start) ''localfilesystem:'' then Inr (RelayUnix (ss_name start))
          else rbind (shell_args_parse (ss_name start)) (\<lambda>args. Inr (RunShell args)))"

text \<open>
  The start of the process: the child's set-up, the bootstrap message with exactly one
  descriptor, and the identity restriction, all before any service code runs. \<open>received\<close> is the
  message with the number of its descriptors.
\<close>

definition service_run ::
    "bool \<Rightarrow> (err + service_start \<times> nat) \<Rightarrow> proc \<Rightarrow> (service_action, proc) outcome" where
  "service_run android received p =
     sbind (child_setup p) (\<lambda>_ p.
       case received of
         Inl e \<Rightarrow> (Inl e, p)
       | Inr (start, fds) \<Rightarrow>
           if fds \<noteq> 1 then (Inl (Msg ''service requires one data descriptor''), p)
           else sbind (restrict_service android (ss_root start) (ss_allow_su start) (ss_test start) p)
                  (\<lambda>_ p. (service_select start, p)))"

text \<open>A file-system listener is removed when its binder ends.\<close>

definition bound_path :: "string \<Rightarrow> string option" where
  "bound_path name = strip_prefix ''localfilesystem:'' name"

text \<open>
  The process of a listener: bind, hand the descriptor and the address it got to the supervisor,
  wait for the end of the stream, remove the socket file. \<open>send\<close> and \<open>remove\<close> act on the system.
\<close>

definition service_bind ::
    "('fd, 'os) unix_sys \<Rightarrow> (string \<Rightarrow> 'fd \<Rightarrow> 'os \<Rightarrow> (unit, 'os) outcome) \<Rightarrow> (string \<Rightarrow> 'os \<Rightarrow> 'os)
       \<Rightarrow> string \<Rightarrow> 'os \<Rightarrow> (unit, 'os) outcome" where
  "service_bind sys send remove name os =
     sbind (reverse_listener sys name os) (\<lambda>(fd, spec) os.
     sbind (send spec fd os) (\<lambda>_ os.
       (Inr (), case bound_path name of Some path \<Rightarrow> remove path os | None \<Rightarrow> os)))"

text \<open>
  \<open>io::copy\<close> from a script of reads: an interrupted read is repeated.
\<close>

fun io_copy :: "(u8 list \<Rightarrow> 'w \<Rightarrow> (unit, 'w) outcome) \<Rightarrow> (io_error + u8 list) list \<Rightarrow> 'w \<Rightarrow> (unit, 'w) outcome" where
  "io_copy put [] w = (Inr (), w)"
| "io_copy put (Inl e # rs) w = (if io_kind_of e = Interrupted then io_copy put rs w else (Inl (Io e), w))"
| "io_copy put (Inr b # rs) w =
     (if b = [] then (Inr (), w) else sbind (put b w) (\<lambda>_ w. io_copy put rs w))"

text \<open>
  \<open>Duplex\<close>: a socket as the relay uses it. \<open>du_duplicate\<close> is the outcome of \<open>try_clone\<close>; what shutting
  down answers is ignored.
\<close>

record 'w duplex =
  du_put :: "u8 list \<Rightarrow> 'w \<Rightarrow> (unit, 'w) outcome"
  du_shut_write :: "'w \<Rightarrow> 'w"
  du_shut_both :: "'w \<Rightarrow> 'w"
  du_duplicate :: "io_error option"

text \<open>
  \<open>relay\<close> copies both ways in two threads, which share nothing. When the host's side ends, the service
  is told so while its own data still flows; when the service ends, the host's side is shut altogether,
  and the thread is joined. The result is that of the copy towards the host.
\<close>

definition relay ::
    "'u duplex \<Rightarrow> 'd duplex \<Rightarrow> (io_error + u8 list) list \<Rightarrow> (io_error + u8 list) list \<Rightarrow> 'u \<Rightarrow> 'd
       \<Rightarrow> (err + unit) \<times> 'u \<times> 'd" where
  "relay service host from_host from_service u d =
     (case du_duplicate host of
        Some e \<Rightarrow> (Inl (Io e), u, d)
      | None \<Rightarrow>
          (case du_duplicate service of
             Some e \<Rightarrow> (Inl (Io e), u, d)
           | None \<Rightarrow>
               let (_, u) = io_copy (du_put service) from_host u;
                   (result, d) = io_copy (du_put host) from_service d
               in (result, du_shut_write service u, du_shut_both host d)))"

text \<open>What a script of reads delivers to a copy, and whether it ends without a failure.\<close>

fun copy_data :: "(io_error + u8 list) list \<Rightarrow> u8 list" where
  "copy_data [] = []"
| "copy_data (Inl e # rs) = (if io_kind_of e = Interrupted then copy_data rs else [])"
| "copy_data (Inr b # rs) = (if b = [] then [] else b @ copy_data rs)"

fun copy_ends :: "(io_error + u8 list) list \<Rightarrow> bool" where
  "copy_ends [] \<longleftrightarrow> True"
| "copy_ends (Inl e # rs) \<longleftrightarrow> io_kind_of e = Interrupted \<and> copy_ends rs"
| "copy_ends (Inr b # rs) \<longleftrightarrow> b = [] \<or> copy_ends rs"

text \<open>A peer that takes everything until its side is shut: its bytes, and whether it saw the end.\<close>

definition open_peer :: "(u8 list \<times> bool) duplex" where
  "open_peer =
     \<lparr>du_put = (\<lambda>b (w, shut). if shut then (Inl (Msg ''broken pipe''), w, shut) else (Inr (), w @ b, shut)),
      du_shut_write = (\<lambda>(w, _). (w, True)), du_shut_both = (\<lambda>(w, _). (w, True)), du_duplicate = None\<rparr>"

lemma io_copy_data:
  "io_copy (du_put open_peer) rs (w, False) = (r, p) \<Longrightarrow>
     p = (w @ copy_data rs, False) \<and> (is_ok r \<longleftrightarrow> copy_ends rs)"
proof (induction rs arbitrary: w rule: copy_data.induct)
  case (3 b rs)
  then show ?case
    by (cases "b = []") (use "3.IH" [of "w @ b"] in \<open>auto simp: open_peer_def\<close>)
qed (auto split: if_splits)

text \<open>
  A relay between such peers loses nothing in either direction, whatever the other direction does, and
  ends both.
\<close>

lemma relay_copies:
  "relay open_peer open_peer from_host from_service (u, False) (d, False) = (r, u', d') \<Longrightarrow>
     u' = (u @ copy_data from_host, True) \<and> d' = (d @ copy_data from_service, True)
       \<and> (is_ok r \<longleftrightarrow> copy_ends from_service)"
proof -
  assume run: "relay open_peer open_peer from_host from_service (u, False) (d, False) = (r, u', d')"
  obtain r1 p1 where 1: "io_copy (du_put open_peer) from_host (u, False) = (r1, p1)" by (rule prod.exhaust)
  obtain r2 p2 where 2: "io_copy (du_put open_peer) from_service (d, False) = (r2, p2)" by (rule prod.exhaust)
  have "du_duplicate open_peer = None" by (simp add: open_peer_def)
  with run 1 2 have "r = r2" "u' = du_shut_write open_peer p1" "d' = du_shut_both open_peer p2"
    by (simp_all add: relay_def)
  with io_copy_data [OF 1] io_copy_data [OF 2] show ?thesis by (simp add: open_peer_def)
qed

section \<open>The shell process\<close>

record process =
  pr_program :: string
  pr_args :: "string list"
  pr_env :: "(string \<times> string) list"
  pr_dir :: string

definition shell_process :: "bool \<Rightarrow> u32 \<Rightarrow> shell_args \<Rightarrow> process" where
  "shell_process test uid args =
     (let shell = (if test then ''/bin/sh'' else ''/system/bin/sh'')
      in \<lparr>pr_program = shell,
          pr_args = (if sa_command args = [] then [] else [''-c'', sa_command args]),
          pr_env = [(''PATH'', if test then ''/usr/bin:/bin'' else ''/system/bin:/system/xbin''),
                    (''HOME'', if test then ''/tmp'' else ''/data/local/tmp''),
                    (''SHELL'', shell),
                    (''TERM'', sa_term args),
                    (''USER'', if uid = 0 then ''root'' else ''shell'')],
          pr_dir = ''/''\<rparr>)"

record winsize =
  ws_row :: u16
  ws_col :: u16
  ws_xpixel :: u16
  ws_ypixel :: u16

definition trim_nuls :: "string \<Rightarrow> string" where
  "trim_nuls s = rev (dropWhile (\<lambda>c. c = NUL) (rev s))"

fun parse_numbers :: "string list \<Rightarrow> err + u16 list" where
  "parse_numbers [] = Inr []"
| "parse_numbers (s # ss) = rbind (parse_u16 s) (\<lambda>n. rbind (parse_numbers ss) (\<lambda>ns. Inr (n # ns)))"

definition window_size :: "u8 list \<Rightarrow> err + winsize" where
  "window_size data =
     rbind (from_utf8 data) (\<lambda>text.
     rbind (parse_numbers (split_on (\<lambda>c. c = CHR ''x'' \<or> c = CHR '','') (trim_nuls text))) (\<lambda>ns.
       case ns of
         [a, b, c, d] \<Rightarrow> Inr \<lparr>ws_row = a, ws_col = b, ws_xpixel = c, ws_ypixel = d\<rparr>
       | _ \<Rightarrow> Inl (Msg ''invalid terminal size'')))"

text \<open>\<open>ioctl\<close> is the kernel's \<open>TIOCSWINSZ\<close>: whether it succeeded.\<close>

definition resize :: "(winsize \<Rightarrow> 'w \<Rightarrow> bool \<times> 'w) \<Rightarrow> u8 list \<Rightarrow> 'w \<Rightarrow> (unit, 'w) outcome" where
  "resize ioctl data w =
     (case window_size data of
        Inl e \<Rightarrow> (Inl e, w)
      | Inr ws \<Rightarrow> (let (ok, w) = ioctl ws w in (ensure ok (Msg ''terminal resize failed''), w)))"

section \<open>Input\<close>

text \<open>
  The socket delivers \<open>bytes\<close>, then ends. \<open>put\<close> is \<open>write_all\<close> on the standard input of the shell.
\<close>

function input_frames ::
    "bool \<Rightarrow> (u8 list \<Rightarrow> 'w \<Rightarrow> (unit, 'w) outcome) \<Rightarrow> (winsize \<Rightarrow> 'w \<Rightarrow> bool \<times> 'w) \<Rightarrow> u8 list \<Rightarrow> 'w
       \<Rightarrow> (unit, 'w) outcome" where
  "input_frames pty put ioctl bytes w =
     (case shell_read bytes of
        Inl e \<Rightarrow> (Inl e, w)
      | Inr ((channel, data), rest) \<Rightarrow>
          if channel = 0 then sbind (put data w) (\<lambda>_ w. input_frames pty put ioctl rest w)
          else if channel = 4 then
            if data \<noteq> [] then (Inl (Msg ''invalid close-stdin frame''), w)
            else if pty then put [4] w else (Inr (), w)
          else if channel = 5 then
            if pty then sbind (resize ioctl data w) (\<lambda>_ w. input_frames pty put ioctl rest w)
            else input_frames pty put ioctl rest w
          else (Inl (Msg ''invalid shell input channel''), w))"
  by pat_completeness auto
termination
  by (relation "measure (\<lambda>(pty, put, ioctl, bytes, w). length bytes)") (auto dest: shell_read_progress)

declare input_frames.simps [simp del]

text \<open>Without shell frames: the results of the reads, one after the other; when they are used up
  the stream has ended.\<close>

fun input_raw :: "(u8 list \<Rightarrow> 'w \<Rightarrow> (unit, 'w) outcome) \<Rightarrow> (io_error + u8 list) list \<Rightarrow> 'w \<Rightarrow> (unit, 'w) outcome" where
  "input_raw put [] w = (Inr (), w)"
| "input_raw put (Inl e # rs) w = (Inl (Io e), w)"
| "input_raw put (Inr b # rs) w =
     (if b = [] then (Inr (), w) else sbind (put b w) (\<lambda>_ w. input_raw put rs w))"

text \<open>\<open>input\<close>: any failure sends SIGHUP to the shell's process group.\<close>

definition input ::
    "bool \<Rightarrow> bool \<Rightarrow> (u8 list \<Rightarrow> 'w \<Rightarrow> (unit, 'w) outcome) \<Rightarrow> (winsize \<Rightarrow> 'w \<Rightarrow> bool \<times> 'w)
       \<Rightarrow> (io_error + u8 list) list \<Rightarrow> u8 list \<Rightarrow> 'w \<Rightarrow> bool \<times> 'w" where
  "input v2 pty put ioctl reads bytes w =
     (let (r, w) = (if v2 then input_frames pty put ioctl bytes w else input_raw put reads w)
      in (\<not> is_ok r, w))"

section \<open>Output\<close>

text \<open>
  One round of \<open>output\<close> for a pipe: a read, then a write under the lock. \<open>EIO\<close> (number 5) is how a
  terminal says that the other side is closed. The result tells whether the loop goes on; a script
  that is used up is the end of the pipe. \<open>put\<close> takes the lock and writes, and may fail.
\<close>

type_synonym reads = "(io_error + u8 list) list"

definition output_round ::
    "bool \<Rightarrow> u8 \<Rightarrow> (u8 list \<Rightarrow> 'w \<Rightarrow> (unit, 'w) outcome) \<Rightarrow> reads \<Rightarrow> 'w \<Rightarrow> (err + reads option) \<times> 'w" where
  "output_round v2 channel put rs w =
     (case rs of
        [] \<Rightarrow> (Inr None, w)
      | Inl e # rs \<Rightarrow> if io_os e = Some 5 then (Inr None, w) else (Inl (Io e), w)
      | Inr b # rs \<Rightarrow>
          if b = [] then (Inr None, w)
          else sbind (put (if v2 then shell_frame channel b else b) w) (\<lambda>_ w. (Inr (Some rs), w)))"

text \<open>
  The output threads of a shell: each its channel and its reads, or \<open>None\<close> when it has ended. A
  schedule says which thread has the next round; the lock makes rounds atomic.
\<close>

type_synonym writers = "(u8 \<times> reads option) list"

definition writer_step ::
    "bool \<Rightarrow> (u8 list \<Rightarrow> 'w \<Rightarrow> (unit, 'w) outcome) \<Rightarrow> nat \<Rightarrow> writers \<Rightarrow> 'w \<Rightarrow> writers \<times> 'w" where
  "writer_step v2 put i ts w =
     (if i < length ts then
        (case ts ! i of
           (channel, None) \<Rightarrow> (ts, w)
         | (channel, Some rs) \<Rightarrow>
             (let (r, w) = output_round v2 channel put rs w
              in (ts[i := (channel, case r of Inl _ \<Rightarrow> None | Inr next \<Rightarrow> next)], w)))
      else (ts, w))"

fun writers_run ::
    "bool \<Rightarrow> (u8 list \<Rightarrow> 'w \<Rightarrow> (unit, 'w) outcome) \<Rightarrow> nat list \<Rightarrow> writers \<Rightarrow> 'w \<Rightarrow> writers \<times> 'w" where
  "writers_run v2 put [] ts w = (ts, w)"
| "writers_run v2 put (i # is) ts w =
     (let (ts, w) = writer_step v2 put i ts w in writers_run v2 put is ts w)"

text \<open>The threads of a shell: a terminal has one, pipes have two.\<close>

definition shell_writers :: "bool \<Rightarrow> reads \<Rightarrow> reads \<Rightarrow> writers" where
  "shell_writers pty out errors =
     (if pty then [(1, Some out)] else [(1, Some out), (2, Some errors)])"

text \<open>The exit code: \<open>status.code()\<close> or 128 plus the signal.\<close>

definition exit_code :: "int option \<Rightarrow> int option \<Rightarrow> u8" where
  "exit_code status signal =
     word_of_int (case status of Some c \<Rightarrow> c
                  | None \<Rightarrow> 128 + (case signal of Some s \<Rightarrow> s | None \<Rightarrow> 1))"

text \<open>The end of \<open>shell\<close>: after both output threads have ended the code goes out, if at all, last.\<close>

definition shell_end ::
    "bool \<Rightarrow> (u8 list \<Rightarrow> 'w \<Rightarrow> (unit, 'w) outcome) \<Rightarrow> int option \<Rightarrow> int option \<Rightarrow> 'w \<Rightarrow> (unit, 'w) outcome" where
  "shell_end v2 put status signal w =
     (if v2 then put (shell_frame 3 [exit_code status signal]) w else (Inr (), w))"


section \<open>What the client sees\<close>

text \<open>Over a connection that takes everything: a write appends.\<close>

definition append_put :: "u8 list \<Rightarrow> u8 list \<Rightarrow> (unit, u8 list) outcome" where
  "append_put b w = (Inr (), w @ b)"

type_synonym frames = "(u8 \<times> u8 list) list"

definition frames_bytes :: "frames \<Rightarrow> u8 list" where
  "frames_bytes fs = concat (map (\<lambda>(c, d). shell_frame c d) fs)"

definition channel_data :: "u8 \<Rightarrow> frames \<Rightarrow> u8 list" where
  "channel_data c fs = concat (map snd (filter (\<lambda>f. fst f = c) fs))"

definition small_frames :: "frames \<Rightarrow> bool" where
  "small_frames fs \<longleftrightarrow> list_all (\<lambda>f. length (snd f) \<le> MAX_PAYLOAD) fs"

lemma frames_simps [simp]:
  "frames_bytes [] = []" "frames_bytes ((c, d) # fs) = shell_frame c d @ frames_bytes fs"
  "frames_bytes (fs @ gs) = frames_bytes fs @ frames_bytes gs"
  "channel_data a [] = []" "channel_data a ((c, d) # fs) = (if c = a then d else []) @ channel_data a fs"
  "channel_data a (fs @ gs) = channel_data a fs @ channel_data a gs"
  "small_frames []" "small_frames ((c, d) # fs) \<longleftrightarrow> length d \<le> MAX_PAYLOAD \<and> small_frames fs"
  "small_frames (fs @ gs) \<longleftrightarrow> small_frames fs \<and> small_frames gs"
  by (simp_all add: frames_bytes_def channel_data_def small_frames_def)

text \<open>A client cuts the stream into frames again.\<close>

function read_frames :: "u8 list \<Rightarrow> frames option" where
  "read_frames bytes =
     (if bytes = [] then Some []
      else case shell_read bytes of
        Inl e \<Rightarrow> None
      | Inr (f, rest) \<Rightarrow> map_option ((#) f) (read_frames rest))"
  by pat_completeness auto
termination
  by (relation "measure length") (auto dest: shell_read_progress)

declare read_frames.simps [simp del]

lemma read_frames_bytes: "small_frames fs \<Longrightarrow> read_frames (frames_bytes fs) = Some fs"
proof (induction fs)
  case Nil
  then show ?case by (simp add: read_frames.simps)
next
  case (Cons f fs)
  obtain c d where f: "f = (c, d)" by fastforce
  have "shell_frame c d @ frames_bytes fs \<noteq> []" by (simp add: shell_frame_def)
  with Cons f show ?case by (simp add: read_frames.simps [of "_ @ _"] shell_read_frame)
qed

text \<open>The data of a pipe up to its end or its first error.\<close>

fun pipe_data :: "reads \<Rightarrow> u8 list" where
  "pipe_data [] = []"
| "pipe_data (Inl e # rs) = []"
| "pipe_data (Inr b # rs) = (if b = [] then [] else b @ pipe_data rs)"

fun thread_data :: "u8 \<times> reads option \<Rightarrow> u8 list" where
  "thread_data (c, None) = []"
| "thread_data (c, Some rs) = pipe_data rs"

fun thread_small :: "u8 \<times> reads option \<Rightarrow> bool" where
  "thread_small (c, None) = True"
| "thread_small (c, Some rs) = list_all (\<lambda>r. case r of Inl _ \<Rightarrow> True | Inr b \<Rightarrow> length b \<le> CHUNK) rs"

lemma writer_step_ok:
  assumes "writer_step True append_put i ts w = (ts', w')" and "list_all thread_small ts"
    and "distinct (map fst ts)"
  shows "\<exists>fs. w' = w @ frames_bytes fs \<and> small_frames fs \<and> list_all thread_small ts' \<and> map fst ts' = map fst ts
    \<and> (\<forall>j < length ts. channel_data (fst (ts ! j)) fs @ thread_data (ts' ! j) = thread_data (ts ! j))"
proof (cases "i < length ts \<and> snd (ts ! i) \<noteq> None")
  case False
  then have "ts' = ts \<and> w' = w"
    using assms(1) by (auto simp: writer_step_def split: prod.splits option.splits if_splits)
  with assms show ?thesis by (intro exI [of _ "[]"]) auto
next
  case True
  then obtain c rs where t: "ts ! i = (c, Some rs)" and i: "i < length ts"
    by (cases "ts ! i") auto
  have sm: "thread_small (c, Some rs)" using assms(2) i t by (metis list_all_length)
  obtain r v where r: "output_round True c append_put rs w = (r, v)" by fastforce
  let ?new = "case r of Inl _ \<Rightarrow> None | Inr nxt \<Rightarrow> nxt"
  have new: "ts' = ts[i := (c, ?new)]" "w' = v"
    using assms(1) i t r by (auto simp: writer_step_def)
  have round: "\<exists>fs. v = w @ frames_bytes fs \<and> small_frames fs \<and> thread_small (c, ?new)
      \<and> set (map fst fs) \<subseteq> {c} \<and> channel_data c fs @ thread_data (c, ?new) = pipe_data rs"
  proof (cases rs)
    case Nil
    with r show ?thesis by (intro exI [of _ "[]"]) (auto simp: output_round_def)
  next
    case (Cons e rest)
    show ?thesis
    proof (cases e)
      case (Inl x)
      with Cons r show ?thesis by (intro exI [of _ "[]"]) (auto simp: output_round_def split: if_splits)
    next
      case (Inr b)
      show ?thesis
      proof (cases "b = []")
        case True
        with Cons Inr r show ?thesis by (intro exI [of _ "[]"]) (auto simp: output_round_def)
      next
        case False
        with Cons Inr r sm show ?thesis
          by (intro exI [of _ "[(c, b)]"])
            (auto simp: output_round_def append_put_def CHUNK_def MAX_PAYLOAD_def)
      qed
    qed
  qed
  then obtain fs where fs: "v = w @ frames_bytes fs" "small_frames fs" "thread_small (c, ?new)"
      "set (map fst fs) \<subseteq> {c}" "channel_data c fs @ thread_data (c, ?new) = pipe_data rs" by blast
  have other: "channel_data a fs = []" if "a \<noteq> c" for a
    using fs(4) that by (auto simp: channel_data_def filter_empty_conv)
  have "channel_data (fst (ts ! j)) fs @ thread_data (ts' ! j) = thread_data (ts ! j)" if j: "j < length ts" for j
  proof (cases "j = i")
    case True
    with t i new fs(5) show ?thesis by simp
  next
    case False
    have "map fst ts ! j \<noteq> map fst ts ! i"
      using nth_eq_iff_index_eq [OF assms(3), of j i] i j False by simp
    then have "fst (ts ! j) \<noteq> c" using i j t by simp
    then have "channel_data (fst (ts ! j)) fs = []" by (rule other)
    moreover have "ts' ! j = ts ! j" using False new(1) by simp
    ultimately show ?thesis by simp
  qed
  moreover have "list_all thread_small ts'"
    using assms(2) fs(3) set_update_subset_insert [of ts i "(c, ?new)"]
    unfolding new(1) list_all_iff by blast
  moreover have "map fst ts' = map fst ts"
  proof -
    have "map fst ts' = (map fst ts)[i := c]" using new(1) by (simp add: map_update)
    moreover have "map fst ts ! i = c" using t i by simp
    ultimately show ?thesis by (metis list_update_id)
  qed
  ultimately show ?thesis using fs(1,2) new(2) by blast
qed

lemma writers_run_ok:
  "writers_run True append_put is ts w = (ts', w') \<Longrightarrow> list_all thread_small ts \<Longrightarrow> distinct (map fst ts)
     \<Longrightarrow> \<exists>fs. w' = w @ frames_bytes fs \<and> small_frames fs \<and> map fst ts' = map fst ts
       \<and> (\<forall>j < length ts. channel_data (fst (ts ! j)) fs @ thread_data (ts' ! j) = thread_data (ts ! j))"
proof (induction "is" arbitrary: ts w)
  case Nil
  then show ?case by (intro exI [of _ "[]"]) auto
next
  case (Cons i "is")
  obtain ts1 w1 where s: "writer_step True append_put i ts w = (ts1, w1)" by fastforce
  obtain fs where fs: "w1 = w @ frames_bytes fs" "small_frames fs" "list_all thread_small ts1"
      "map fst ts1 = map fst ts"
      "\<forall>j < length ts. channel_data (fst (ts ! j)) fs @ thread_data (ts1 ! j) = thread_data (ts ! j)"
    using writer_step_ok [OF s Cons.prems(2,3)] by blast
  have "writers_run True append_put is ts1 w1 = (ts', w')" using Cons.prems(1) s by simp
  from Cons.IH [OF this fs(3)] fs(4) Cons.prems(3) obtain gs where gs: "w' = w1 @ frames_bytes gs"
      "small_frames gs" "map fst ts' = map fst ts1"
      "\<forall>j < length ts1. channel_data (fst (ts1 ! j)) gs @ thread_data (ts' ! j) = thread_data (ts1 ! j)"
    by auto
  have "length ts1 = length ts" using fs(4) by (metis length_map)
  moreover have "fst (ts1 ! j) = fst (ts ! j)" if "j < length ts" for j
    using fs(4) that by (metis length_map nth_map)
  ultimately have "\<forall>j < length ts. channel_data (fst (ts ! j)) (fs @ gs) @ thread_data (ts' ! j) = thread_data (ts ! j)"
    using fs(5) gs(4) by simp
  with fs gs show ?case by (intro exI [of _ "fs @ gs"]) auto
qed

text \<open>
  C36: output reaches the client complete, in order and on its channel. However the two output
  threads of a shell are scheduled, the bytes on the connection are a sequence of whole frames;
  taking the frames of a channel apart gives exactly what its pipe delivered so far, the rest being
  what its thread has still to read; and the exit code, sent when the threads have ended, is the
  last frame, on its own channel.
\<close>

theorem shell_output_demux:
  assumes "thread_small (1, Some out)" and "thread_small (2, Some errors)"
    and "writers_run True append_put schedule (shell_writers pty out errors) [] = (ts, w)"
  shows "\<exists>fs. read_frames w = Some fs
    \<and> channel_data 1 fs @ thread_data (ts ! 0) = pipe_data out
    \<and> (pty \<or> channel_data 2 fs @ thread_data (ts ! 1) = pipe_data errors)
    \<and> read_frames (snd (shell_end True append_put status signal w))
        = Some (fs @ [(3, [exit_code status signal])])"
proof -
  let ?ts = "shell_writers pty out errors"
  have "list_all thread_small ?ts" "distinct (map fst ?ts)"
    using assms(1,2) by (auto simp: shell_writers_def)
  from writers_run_ok [OF assms(3) this] obtain fs where fs: "w = frames_bytes fs" "small_frames fs"
      "\<forall>j < length ?ts. channel_data (fst (?ts ! j)) fs @ thread_data (ts ! j) = thread_data (?ts ! j)"
    by auto
  have "channel_data 1 fs @ thread_data (ts ! 0) = pipe_data out"
    using fs(3) [rule_format, of 0] by (cases pty) (simp_all add: shell_writers_def)
  moreover have "pty \<or> channel_data 2 fs @ thread_data (ts ! 1) = pipe_data errors"
    using fs(3) [rule_format, of 1] by (cases pty) (simp_all add: shell_writers_def)
  moreover have "read_frames (frames_bytes (fs @ [(3, [exit_code status signal])]))
      = Some (fs @ [(3, [exit_code status signal])])"
    using fs(2) by (intro read_frames_bytes) (simp add: MAX_PAYLOAD_def)
  ultimately show ?thesis
    using read_frames_bytes [OF fs(2)] fs(1) by (auto simp: shell_end_def append_put_def)
qed

theorem shell_output_demux_witness:
  "\<exists>ts w fs. writers_run True append_put [1, 0, 1, 0] (shell_writers False [Inr [1, 2]] [Inr [7], Inr [8]]) []
      = (ts, w) \<and> read_frames w = Some fs \<and> channel_data 2 fs @ thread_data (ts ! 1) = [7, 8]"
proof -
  obtain ts w where run: "writers_run True append_put [1, 0, 1, 0]
      (shell_writers False [Inr [1, 2]] [Inr [7], Inr [8]]) [] = (ts, w)" by fastforce
  have "thread_small (1, Some [Inr [1, 2]])" "thread_small (2, Some [Inr [7], Inr [8]])"
    by (simp_all add: CHUNK_def)
  from shell_output_demux [OF this run] run show ?thesis by fastforce
qed

section \<open>What the shell reads\<close>

definition resize_ok :: "u8 \<times> u8 list \<Rightarrow> bool" where
  "resize_ok f \<longleftrightarrow> fst f = 5 \<longrightarrow> is_ok (window_size (snd f))"

lemma input_frames_data:
  "list_all (\<lambda>f. fst f = 0 \<or> fst f = 5) fs \<Longrightarrow> small_frames fs \<Longrightarrow> pty \<longrightarrow> list_all resize_ok fs
     \<Longrightarrow> input_frames pty append_put (\<lambda>_ w. (True, w)) (frames_bytes fs @ shell_frame 4 [] @ rest) w
       = (Inr (), w @ channel_data 0 fs @ (if pty then [4] else []))"
proof (induction fs arbitrary: w)
  case Nil
  have "shell_read (shell_frame 4 [] @ rest) = Inr ((4, []), rest)"
    by (rule shell_read_frame) (simp add: MAX_PAYLOAD_def)
  then show ?case by (simp add: input_frames.simps append_put_def)
next
  case (Cons f fs)
  obtain c d where f: "f = (c, d)" by fastforce
  have rd: "shell_read (shell_frame c d @ frames_bytes fs @ shell_frame 4 [] @ rest)
      = Inr ((c, d), frames_bytes fs @ shell_frame 4 [] @ rest)"
    using Cons.prems(2) f by (intro shell_read_frame) simp
  have ih: "input_frames pty append_put (\<lambda>_ w. (True, w)) (frames_bytes fs @ shell_frame 4 [] @ rest) v
       = (Inr (), v @ channel_data 0 fs @ (if pty then [4] else []))" for v
    using Cons.prems f by (intro Cons.IH) auto
  show ?case
  proof (cases "c = 0")
    case True
    then show ?thesis
      using rd by (subst input_frames.simps) (simp add: ih f append_put_def)
  next
    case False
    then have c: "c = 5" using Cons.prems(1) f by simp
    show ?thesis
    proof (cases pty)
      case True
      then obtain ws where "window_size d = Inr ws"
        using Cons.prems(3) f c by (auto simp: resize_ok_def is_ok_iff)
      with c True show ?thesis
        using rd ih [of w] by (subst input_frames.simps) (simp add: f resize_def ensure_def)
    next
      case False
      with c show ?thesis
        using rd ih [of w] by (subst input_frames.simps) (simp add: f)
    qed
  qed
qed



text \<open>
  A reboot request runs nothing but reboot. Of all requests that start with \<open>reboot:\<close>, those
  that are accepted run one of four fixed commands, without a terminal and without shell frames:
  nothing the host writes after the colon reaches the shell.
\<close>

lemma reboot_commands_fixed:
  assumes "shell_args_parse (''reboot:'' @ target) = Inr a"
  shows "sa_command a \<in> {''/system/bin/reboot '', ''/system/bin/reboot bootloader'',
      ''/system/bin/reboot recovery'', ''/system/bin/reboot fastboot''} \<and> \<not> sa_pty a \<and> \<not> sa_v2 a"
  using assms
  by (auto simp: shell_args_parse_def reboot_targets_def plain_command_def starts_with_def)

section \<open>No service runs with privileges it should not have\<close>

lemma child_setup_ok:
  "child_setup p = (Inr u, q) \<Longrightarrow> honest p \<Longrightarrow> honest q \<and> pr_death_signal q = Some 9
     \<and> pr_uids q = pr_uids p \<and> pr_gids q = pr_gids p"
  by (fastforce simp: child_setup_def sbind_eq_Inr_iff honest_def dest!: sys_ensure_ok)

lemma service_run_confined:
  assumes "honest p" and "service_run android (Inr (start, fds)) p = (Inr action, q)"
    and "\<not> ss_root start" and "\<not> ss_test start"
  shows "shell_confined (ss_allow_su start) q \<and> service_select start = Inr action"
proof -
  obtain u p1 v p2 where 1: "child_setup p = (Inr u, p1)"
    and 2: "restrict_service android False (ss_allow_su start) False p1 = (Inr v, p2)"
    and 3: "service_select start = Inr action" "q = p2"
    using assms(2-4) by (auto simp: service_run_def sbind_eq_Inr_iff split: if_splits)
  from child_setup_ok [OF 1 assms(1)] restrict_service_ok [OF 2] 3 show ?thesis by simp
qed

text \<open>
  A service without root is confined before it starts. Whichever call of the set-up or of the
  identity change fails, a service process that goes on to serve its request, when the supervisor
  did not ask for root, runs with the shell's user, groups and context, holds no capability and
  can gain none, cannot be given root by KernelSU unless the user allowed su.
\<close>

theorem service_confined:
  assumes "honest p" and "service_run android (Inr (start, fds)) p = (Inr action, q)"
    and "\<not> ss_root start" and "\<not> ss_test start"
  shows "shell_confined (ss_allow_su start) q \<and> service_select start = Inr action"
  using assms by (rule service_run_confined)

theorem service_confined_witness:
  "shell_confined False (snd (service_run True (Inr (\<lparr>ss_name = ''sync:'', ss_root = False, ss_allow_su = False,
     ss_test = False, ss_bind = False\<rparr>, 1)) (root_proc (replicate 20 None))))"
proof -
  let ?s = "\<lparr>ss_name = ''sync:'', ss_root = False, ss_allow_su = False, ss_test = False, ss_bind = False\<rparr>"
  have h: "honest (root_proc (replicate 20 None))" by (simp add: honest_def root_proc_def)
  have "\<exists>q. service_run True (Inr (?s, 1)) (root_proc (replicate 20 None)) = (Inr ServeSync, q)"
    by (simp add: service_run_def child_setup_def restrict_service_def prevent_escalation_def driver_def
        set_identity_def drop_ids_def set_gids_def set_uids_def set_context_def sys_ensure_def sys_do_def cap_read_def
        eval_nat_numeral root_proc_def EINVAL_def service_select_def)
  then obtain q where q: "service_run True (Inr (?s, 1)) (root_proc (replicate 20 None)) = (Inr ServeSync, q)" ..
  from service_confined [OF h q] q show ?thesis by simp
qed

end
