(* ===== verification/Native.thy ===== *)
theory Native
  imports Bytes
begin

text \<open>
  The part of \<open>src/src/unix/ksu.rs\<close> that watches Android's own debugging: the properties, the
  process list, the settings, and the monitor that combines them with a grace period. What the
  system says is an argument; times are readings of the clock.
\<close>

section \<open>Properties, processes and settings\<close>

definition native_property_status :: "string \<Rightarrow> string \<Rightarrow> string \<Rightarrow> err + string option" where
  "native_property_status adbd wireless usb =
     (if wireless = ''1'' then Inr (Some ''Native wireless debugging is enabled'')
      else if ''adb'' \<in> set (split_on (\<lambda>c. c = CHR '','') usb) then Inr (Some ''Native USB debugging is enabled'')
      else if adbd \<in> {''running'', ''restarting'', ''stopping''}
      then Inr (Some ''Native adbd is running or stopping'')
      else if adbd = ''stopped'' \<or> adbd = [] then Inr None
      else Inl (Msg ''Cannot determine native adbd state''))"

text \<open>The properties are read one after the other.\<close>

definition native_properties :: "(string \<Rightarrow> err + string) \<Rightarrow> err + string option" where
  "native_properties property =
     rbind (property ''init.svc.adbd'') (\<lambda>adbd.
     rbind (property ''persist.adb.tls_server.enable'') (\<lambda>wireless.
     rbind (property ''sys.usb.state'') (\<lambda>usb. native_property_status adbd wireless usb)))"

text \<open>
  The entries of \<open>/proc\<close> in order: each an error, or a name and the result of reading its \<open>comm\<close>.
  3 is the number of \<open>ESRCH\<close>.
\<close>

fun native_processes_loop :: "(io_error + string \<times> (io_error + string)) list \<Rightarrow> err + string option" where
  "native_processes_loop [] = Inr None"
| "native_processes_loop (Inl e # es) = Inl (Io e)"
| "native_processes_loop (Inr (name, comm) # es) =
     (if \<not> list_all is_digit name then native_processes_loop es
      else case comm of
        Inr c \<Rightarrow> if trim c = ''adbd'' then Inr (Some ''A running native adbd process was detected'')
                else native_processes_loop es
      | Inl e \<Rightarrow> if io_kind_of e = NotFound \<or> io_os e = Some 3 then native_processes_loop es
                else Inl (Io e))"

definition native_processes ::
    "io_error + (io_error + string \<times> (io_error + string)) list \<Rightarrow> err + string option" where
  "native_processes dir = (case dir of Inl e \<Rightarrow> Inl (Io e) | Inr es \<Rightarrow> native_processes_loop es)"

text \<open>
  \<open>str::lines\<close>: split at line feeds; the carriage return before a line feed is dropped. What follows
  the last line feed is a line as it stands, unless it is empty.
\<close>

definition lines :: "string \<Rightarrow> string list" where
  "lines text =
     (let ls = split_on (\<lambda>c. c = CHR 0x0A) text
      in map (\<lambda>l. if l \<noteq> [] \<and> last l = CHR 0x0D then butlast l else l) (butlast ls)
           @ (if last ls = [] then [] else [last ls]))"

fun settings_lines :: "string list \<Rightarrow> err + string option" where
  "settings_lines [] = Inr None"
| "settings_lines (l # ls) =
     (case split_once (CHR ''='') l of
        Some (k, v) \<Rightarrow>
          if k = ''adb_enabled'' \<or> k = ''adb_wifi_enabled'' then
            if v = ''1'' then Inr (Some ''Native debugging is enabled in developer options'')
            else if v = ''0'' then settings_lines ls
            else Inl (Msg ''Unrecognized native debugging setting'')
          else settings_lines ls
      | None \<Rightarrow> settings_lines ls)"

definition native_settings_status :: "string \<Rightarrow> err + string option" where
  "native_settings_status text =
     (if \<not> CHR ''='' \<in> set text then Inl (Msg ''System debugging settings are unavailable'')
      else settings_lines (lines text))"

text \<open>
  \<open>settings_output\<close>: the loop over the child's output. An event is one round: the clock, what the
  read gives (when it is tried) and what \<open>try_wait\<close> answers (\<open>Some ok\<close> when the child ended).
  When the events are used up the loop has not returned yet. The result tells also whether the
  child's process group is killed.
\<close>

record round =
  rd_now :: instant
  rd_read :: "io_error + u8 list"
  rd_wait :: "io_error + bool option"

fun settings_loop :: "instant \<Rightarrow> round list \<Rightarrow> bool \<Rightarrow> u8 list \<Rightarrow> (err + u8 list) option" where
  "settings_loop deadline [] eof out = None"
| "settings_loop deadline (r # rs) eof out =
     (if \<not> rd_now r < deadline then Some (Inl (Msg ''Timed out reading debugging settings''))
      else
        let wait = (\<lambda>eof. case rd_wait r of
              Inl e \<Rightarrow> Some (Inl (Io e))
            | Inr None \<Rightarrow> settings_loop deadline rs eof out
            | Inr (Some success) \<Rightarrow>
                if \<not> success then Some (Inl (Msg ''Cannot read system debugging settings''))
                else if eof then Some (Inr out) else settings_loop deadline rs eof out)
        in if eof then wait True
           else case rd_read r of
             Inr b \<Rightarrow>
               if b = [] then wait True
               else if \<not> length out + length b \<le> 1024 * 1024
               then Some (Inl (Msg ''Cannot read system debugging settings''))
               else settings_loop deadline rs False (out @ b)
           | Inl e \<Rightarrow>
               if io_kind_of e = WouldBlock then wait False
               else if io_kind_of e = Interrupted then settings_loop deadline rs False out
               else Some (Inl (Io e)))"

definition settings_output ::
    "io_error option \<Rightarrow> instant \<Rightarrow> nat \<Rightarrow> round list \<Rightarrow> ((err + u8 list) \<times> bool) option" where
  "settings_output nonblock start timeout rounds =
     map_option (\<lambda>r. (r, \<not> is_ok r))
       (case nonblock of Some e \<Rightarrow> Some (Inl (Io e)) | None \<Rightarrow> settings_loop (start + timeout) rounds False [])"

definition read_native_settings :: "err + u8 list \<Rightarrow> err + string option" where
  "read_native_settings output = rbind output (\<lambda>b. rbind (from_utf8 b) native_settings_status)"

section \<open>The state with its grace period\<close>

definition SETTINGS_GRACE :: nat where "SETTINGS_GRACE = secs 120"

datatype native_state = Clear | Paused string | Grace

definition pause_text :: string where
  "pause_text = ''Cannot read native debugging settings or processes; service paused: ''"

text \<open>\<open>native_state\<close>: the new \<open>last_clear\<close> and the state.\<close>

definition native_check ::
    "instant option \<Rightarrow> err + string option \<Rightarrow> err + string option \<Rightarrow> instant \<Rightarrow> instant option \<times> native_state" where
  "native_check last_clear processes settings now =
     (let settings_failed = (processes = Inr None \<and> \<not> is_ok settings)
      in case rbind processes (\<lambda>reason. if reason \<noteq> None then Inr reason else settings) of
           Inr None \<Rightarrow> (Some now, Clear)
         | Inr (Some reason) \<Rightarrow> (None, Paused reason)
         | Inl e \<Rightarrow>
             if settings_failed \<and> (\<exists>checked \<in> set_option last_clear. now - checked < SETTINGS_GRACE)
             then (last_clear, Grace)
             else (None, Paused (pause_text @ err_text e)))"

section \<open>The monitor\<close>

text \<open>
  The thread checks again and again; the supervisor reads the last snapshot. A check is what the
  process list and the settings said and when; settings are not read when the processes already
  decide. \<open>ch_now\<close> is the clock of the check, \<open>ch_stored\<close> the later one of storing its result, from
  which its age counts. \<open>mo_clear\<close> is the closure's \<open>last_clear\<close>.
\<close>

record monitor =
  mo_clear :: "instant option"
  mo_snapshot :: "(instant \<times> native_state) option"

definition monitor_start :: monitor where
  "monitor_start = \<lparr>mo_clear = None, mo_snapshot = None\<rparr>"

record check =
  ch_processes :: "err + string option"
  ch_settings :: "err + string option"
  ch_now :: instant
  ch_stored :: instant

definition monitor_round :: "check \<Rightarrow> monitor \<Rightarrow> monitor" where
  "monitor_round c m =
     (let settings = (if ch_processes c = Inr None then ch_settings c else Inr None);
          (clear, state) = native_check (mo_clear m) (ch_processes c) settings (ch_now c)
      in \<lparr>mo_clear = clear, mo_snapshot = Some (ch_stored c, state)\<rparr>)"

definition checking_text :: string where
  "checking_text = ''Checking native debugging settings and processes''"

text \<open>\<open>status\<close>: the reason to pause, and whether only the settings are waited for.\<close>

definition monitor_status :: "instant \<Rightarrow> bool \<Rightarrow> monitor \<Rightarrow> string option \<times> bool" where
  "monitor_status now running m =
     (case mo_snapshot m of
        None \<Rightarrow> (Some checking_text, False)
      | Some (checked_at, state) \<Rightarrow>
          if secs 6 < now - checked_at then (Some ''Native debugging check is stale; service paused'', False)
          else (case state of
              Clear \<Rightarrow> (None, False)
            | Paused reason \<Rightarrow> (Some reason, False)
            | Grace \<Rightarrow> if running then (None, True) else (Some checking_text, False)))"

section \<open>When the service may run\<close>

text \<open>A check that found nothing: no process, and settings that could be read and are off.\<close>

definition all_clear :: "check \<Rightarrow> bool" where
  "all_clear c \<longleftrightarrow> ch_processes c = Inr None \<and> ch_settings c = Inr None"

text \<open>A check whose settings could not be read, while the processes were fine.\<close>

definition only_settings_failed :: "check \<Rightarrow> bool" where
  "only_settings_failed c \<longleftrightarrow> ch_processes c = Inr None \<and> \<not> is_ok (ch_settings c)"

definition monitor_run :: "check list \<Rightarrow> monitor" where
  "monitor_run cs = foldl (\<lambda>m c. monitor_round c m) monitor_start cs"

lemma native_check_cases:
  "monitor_round c m =
     (if all_clear c then \<lparr>mo_clear = Some (ch_now c), mo_snapshot = Some (ch_stored c, Clear)\<rparr>
      else if only_settings_failed c \<and> (\<exists>t \<in> set_option (mo_clear m). ch_now c - t < SETTINGS_GRACE)
      then \<lparr>mo_clear = mo_clear m, mo_snapshot = Some (ch_stored c, Grace)\<rparr>
      else \<lparr>mo_clear = None, mo_snapshot = Some (ch_stored c,
             Paused (case rbind (ch_processes c) (\<lambda>r. if r \<noteq> None then Inr r else ch_settings c) of
               Inr (Some reason) \<Rightarrow> reason | Inr None \<Rightarrow> [] | Inl e \<Rightarrow> pause_text @ err_text e))\<rparr>)"
  by (cases "ch_processes c"; cases "ch_settings c")
    (auto simp: monitor_round_def native_check_def all_clear_def only_settings_failed_def Let_def
      split: option.splits sum.splits)

text \<open>
  Where \<open>mo_clear\<close> comes from: a clear check, after which only the settings failed, each time
  within the grace period counted from that check.
\<close>

definition grace_since :: "check list \<Rightarrow> instant \<Rightarrow> bool" where
  "grace_since cs t \<longleftrightarrow>
     (\<exists>before c later. cs = before @ c # later \<and> all_clear c \<and> ch_now c = t
       \<and> list_all (\<lambda>d. only_settings_failed d \<and> ch_now d - t < SETTINGS_GRACE) later)"

lemma monitor_run_clear: "mo_clear (monitor_run cs) = Some t \<Longrightarrow> grace_since cs t"
proof (induction cs rule: rev_induct)
  case Nil
  then show ?case by (simp add: monitor_run_def monitor_start_def)
next
  case (snoc c cs)
  let ?m = "monitor_run cs"
  have run: "monitor_run (cs @ [c]) = monitor_round c ?m" by (simp add: monitor_run_def)
  show ?case
  proof (cases "all_clear c")
    case True
    with snoc.prems run have "ch_now c = t" by (simp add: native_check_cases)
    with True show ?thesis
      unfolding grace_since_def by (intro exI [of _ cs] exI [of _ c] exI [of _ "[]"]) simp
  next
    case False
    with snoc.prems run have g: "only_settings_failed c" "mo_clear ?m = Some t" "ch_now c - t < SETTINGS_GRACE"
      by (auto simp: native_check_cases split: if_splits)
    from snoc.IH [OF g(2)] obtain bf d later where d: "cs = bf @ d # later" "all_clear d" "ch_now d = t"
        "list_all (\<lambda>d. only_settings_failed d \<and> ch_now d - t < SETTINGS_GRACE) later"
      unfolding grace_since_def by blast
    with g(1,3) show ?thesis
      unfolding grace_since_def by (intro exI [of _ bf] exI [of _ d] exI [of _ "later @ [c]"]) simp
  qed
qed

text \<open>
  C38: the service never runs on an old or a failed check. Whatever the checks found, if the status
  gives no reason to pause, then the result of the last check was stored at most six seconds ago, and
  it was clear; or the service runs already, the settings alone could not be read, and a clear check
  less than two minutes before this one has been followed by nothing but such failures. So the service
  runs without its settings for less than 126 seconds after the last clear check, and the time
  between the clock reading of the last check and its storing. A native debugging process, a debugging
  setting or an unreadable process list always pauses.
\<close>

theorem native_grace_bounded:
  assumes "monitor_status now running (monitor_run cs) = (None, waiting)"
  shows "\<exists>cs' c. cs = cs' @ [c] \<and> now - ch_stored c \<le> secs 6
    \<and> (if waiting then running \<and> only_settings_failed c 
         \<and> (\<exists>t. grace_since cs t \<and> ch_now c - t < secs 120
              \<and> now < t + secs 126 + (ch_stored c - ch_now c))
       else all_clear c)"
proof (cases cs rule: rev_cases)
  case Nil
  with assms show ?thesis by (simp add: monitor_run_def monitor_start_def monitor_status_def)
next
  case (snoc cs' c)
  let ?m = "monitor_run cs'"
  have run: "monitor_run cs = monitor_round c ?m" by (simp add: monitor_run_def snoc)
  show ?thesis
  proof (cases "all_clear c")
    case True
    with assms run snoc show ?thesis
      by (auto simp: native_check_cases monitor_status_def split: if_splits)
  next
    case False
    with assms run have g: "only_settings_failed c" "waiting" "running" "now - ch_stored c \<le> secs 6"
        "\<exists>t \<in> set_option (mo_clear ?m). ch_now c - t < SETTINGS_GRACE"
      by (auto simp: native_check_cases monitor_status_def split: if_splits)
    then obtain t where t: "mo_clear ?m = Some t" "ch_now c - t < SETTINGS_GRACE" by auto
    then have "mo_clear (monitor_run cs) = Some t"
      using run False g(1) by (simp add: native_check_cases)
    moreover have "now < t + secs 126 + (ch_stored c - ch_now c)"
      using g(4) t(2) by (simp add: SETTINGS_GRACE_def secs_def)
    ultimately show ?thesis
      using monitor_run_clear t(2) g snoc by (auto simp: SETTINGS_GRACE_def)
  qed
qed

theorem native_grace_bounded_witness:
  "monitor_status (secs 100) True (monitor_run
     [\<lparr>ch_processes = Inr None, ch_settings = Inr None, ch_now = secs 10, ch_stored = secs 10\<rparr>,
      \<lparr>ch_processes = Inr None, ch_settings = Inl (Msg []), ch_now = secs 99, ch_stored = secs 99\<rparr>]) = (None, True)
   \<and> grace_since
     [\<lparr>ch_processes = Inr None, ch_settings = Inr None, ch_now = secs 10, ch_stored = secs 10\<rparr>,
      \<lparr>ch_processes = Inr None, ch_settings = Inl (Msg []), ch_now = secs 99, ch_stored = secs 99\<rparr>] (secs 10)"
proof -
  let ?a = "\<lparr>ch_processes = Inr None, ch_settings = Inr None, ch_now = secs 10, ch_stored = secs 10\<rparr>"
  let ?b = "\<lparr>ch_processes = Inr None, ch_settings = Inl (Msg []), ch_now = secs 99, ch_stored = secs 99\<rparr>"
  have s: "monitor_status (secs 100) True (monitor_run [?a, ?b]) = (None, True)"
    by (simp add: monitor_run_def native_check_cases all_clear_def only_settings_failed_def
        monitor_status_def SETTINGS_GRACE_def secs_def)
  from native_grace_bounded [OF s] obtain t where t: "grace_since [?a, ?b] t" by auto
  then have "t = secs 10"
    unfolding grace_since_def by (auto simp: Cons_eq_append_conv all_clear_def)
  with s t show ?thesis by simp
qed

text \<open>
  The bound is the code's: a settings failure found 119 seconds after the last clear check lets the
  service run at second 125, when the next check is late.
\<close>

lemma grace_outlasts_two_minutes:
  "monitor_status (secs 125) True (monitor_run
     [\<lparr>ch_processes = Inr None, ch_settings = Inr None, ch_now = 0, ch_stored = 0\<rparr>,
      \<lparr>ch_processes = Inr None, ch_settings = Inl (Msg []), ch_now = secs 119, ch_stored = secs 119\<rparr>]) = (None, True)"
  by (simp add: monitor_run_def native_check_cases all_clear_def only_settings_failed_def
      monitor_status_def SETTINGS_GRACE_def secs_def)

end
