(* ===== verification/Daemon.thy ===== *)
theory Daemon
  imports Services Native Mdns Store
begin

text \<open>
  \<open>src/src/unix/daemon.rs\<close>: the supervisor. Its state, the control requests, the requests of the
  worker, and the turns of its main loop. What the environment does during one handler (the clock,
  the random source, sockets, processes) is a record \<open>env\<close>; what the supervisor does to it is the
  list \<open>dm_effects\<close>.
\<close>

section \<open>State\<close>

text \<open>A descriptor is a number; a child process is its process number.\<close>

record listening =
  bu_endpoints :: "endpoint list"
  bu_tcp :: "nat list"
  bu_specs :: "endpoint list"
  bu_mdns :: "nat list"

record service =
  sv_pid :: u32
  sv_transport :: u64
  sv_binder :: "string option"
  sv_stopped :: bool
  sv_close_at :: "instant option"

record window =
  wi_epoch :: u64
  wi_code :: string
  wi_expires :: instant
  wi_expires_at :: u64
  wi_failures :: nat
  wi_endpoints :: "endpoint list"

datatype effect =
    Sent message nat
  | WorkerStarted u32
  | WorkerKilled u32
  | ServiceStarted service_start u32
  | BinderClosed u32
  | Terminated u32
  | Killed u32

record daemon =
  dm_store :: store
  dm_test :: bool
  dm_worker :: "u32 option"
  dm_bundle :: "listening option"
  dm_services :: "service list"
  dm_transports :: "(u64, string) btree"
  dm_window :: "window option"
  dm_root :: bool
  dm_state :: string
  dm_reason :: string
  dm_logs :: "(u64 \<times> string) list"
  dm_epoch :: u64
  dm_quit :: bool
  dm_rotate :: "instant option"
  dm_retry_at :: instant
  dm_failures :: nat
  dm_effects :: "effect list"

text \<open>
  \<open>en_send\<close> is the outcome of sending a message to the worker, \<open>en_service_send\<close> of sending the
  start message to a service; \<open>en_listen\<close> and \<open>en_mdns\<close> are the kernel's answers to the calls that
  create listeners and multicast sockets, counted by their second argument; \<open>en_exited\<close> tells
  whether a child has ended, \<open>en_exits\<close> whether it has after the waiting time; \<open>en_bind\<close> is what the
  process of a listener answers in time: its address and the number of descriptors.
\<close>

record env =
  en_now :: instant
  en_time :: u64
  en_draws :: draws
  en_code :: "err + string"
  en_send :: "message \<Rightarrow> err + unit"
  en_service_send :: "err + unit"
  en_listen :: "string option \<Rightarrow> u32 \<times> u16 \<Rightarrow> nat \<Rightarrow> (err + nat \<times> u16) \<times> nat"
  en_mdns :: "endpoint \<Rightarrow> nat \<Rightarrow> (nat, nat) outcome"
  en_pair :: "err + unit"
  en_spawn :: "err + u32"
  en_exited :: "u32 \<Rightarrow> bool"
  en_exits :: "u32 \<Rightarrow> bool"
  en_bind :: "(err + string \<times> nat) option"

definition emit :: "effect list \<Rightarrow> daemon \<Rightarrow> daemon" where
  "emit es d = d\<lparr>dm_effects := dm_effects d @ es\<rparr>"

definition daemon_log :: "env \<Rightarrow> string \<Rightarrow> daemon \<Rightarrow> daemon" where
  "daemon_log e message d =
     (let l = dm_logs d @ [(en_time e, message)] in d\<lparr>dm_logs := drop (length l - 256) l\<rparr>)"

record status =
  su_state :: string
  su_reason :: string
  su_root :: bool
  su_config :: config
  su_hosts :: "host list"
  su_connections :: nat
  su_endpoints :: "string list"
  su_pairing :: "(string \<times> u64 \<times> nat \<times> string list) option"

definition daemon_status :: "daemon \<Rightarrow> status" where
  "daemon_status d =
     \<lparr>su_state = dm_state d, su_reason = dm_reason d, su_root = dm_root d,
      su_config = so_config (dm_store d), su_hosts = so_hosts (dm_store d),
      su_connections = length (dm_transports d),
      su_endpoints = (case dm_bundle d of None \<Rightarrow> [] | Some b \<Rightarrow> map ep_display (bu_endpoints b)),
      su_pairing = map_option (\<lambda>w. (wi_code w, wi_expires_at w, wi_failures w,
        map ep_display (wi_endpoints w))) (dm_window d)\<rparr>"

text \<open>An operation of the store.\<close>

definition on_store :: "(store \<Rightarrow> ('a, store) outcome) \<Rightarrow> daemon \<Rightarrow> ('a, daemon) outcome" where
  "on_store f d = (let (r, s) = f (dm_store d) in (r, d\<lparr>dm_store := s\<rparr>))"

section \<open>Worker and services\<close>

definition daemon_send :: "env \<Rightarrow> message \<Rightarrow> nat \<Rightarrow> daemon \<Rightarrow> (unit, daemon) outcome" where
  "daemon_send e m fds d =
     (if dm_worker d = None then (Inl (Msg ''network worker unavailable''), d)
      else case en_send e m of
        Inl x \<Rightarrow> (Inl x, d)
      | Inr _ \<Rightarrow> (Inr (), emit [Sent m fds] d))"

text \<open>\<open>Service::stop\<close>: closing the binder ends a listener's process, others get SIGTERM.\<close>

definition service_stop :: "env \<Rightarrow> service \<Rightarrow> service \<times> effect list" where
  "service_stop e s =
     (if sv_stopped s then (s, [])
      else let s = s\<lparr>sv_stopped := True\<rparr>
           in if sv_binder s \<noteq> None then (s\<lparr>sv_binder := None\<rparr>, [BinderClosed (sv_pid s)])
              else (s, if en_exited e (sv_pid s) then [] else [Terminated (sv_pid s)]))"

definition stop_services :: "env \<Rightarrow> (service \<Rightarrow> bool) \<Rightarrow> daemon \<Rightarrow> daemon" where
  "stop_services e P d =
     emit (concat (map (\<lambda>s. if P s then snd (service_stop e s) else []) (dm_services d)))
       (d\<lparr>dm_services := map (\<lambda>s. if P s then fst (service_stop e s) else s) (dm_services d)\<rparr>)"

definition end_worker :: "env \<Rightarrow> daemon \<Rightarrow> daemon" where
  "end_worker e d =
     (case dm_worker d of
        None \<Rightarrow> d
      | Some pid \<Rightarrow>
          emit ((if is_ok (en_send e Shutdown) then [Sent Shutdown 0] else [])
              @ (if en_exits e pid then [] else [WorkerKilled pid])) (d\<lparr>dm_worker := None\<rparr>))"

definition stop_worker :: "env \<Rightarrow> daemon \<Rightarrow> daemon" where
  "stop_worker e d =
     (let d = end_worker e (d\<lparr>dm_window := None\<rparr>);
          d = stop_services e (\<lambda>_. True) d;
          d = emit (map (\<lambda>s. Killed (sv_pid s)) (filter (\<lambda>s. \<not> en_exits e (sv_pid s)) (dm_services d))) d
      in d\<lparr>dm_services := [], dm_transports := []\<rparr>)"

definition daemon_stop :: "env \<Rightarrow> string \<Rightarrow> string \<Rightarrow> daemon \<Rightarrow> daemon" where
  "daemon_stop e state reason d =
     (let d = (if state = ''error'' then
                 let n = min (dm_failures d + 1) 6
                 in d\<lparr>dm_failures := n, dm_retry_at := en_now e + secs (2 ^ n)\<rparr>
               else d);
          d = (if dm_worker d \<noteq> None then stop_worker e d else d);
          d = d\<lparr>dm_bundle := None, dm_root := False, dm_rotate := None\<rparr>;
          d = (if dm_state d \<noteq> state \<or> dm_reason d \<noteq> reason then daemon_log e reason d else d)
      in d\<lparr>dm_state := state, dm_reason := reason\<rparr>)"

definition boot_message :: "daemon \<Rightarrow> listening \<Rightarrow> message" where
  "boot_message d b =
     Boot (so_identity (dm_store d)) (so_hosts (dm_store d)) (bu_endpoints b) (bu_specs b) (dm_test d)"

definition start_worker :: "env \<Rightarrow> daemon \<Rightarrow> (unit, daemon) outcome" where
  "start_worker e d =
     (case dm_bundle d of
        None \<Rightarrow> (Inl (Msg ''no listening interfaces''), d)
      | Some b \<Rightarrow>
          (case rbind (en_pair e) (\<lambda>_. en_spawn e) of
             Inl x \<Rightarrow> (Inl x, d)
           | Inr pid \<Rightarrow>
               let d = emit [WorkerStarted pid] d; boot = boot_message d b
               in case en_send e boot of
                    Inl x \<Rightarrow> (Inl x, d)
                  | Inr _ \<Rightarrow>
                      (Inr (), (emit [Sent boot (length (bu_tcp b) + length (bu_mdns b))] d)
                         \<lparr>dm_worker := Some pid, dm_state := ''starting'',
                          dm_reason := ''Checking network worker permissions''\<rparr>)))"

definition daemon_start :: "env \<Rightarrow> endpoint list \<Rightarrow> daemon \<Rightarrow> (unit, daemon) outcome" where
  "daemon_start e addresses d =
     (case fst (listeners (en_listen e) addresses (config_port (so_config (dm_store d))) (dm_test d) 0) of
        Inl x \<Rightarrow> (Inl x, d)
      | Inr (endpoints, tcp) \<Rightarrow>
          (case fst (mdns_sockets (en_mdns e) endpoints (dm_test d) 0) of
             Inl x \<Rightarrow> (Inl x, d)
           | Inr socks \<Rightarrow>
               start_worker e (d\<lparr>dm_bundle := Some \<lparr>bu_endpoints = endpoints, bu_tcp = tcp,
                 bu_specs = map fst socks, bu_mdns = map snd socks\<rparr>\<rparr>)))"

definition pair_stop :: "env \<Rightarrow> daemon \<Rightarrow> daemon" where
  "pair_stop e d = snd (daemon_send e PairStop 0 (d\<lparr>dm_window := None\<rparr>))"

definition disconnect :: "env \<Rightarrow> u64 \<Rightarrow> daemon \<Rightarrow> daemon" where
  "disconnect e transport d =
     stop_services e (\<lambda>s. sv_transport s = transport)
       (d\<lparr>dm_transports := bt_remove transport (dm_transports d)\<rparr>)"

section \<open>Control requests\<close>

datatype control_reply = StatusReply status | LogsReply "(u64 \<times> string) list"

text \<open>Opening a pairing window. A missing bundle is a panic, which the invariant excludes.\<close>

definition control_pair_start :: "env \<Rightarrow> daemon \<Rightarrow> (unit, daemon) outcome" where
  "control_pair_start e d =
     (if dm_state d \<noteq> ''running'' then (Inl (Msg ''Service is not running''), d)
      else if \<not> length (so_hosts (dm_store d)) < MAX_HOSTS
      then (Inl (Msg ''Paired host limit reached; revoke a host first''), d)
      else
        let d = pair_stop e d
        in case dm_bundle d of
             None \<Rightarrow> (Inl (Msg ''called Option::unwrap() on a None value''), d)
           | Some b \<Rightarrow>
               (case fst (listeners (en_listen e) (bu_endpoints b) 0 (dm_test d) 0) of
                  Inl x \<Rightarrow> (Inl x, d)
                | Inr (endpoints, tcp) \<Rightarrow>
                    (case en_code e of
                       Inl x \<Rightarrow> (Inl x, d)
                     | Inr digits \<Rightarrow>
                         let d = d\<lparr>dm_epoch := dm_epoch d + 1\<rparr>
                         in sbind (daemon_send e (PairStart (dm_epoch d) digits endpoints) (length tcp) d) (\<lambda>_ d.
                              (Inr (), daemon_log e ''Pairing window opened''
                                (d\<lparr>dm_window := Some \<lparr>wi_epoch = dm_epoch d, wi_code = digits,
                                     wi_expires = en_now e + secs PAIR_SECONDS,
                                     wi_expires_at = en_time e + of_nat PAIR_SECONDS,
                                     wi_failures = 0, wi_endpoints = endpoints\<rparr>\<rparr>))))))"

definition endpoint_changed :: "config \<Rightarrow> config \<Rightarrow> bool" where
  "endpoint_changed a b \<longleftrightarrow>
     cf_port_mode a \<noteq> cf_port_mode b \<or> cf_fixed_port a \<noteq> cf_fixed_port b \<or> cf_enabled a \<noteq> cf_enabled b"

definition control_configure :: "codec \<Rightarrow> env \<Rightarrow> config \<Rightarrow> daemon \<Rightarrow> (unit, daemon) outcome" where
  "control_configure cd e config d =
     (let previous = so_config (dm_store d)
      in sbind (on_store (store_configure cd (en_draws e) config) d) (\<lambda>_ d.
           if previous = so_config (dm_store d) then (Inr (), d)
           else sbind
             (if endpoint_changed previous (so_config (dm_store d))
              then (Inr (), daemon_stop e ''disabled''
                      ''Configuration updated; checking startup conditions'' d)
              else
                let d = (stop_worker e d)\<lparr>dm_root := False\<rparr>
                in if dm_bundle d \<noteq> None then start_worker e d else (Inr (), d))
             (\<lambda>_ d. (Inr (), daemon_log e ''Configuration saved'' d))))"

definition control_revoke :: "codec \<Rightarrow> env \<Rightarrow> string \<Rightarrow> daemon \<Rightarrow> (unit, daemon) outcome" where
  "control_revoke cd e fingerprint d =
     sbind (on_store (store_revoke cd (en_draws e) fingerprint) d) (\<lambda>_ d.
       let ids = map fst (filter (\<lambda>(_, fp). fp = fingerprint) (dm_transports d));
           d = foldl (\<lambda>d i. disconnect e i d) d ids
       in sbind (if dm_worker d \<noteq> None then daemon_send e (Hosts (so_hosts (dm_store d))) 0 d
                 else (Inr (), d)) (\<lambda>_ d.
            (Inr (), daemon_log e ''Host authorization revoked'' d)))"

definition daemon_control :: "codec \<Rightarrow> env \<Rightarrow> control \<Rightarrow> daemon \<Rightarrow> (control_reply, daemon) outcome" where
  "daemon_control cd e request d =
     (if request = CLogs then (Inr (LogsReply (dm_logs d)), d)
      else sbind
        (case request of
           CPairStart \<Rightarrow> control_pair_start e d
         | CPairStop \<Rightarrow> (Inr (), daemon_log e ''Pairing window closed'' (pair_stop e d))
         | CConfigure config \<Rightarrow> control_configure cd e config d
         | CRevoke fingerprint \<Rightarrow> control_revoke cd e fingerprint d
         | CStop \<Rightarrow> (Inr (), daemon_stop e ''disabled'' ''Service stopped'' (d\<lparr>dm_quit := True\<rparr>))
         | _ \<Rightarrow> (Inr (), d))
        (\<lambda>_ d. (Inr (StatusReply (daemon_status d)), d)))"

section \<open>Requests of the worker\<close>

text \<open>Whether a request may start a process, and what it starts.\<close>

definition spawn_allowed :: "u64 \<Rightarrow> string \<Rightarrow> bool \<Rightarrow> daemon \<Rightarrow> err + unit" where
  "spawn_allowed transport name bind d =
     rbind (ensure (bt_contains (dm_transports d) transport) (Msg ''host is no longer authorized'')) (\<lambda>_.
     rbind (ensure (length (filter (\<lambda>s. sv_transport s = transport) (dm_services d)) < MAX_STREAMS + 16)
       (Msg ''service process limit reached'')) (\<lambda>_.
     rbind (ensure (length name \<le> 4096 \<and> NUL \<notin> set name) (Msg ''invalid service request'')) (\<lambda>_.
       if bind then validate_endpoint name True
       else if name \<noteq> ''sync:'' \<and> \<not> starts_with name ''tcp:'' \<and> \<not> starts_with name ''localabstract:''
         \<and> \<not> starts_with name ''localfilesystem:''
       then rbind (shell_args_parse name) (\<lambda>_. Inr ())
       else Inr ())))"

definition service_message :: "daemon \<Rightarrow> string \<Rightarrow> bool \<Rightarrow> service_start" where
  "service_message d name bind =
     \<lparr>ss_name = name, ss_root = dm_root d, ss_allow_su = cf_allow_shell_root (so_config (dm_store d)),
      ss_test = dm_test d, ss_bind = bind\<rparr>"

definition push_service :: "service \<Rightarrow> daemon \<Rightarrow> daemon" where
  "push_service s d = d\<lparr>dm_services := dm_services d @ [s]\<rparr>"

definition new_service :: "u32 \<Rightarrow> u64 \<Rightarrow> service" where
  "new_service pid transport =
     \<lparr>sv_pid = pid, sv_transport = transport, sv_binder = None, sv_stopped = False, sv_close_at = None\<rparr>"

text \<open>A service that is stopped before it is kept.\<close>

definition push_stopped :: "env \<Rightarrow> service \<Rightarrow> daemon \<Rightarrow> daemon" where
  "push_stopped e s d = (let (s, es) = service_stop e s in push_service s (emit es d))"

definition spawn_service ::
    "env \<Rightarrow> u64 \<Rightarrow> string \<Rightarrow> bool \<Rightarrow> daemon \<Rightarrow> (string \<times> nat, daemon) outcome" where
  "spawn_service e transport name bind d =
     (case rbind (spawn_allowed transport name bind d) (\<lambda>_. rbind (en_pair e) (\<lambda>_. en_spawn e)) of
        Inl x \<Rightarrow> (Inl x, d)
      | Inr pid \<Rightarrow>
          let d = emit [ServiceStarted (service_message d name bind) pid] d
          in case en_service_send e of
               Inl x \<Rightarrow> (Inl x, d)
             | Inr _ \<Rightarrow>
                 let s = new_service pid transport
                 in if \<not> bind then (Inr (show_nat (unat pid), 1), push_service s d)
                    else case en_bind e of
                      None \<Rightarrow> (Inl (Msg ''reverse bind timeout''), push_stopped e s d)
                    | Some (Inl x) \<Rightarrow> (Inl x, push_stopped e s d)
                    | Some (Inr (actual, fds)) \<Rightarrow>
                        (Inr (actual, fds), push_service (s\<lparr>sv_binder := Some actual\<rparr>) d))"

definition request_authenticated ::
    "codec \<Rightarrow> env \<Rightarrow> u64 \<Rightarrow> string \<Rightarrow> daemon \<Rightarrow> (unit, daemon) outcome" where
  "request_authenticated cd e transport fingerprint d =
     (if \<not> (length (dm_transports d) < MAX_TRANSPORTS \<and> \<not> bt_contains (dm_transports d) transport)
      then (Inl (Msg ''connection limit reached''), d)
      else sbind (on_store (store_connected cd (en_draws e) (en_time e) fingerprint) d) (\<lambda>_ d.
        (Inr (), daemon_log e ''Paired host connected''
           (d\<lparr>dm_transports := bt_insert transport fingerprint (dm_transports d)\<rparr>))))"

text \<open>A service to be closed gets a second to end by itself.\<close>

definition request_close :: "env \<Rightarrow> u64 \<Rightarrow> u32 \<Rightarrow> daemon \<Rightarrow> daemon" where
  "request_close e transport service d =
     d\<lparr>dm_services := map (\<lambda>s.
         if sv_transport s = transport \<and> sv_pid s = service \<and> sv_binder s = None
         then s\<lparr>sv_close_at := Some (en_now e + secs 1)\<rparr> else s) (dm_services d)\<rparr>"

definition request_root :: "env \<Rightarrow> u64 \<Rightarrow> bool \<Rightarrow> daemon \<Rightarrow> (string \<times> nat, daemon) outcome" where
  "request_root e transport enable d =
     (if \<not> bt_contains (dm_transports d) transport then (Inl (Msg ''host is no longer authorized''), d)
      else if \<not> (\<not> enable \<or> cf_allow_adb_root (so_config (dm_store d)))
      then (Inl (Msg ''adb root is disabled in altdb''), d)
      else if dm_root d = enable then
        (Inr ((if enable then ''adbd is already running as root'' else ''adbd not running as root'')
            @ [CHR 0x0A], 0), d)
      else
        (Inr (''restarting adbd as '' @ (if enable then ''root'' else ''non root'') @ [CHR 0x0A], 0),
         d\<lparr>dm_root := enable, dm_rotate := Some (en_now e + millis 500)\<rparr>))"

definition pair_failure :: "env \<Rightarrow> window \<Rightarrow> daemon \<Rightarrow> daemon" where
  "pair_failure e w d =
     (let w = w\<lparr>wi_failures := wi_failures w + 1\<rparr>;
          d = d\<lparr>dm_window := Some w\<rparr>;
          d = (if MAX_PAIR_FAILURES \<le> wi_failures w then pair_stop e d else d)
      in daemon_log e ''Pairing authentication failed'' d)"

definition request_pair_result ::
    "codec \<Rightarrow> key_check \<Rightarrow> env \<Rightarrow> u64 \<Rightarrow> string option \<Rightarrow> daemon \<Rightarrow> (unit, daemon) outcome" where
  "request_pair_result cd kc e epoch key d =
     (case dm_window d of
        None \<Rightarrow> (Inl (Msg ''pairing window closed''), d)
      | Some w \<Rightarrow>
          if \<not> (wi_epoch w = epoch \<and> en_now e < wi_expires w \<and> wi_failures w < MAX_PAIR_FAILURES)
          then (Inl (Msg ''pairing window expired''), d)
          else case key of
            Some k \<Rightarrow>
              sbind (on_store (store_pair cd kc (en_draws e) (en_time e) k) d) (\<lambda>_ d.
              sbind (daemon_send e PairCommitted 0 (d\<lparr>dm_window := None\<rparr>)) (\<lambda>_ d.
              sbind (daemon_send e (Hosts (so_hosts (dm_store d))) 0 d) (\<lambda>_ d.
                (Inr (), daemon_log e ''Host paired successfully'' d))))
          | None \<Rightarrow> (Inr (), pair_failure e w d))"

definition done_reply :: "(unit, daemon) outcome \<Rightarrow> (string \<times> nat, daemon) outcome" where
  "done_reply r = sbind r (\<lambda>_ d. (Inr ([], 0), d))"

definition daemon_request ::
    "codec \<Rightarrow> key_check \<Rightarrow> env \<Rightarrow> request \<Rightarrow> daemon \<Rightarrow> (string \<times> nat, daemon) outcome" where
  "daemon_request cd kc e r d =
     (case r of
        Authenticated transport fingerprint \<Rightarrow>
          done_reply (request_authenticated cd e transport fingerprint d)
      | Disconnected transport \<Rightarrow> (Inr ([], 0), disconnect e transport d)
      | Spawn transport name \<Rightarrow> spawn_service e transport name False d
      | CloseService transport service \<Rightarrow> (Inr ([], 0), request_close e transport service d)
      | BindReverse transport spec \<Rightarrow> spawn_service e transport spec True d
      | CloseReverse transport spec \<Rightarrow>
          (Inr ([], 0), stop_services e (\<lambda>s. sv_transport s = transport \<and> sv_binder s = Some spec) d)
      | Root transport enable \<Rightarrow> request_root e transport enable d
      | PairResult epoch key \<Rightarrow> done_reply (request_pair_result cd kc e epoch key d))"

section \<open>The main loop\<close>

text \<open>
  One control connection: the outcome of the credentials, the socket options and the bytes that
  arrive in time; \<open>parse\<close> is the JSON reader. The reply is written whether or not it can be.
\<close>

record control_call =
  cc_peer :: "err + u32"
  cc_options :: "io_error option"
  cc_bytes :: "u8 list"

definition control_body :: "bool \<Rightarrow> (u8 list \<Rightarrow> control option) \<Rightarrow> control_call \<Rightarrow> err + control" where
  "control_body test parse c =
     rbind (if test then Inr () else rbind (cc_peer c) (\<lambda>uid. ensure (uid = 0) (Msg ''root required''))) (\<lambda>_.
     rbind (case cc_options c of Some x \<Rightarrow> Inl (Io x) | None \<Rightarrow> Inr ()) (\<lambda>_.
     rbind (read_exact 4 (cc_bytes c)) (\<lambda>(len, rest).
     let n = unat (from_le32 len)
     in rbind (ensure (n \<le> 16384) (Msg ''control request too large'')) (\<lambda>_.
        rbind (read_exact n rest) (\<lambda>(body, _).
          case parse body of None \<Rightarrow> Inl (Msg ''invalid JSON'') | Some r \<Rightarrow> Inr r)))))"

definition control_phase ::
    "codec \<Rightarrow> (u8 list \<Rightarrow> control option) \<Rightarrow> env \<Rightarrow> control_call option \<Rightarrow> daemon \<Rightarrow> daemon" where
  "control_phase cd parse e call d =
     (case call of
        None \<Rightarrow> d
      | Some c \<Rightarrow>
          (case control_body (dm_test d) parse c of
             Inl _ \<Rightarrow> d
           | Inr request \<Rightarrow> snd (daemon_control cd e request d)))"

definition window_phase :: "env \<Rightarrow> daemon \<Rightarrow> daemon" where
  "window_phase e d =
     (if (case dm_window d of None \<Rightarrow> False | Some w \<Rightarrow> wi_expires w \<le> en_now e)
      then daemon_log e ''Pairing window expired'' (pair_stop e d) else d)"

definition rotate_phase :: "env \<Rightarrow> daemon \<Rightarrow> daemon" where
  "rotate_phase e d =
     (if (case dm_rotate d of None \<Rightarrow> False | Some t \<Rightarrow> t \<le> en_now e) then
        (case start_worker e (stop_worker e (d\<lparr>dm_rotate := None\<rparr>)) of
           (Inl _, d) \<Rightarrow> daemon_stop e ''error'' ''Service failed to start after permission change'' d
         | (Inr _, d) \<Rightarrow> d)
      else d)"

text \<open>What the worker's channel has: nothing, a message with its descriptors, or the hang-up.\<close>

datatype worker_event = Quiet | Arrived "err + message \<times> nat" | HungUp

definition worker_phase ::
    "codec \<Rightarrow> key_check \<Rightarrow> env \<Rightarrow> worker_event \<Rightarrow> daemon \<Rightarrow> daemon" where
  "worker_phase cd kc e w d =
     (if dm_worker d = None then d
      else case w of
        Quiet \<Rightarrow> d
      | HungUp \<Rightarrow> daemon_stop e ''error'' ''Network worker exited; check SELinux and KernelSU'' d
      | Arrived (Inr (Ready, 0)) \<Rightarrow>
          daemon_log e ''Service started'' (d\<lparr>dm_state := ''running'', dm_reason := []\<rparr>)
      | Arrived (Inr (Request i request, 0)) \<Rightarrow>
          (case daemon_request cd kc e request d of
             (Inr (message, fds), d) \<Rightarrow> snd (daemon_send e (Reply i True message) fds d)
           | (Inl x, d) \<Rightarrow> snd (daemon_send e (Reply i False (err_text x)) 0 d))
      | Arrived _ \<Rightarrow> daemon_stop e ''error'' ''Network worker communication failed'' d)"

definition close_due :: "env \<Rightarrow> service \<Rightarrow> bool" where
  "close_due e s = (case sv_close_at s of None \<Rightarrow> False | Some t \<Rightarrow> t \<le> en_now e)"

definition services_phase :: "env \<Rightarrow> daemon \<Rightarrow> daemon" where
  "services_phase e d =
     (let d = stop_services e (close_due e) d
      in d\<lparr>dm_services := filter (\<lambda>s. \<not> en_exited e (sv_pid s)) (dm_services d)\<rparr>)"

text \<open>
  The check of the conditions. \<open>lp_property\<close> and \<open>lp_network\<close> are the times of the last checks,
  which may lie before the start of the clock. The native debugging state is \<open>None\<close> in test mode.
\<close>

record loop =
  lp_daemon :: daemon
  lp_property :: int
  lp_network :: int

record conditions =
  co_changed :: bool
  co_properties :: "string \<Rightarrow> err + string"
  co_monitor :: monitor
  co_discover :: "err + endpoint list"

definition SETTINGS_UNAVAILABLE :: string where
  "SETTINGS_UNAVAILABLE = ''Debugging settings are temporarily unavailable; keeping connections''"

definition pause_reason :: "env \<Rightarrow> conditions \<Rightarrow> daemon \<Rightarrow> string option \<times> bool" where
  "pause_reason e c d =
     (if dm_test d then (None, False)
      else case native_properties (co_properties c) of
        Inr (Some reason) \<Rightarrow> (Some reason, False)
      | Inr None \<Rightarrow> monitor_status (en_now e) (dm_worker d \<noteq> None \<and> dm_state d = ''running'') (co_monitor c)
      | Inl x \<Rightarrow> (Some (''Cannot read system debugging state; service paused: '' @ err_text x), False))"

text \<open>Whether the interfaces differ from those the listeners stand on.\<close>

definition network_changed :: "endpoint list \<Rightarrow> daemon \<Rightarrow> bool" where
  "network_changed addresses d =
     (case dm_bundle d of None \<Rightarrow> True | Some b \<Rightarrow> map (ep_set_port 0) (bu_endpoints b) \<noteq> addresses)"

definition network_phase :: "env \<Rightarrow> conditions \<Rightarrow> daemon \<Rightarrow> daemon" where
  "network_phase e c d =
     (case co_discover c of
        Inl _ \<Rightarrow> daemon_stop e ''error'' ''Cannot read network interfaces'' d
      | Inr addresses \<Rightarrow>
          if addresses = [] then daemon_stop e ''waiting_network'' ''Waiting for Wi-Fi, hotspot or Ethernet'' d
          else if network_changed addresses d then
            (case daemon_start e addresses
                (daemon_stop e ''starting'' ''Network changed; starting service'' d) of
               (Inl _, d) \<Rightarrow> daemon_stop e ''error''
                 ''Cannot bind port or publish mDNS; check port availability and interface permissions'' d
             | (Inr _, d) \<Rightarrow> d)
          else d)"

definition settings_back :: "env \<Rightarrow> daemon \<Rightarrow> daemon" where
  "settings_back e d =
     (if dm_reason d = SETTINGS_UNAVAILABLE
      then daemon_log e ''Debugging settings are available again'' (d\<lparr>dm_reason := []\<rparr>) else d)"

definition check_phase :: "env \<Rightarrow> conditions \<Rightarrow> loop \<Rightarrow> loop" where
  "check_phase e c l =
     (if \<not> (co_changed c \<or> int (millis 250) \<le> int (en_now e) - lp_property l) then l
      else
        let l = l\<lparr>lp_property := int (en_now e)\<rparr>; d = lp_daemon l
        in if \<not> cf_enabled (so_config (dm_store d))
           then l\<lparr>lp_daemon := daemon_stop e ''disabled'' ''Disabled in WebUI'' d\<rparr>
           else case pause_reason e c d of
             (Some reason, _) \<Rightarrow> l\<lparr>lp_daemon := daemon_stop e ''paused_native'' reason d\<rparr>
           | (None, True) \<Rightarrow>
               l\<lparr>lp_daemon :=
                   (if dm_reason d \<noteq> SETTINGS_UNAVAILABLE
                    then daemon_log e SETTINGS_UNAVAILABLE (d\<lparr>dm_reason := SETTINGS_UNAVAILABLE\<rparr>) else d)\<rparr>
           | (None, False) \<Rightarrow>
               let d = settings_back e d
               in if int (secs 2) \<le> int (en_now e) - lp_network l \<and> dm_retry_at d \<le> en_now e
                  then l\<lparr>lp_daemon := network_phase e c d, lp_network := int (en_now e)\<rparr>
                  else l\<lparr>lp_daemon := d\<rparr>)"

text \<open>One turn of the loop; every phase has its own environment. After a stop request the rest of
  the turn is left out.\<close>

record turn =
  tn_control :: "control_call option"
  tn_worker :: worker_event
  tn_conditions :: conditions
  tn_control_env :: env
  tn_window_env :: env
  tn_rotate_env :: env
  tn_worker_env :: env
  tn_services_env :: env
  tn_check_env :: env

definition turn_events :: "codec \<Rightarrow> key_check \<Rightarrow> turn \<Rightarrow> daemon \<Rightarrow> daemon" where
  "turn_events cd kc t d =
     services_phase (tn_services_env t)
       (worker_phase cd kc (tn_worker_env t) (tn_worker t)
         (rotate_phase (tn_rotate_env t) (window_phase (tn_window_env t) d)))"

definition daemon_turn ::
    "codec \<Rightarrow> key_check \<Rightarrow> (u8 list \<Rightarrow> control option) \<Rightarrow> turn \<Rightarrow> loop \<Rightarrow> loop" where
  "daemon_turn cd kc parse t l =
     (let d = control_phase cd parse (tn_control_env t) (tn_control t) (lp_daemon l)
      in if dm_quit d then l\<lparr>lp_daemon := d\<rparr>
         else check_phase (tn_check_env t) (tn_conditions t) (l\<lparr>lp_daemon := turn_events cd kc t d\<rparr>))"

text \<open>\<open>run\<close> from the opened store: the turns until a stop request or a stop signal (the end of the
  list), then the final stop and the drop.\<close>

definition daemon_new :: "env \<Rightarrow> bool \<Rightarrow> store \<Rightarrow> daemon" where
  "daemon_new e test s =
     \<lparr>dm_store = s, dm_test = test, dm_worker = None, dm_bundle = None, dm_services = [],
      dm_transports = [], dm_window = None, dm_root = False, dm_state = ''starting'', dm_reason = [],
      dm_logs = [], dm_epoch = 0, dm_quit = False, dm_rotate = None, dm_retry_at = en_now e,
      dm_failures = 0, dm_effects = []\<rparr>"

definition loop_new :: "env \<Rightarrow> bool \<Rightarrow> store \<Rightarrow> loop" where
  "loop_new e test s =
     \<lparr>lp_daemon = daemon_new e test s, lp_property = int (en_now e) - int (secs 1),
      lp_network = int (en_now e) - int (secs 10)\<rparr>"

text \<open>\<open>Drop\<close>: what still runs is ended when the supervisor's state is dropped.\<close>

definition daemon_drop :: "env \<Rightarrow> daemon \<Rightarrow> daemon" where
  "daemon_drop e d = stop_worker e d"

fun daemon_loop ::
    "codec \<Rightarrow> key_check \<Rightarrow> (u8 list \<Rightarrow> control option) \<Rightarrow> turn list \<Rightarrow> loop \<Rightarrow> loop" where
  "daemon_loop cd kc parse [] l = l"
| "daemon_loop cd kc parse (t # ts) l =
     (if dm_quit (lp_daemon l) then l else daemon_loop cd kc parse ts (daemon_turn cd kc parse t l))"

definition daemon_run ::
    "codec \<Rightarrow> key_check \<Rightarrow> (u8 list \<Rightarrow> control option) \<Rightarrow> env \<Rightarrow> env \<Rightarrow> bool \<Rightarrow> turn list \<Rightarrow> store \<Rightarrow> daemon" where
  "daemon_run cd kc parse e e' test ts s =
     daemon_drop e' (daemon_stop e' ''disabled'' ''Service stopped''
       (lp_daemon (daemon_loop cd kc parse ts (loop_new e test s))))"

end
