(* ===== verification/Authority.thy ===== *)
theory Authority
  imports Config
begin

text \<open>
  What the supervisor promises, without its mechanics: who is paired, which connections stand and
  for whom, whether the pairing window is open, whether services run as root and whether the user
  allows that. \<open>Daemon_Safety\<close> shows that every turn of the supervisor is a sequence of these steps.
\<close>

record authority =
  au_paired :: "string set"
  au_conns :: "u64 \<Rightarrow> string option"
  au_open :: bool
  au_root :: bool
  au_allow :: bool

inductive authority_step :: "authority \<Rightarrow> authority \<Rightarrow> bool" where
  connect: "authority_step a (a\<lparr>au_conns := (au_conns a)(t \<mapsto> fp)\<rparr>)"
    if "fp \<in> au_paired a" and "au_conns a t = None" and "card (dom (au_conns a)) < MAX_TRANSPORTS"
| disconnect: "authority_step a (a\<lparr>au_conns := (au_conns a)(t := None)\<rparr>)"
| open_window: "authority_step a (a\<lparr>au_open := True\<rparr>)" if "card (au_paired a) < MAX_HOSTS"
| close_window: "authority_step a (a\<lparr>au_open := False\<rparr>)"
| pair: "authority_step a (a\<lparr>au_paired := insert fp (au_paired a), au_open := False\<rparr>)"
    if "au_open a" and "card (insert fp (au_paired a)) \<le> MAX_HOSTS"
| revoke: "authority_step a (a\<lparr>au_paired := au_paired a - {fp},
      au_conns := (\<lambda>t. if au_conns a t = Some fp then None else au_conns a t)\<rparr>)"
| root_on: "authority_step a (a\<lparr>au_root := True\<rparr>)" if "au_allow a" and "au_conns a t \<noteq> None"
| root_off: "authority_step a (a\<lparr>au_root := False\<rparr>)"
| reset: "authority_step a (a\<lparr>au_conns := Map.empty, au_open := False\<rparr>)"
| configure: "authority_step a (a\<lparr>au_allow := b, au_root := False, au_conns := Map.empty, au_open := False\<rparr>)"

inductive_cases authority_stepE: "authority_step a b"

abbreviation authority_steps :: "authority \<Rightarrow> authority \<Rightarrow> bool" where
  "authority_steps \<equiv> authority_step\<^sup>*\<^sup>*"

text \<open>
  The promise: connections only of paired hosts and at most eight, at most 32 paired hosts, root
  only where the user allows it.
\<close>

definition authority_ok :: "authority \<Rightarrow> bool" where
  "authority_ok a \<longleftrightarrow>
     ran (au_conns a) \<subseteq> au_paired a \<and> finite (dom (au_conns a))
       \<and> card (dom (au_conns a)) \<le> MAX_TRANSPORTS
       \<and> finite (au_paired a) \<and> card (au_paired a) \<le> MAX_HOSTS \<and> (au_root a \<longrightarrow> au_allow a)"

lemma authority_step_ok: "authority_step a b \<Longrightarrow> authority_ok a \<Longrightarrow> authority_ok b"
proof (induction rule: authority_step.induct)
  case (connect fp a t)
  then show ?case by (auto simp: authority_ok_def ran_def card_insert_if)
next
  case (disconnect a t)
  then have "card (dom (au_conns a) - {t}) \<le> MAX_TRANSPORTS"
    unfolding authority_ok_def by (meson Diff_subset card_mono order_trans)
  with disconnect show ?case by (auto simp: authority_ok_def ran_def split: if_splits)
next
  case (revoke a fp)
  let ?m = "\<lambda>t. if au_conns a t = Some fp then None else au_conns a t"
  have "dom ?m \<subseteq> dom (au_conns a)" by (auto split: if_splits)
  then have "finite (dom ?m)" "card (dom ?m) \<le> MAX_TRANSPORTS"
    using revoke unfolding authority_ok_def by (meson card_mono finite_subset order_trans)+
  moreover have "ran ?m \<subseteq> au_paired a - {fp}"
    using revoke by (auto simp: authority_ok_def ran_def split: if_splits)
  moreover have "card (au_paired a - {fp}) \<le> MAX_HOSTS"
    using revoke unfolding authority_ok_def by (meson Diff_subset card_mono order_trans)
  ultimately show ?case using revoke by (simp add: authority_ok_def)
qed (auto simp: authority_ok_def ran_def)

lemma authority_steps_ok: "authority_steps a b \<Longrightarrow> authority_ok a \<Longrightarrow> authority_ok b"
  by (induction rule: rtranclp_induct) (auto intro: authority_step_ok)

text \<open>A host becomes paired only while the window is open.\<close>

lemma paired_needs_window:
  "authority_step a b \<Longrightarrow> fp \<in> au_paired b \<Longrightarrow> fp \<notin> au_paired a \<Longrightarrow> au_open a"
  by (erule authority_step.cases) auto

end
