(* ===== verification/Daemon_Safety.thy ===== *)
theory Daemon_Safety
  imports Daemon Authority
begin

text \<open>
  What the supervisor of \<open>Daemon\<close> guarantees: its own invariant, and that whatever it does is a
  sequence of the steps of \<open>Authority\<close>. Every operation is shown \<open>safe\<close>; the phases and the main
  loop follow by composition. \<open>Daemon_Claims\<close> draws the consequences.
\<close>

section \<open>Running a simulation\<close>

text \<open>A machine with inputs whose every step keeps an invariant.\<close>

locale machine =
  fixes inv :: "'s \<Rightarrow> bool" and next_state :: "'i \<Rightarrow> 's \<Rightarrow> 's"
  assumes keeps: "inv s \<Longrightarrow> inv (next_state i s)"
begin

lemma run_inv: "inv s \<Longrightarrow> inv (fold next_state is s)"
  by (induction "is" arbitrary: s) (simp_all add: keeps)

end

text \<open>Every step of it is also a sequence of abstract steps.\<close>

locale simulation = machine inv next_state
  for inv :: "'s \<Rightarrow> bool" and next_state :: "'i \<Rightarrow> 's \<Rightarrow> 's" +
  fixes abs :: "'s \<Rightarrow> 'a" and step :: "'a \<Rightarrow> 'a \<Rightarrow> bool"
  assumes simulates: "inv s \<Longrightarrow> step\<^sup>*\<^sup>* (abs s) (abs (next_state i s))"
begin

lemma run: "inv s \<Longrightarrow> inv (fold next_state is s) \<and> step\<^sup>*\<^sup>* (abs s) (abs (fold next_state is s))"
proof (induction "is" arbitrary: s)
  case Nil
  then show ?case by simp
next
  case (Cons i "is")
  from Cons.IH [OF keeps [OF Cons.prems]] simulates [OF Cons.prems] show ?case
    by (auto intro: rtranclp_trans)
qed

lemma run_keeps:
  assumes "inv s" and "P (abs s)" and "\<And>a b. step a b \<Longrightarrow> P a \<Longrightarrow> P b"
  shows "P (abs (fold next_state is s))"
proof -
  have "step\<^sup>*\<^sup>* (abs s) (abs (fold next_state is s))" using run [OF assms(1)] by simp
  then show ?thesis by (induction rule: rtranclp_induct) (auto intro: assms(2,3))
qed

end

section \<open>The invariant and the abstraction\<close>

definition authority_of :: "daemon \<Rightarrow> authority" where
  "authority_of d =
     \<lparr>au_paired = h_fingerprint ` set (so_hosts (dm_store d)), au_conns = bt_get (dm_transports d),
      au_open = (dm_window d \<noteq> None), au_root = dm_root d,
      au_allow = cf_allow_adb_root (so_config (dm_store d))\<rparr>"

text \<open>Services stand on connections, and each connection has a bounded number of them.\<close>

definition services_ok :: "(u64, string) btree \<Rightarrow> service list \<Rightarrow> bool" where
  "services_ok tr ss \<longleftrightarrow>
     (\<forall>s \<in> set ss. sv_stopped s \<or> bt_get tr (sv_transport s) \<noteq> None)
       \<and> (\<forall>t. length (filter (\<lambda>s. sv_transport s = t) ss) \<le> MAX_STREAMS + 16)"

definition worker_ok :: "daemon \<Rightarrow> bool" where
  "worker_ok d \<longleftrightarrow>
     (dm_worker d = None \<longrightarrow> dm_transports d = [] \<and> dm_services d = [] \<and> dm_window d = None)
       \<and> (dm_worker d \<noteq> None \<or> dm_state d = ''running'' \<longrightarrow> dm_bundle d \<noteq> None)"

definition daemon_inv :: "daemon \<Rightarrow> bool" where
  "daemon_inv d \<longleftrightarrow>
     bt_ok (dm_transports d) \<and> worker_ok d \<and> services_ok (dm_transports d) (dm_services d)
       \<and> (\<forall>w. dm_window d = Some w \<longrightarrow> wi_failures w < MAX_PAIR_FAILURES)
       \<and> length (so_hosts (dm_store d)) \<le> MAX_HOSTS
       \<and> length (dm_logs d) \<le> 256 \<and> dm_failures d \<le> 6"

lemmas inv_defs = daemon_inv_def worker_ok_def

lemma services_ok_Nil [simp]: "services_ok tr []"
  by (simp add: services_ok_def)

definition safe :: "daemon \<Rightarrow> daemon \<Rightarrow> bool" where
  "safe d d' \<longleftrightarrow> (daemon_inv d \<longrightarrow> daemon_inv d' \<and> authority_steps (authority_of d) (authority_of d'))"

lemma safe_refl [simp]: "safe d d"
  by (simp add: safe_def)

lemma safe_trans: "safe a b \<Longrightarrow> safe b c \<Longrightarrow> safe a c"
  by (auto simp: safe_def intro: rtranclp_trans)

lemma safe_step:
  "(daemon_inv d \<Longrightarrow> daemon_inv d') \<Longrightarrow> (daemon_inv d \<Longrightarrow> authority_step (authority_of d) (authority_of d'))
     \<Longrightarrow> safe d d'"
  by (auto simp: safe_def)

lemma safe_same: "(daemon_inv d \<Longrightarrow> daemon_inv d') \<Longrightarrow> authority_of d' = authority_of d \<Longrightarrow> safe d d'"
  by (auto simp: safe_def)

lemma safe_sbind:
  assumes "safe d (snd m)" and "\<And>x s. m = (Inr x, s) \<Longrightarrow> safe s (snd (f x s))"
  shows "safe d (snd (sbind m f))"
  using assms by (cases m; cases "fst m") (auto intro: safe_trans)

section \<open>What the operations change\<close>

lemma emit_inv [simp]: "daemon_inv (emit es d) = daemon_inv d" "authority_of (emit es d) = authority_of d"
  by (simp_all add: emit_def inv_defs authority_of_def)

lemma log_inv [simp]: "daemon_inv d \<Longrightarrow> daemon_inv (daemon_log e m d)"
    "authority_of (daemon_log e m d) = authority_of d"
  by (simp_all add: daemon_log_def Let_def inv_defs authority_of_def)

lemma safe_emit [simp]: "safe d (emit es d)"
  and safe_log [simp]: "safe d (daemon_log e m d)"
  by (simp_all add: safe_same)

lemma daemon_send_eq: "\<exists>r es. daemon_send e m n d = (r, emit es d)"
proof -
  have "daemon_send e m n d = (fst (daemon_send e m n d),
      emit (if dm_worker d \<noteq> None \<and> is_ok (en_send e m) then [Sent m n] else []) d)"
    by (auto simp: daemon_send_def emit_def not_is_ok_iff is_ok_iff split: sum.splits)
  then show ?thesis by blast
qed

lemma daemon_send_emits: obtains es where "snd (daemon_send e m n d) = emit es d"
  using daemon_send_eq [of e m n d] by (metis snd_conv)

lemma safe_send [simp]: "safe d (snd (daemon_send e m n d))"
  by (rule daemon_send_emits [of e m n d]) simp

lemma pair_stop_emits: obtains es where "pair_stop e d = emit es (d\<lparr>dm_window := None\<rparr>)"
  unfolding pair_stop_def by (rule daemon_send_emits) blast

lemma stop_worker_emits:
  obtains es where "stop_worker e d =
    emit es (d\<lparr>dm_worker := None, dm_services := [], dm_transports := [], dm_window := None\<rparr>)"
proof -
  let ?d = "stop_worker e d"
  have eq: "?d = (d\<lparr>dm_worker := None, dm_services := [], dm_transports := [], dm_window := None\<rparr>)
      \<lparr>dm_effects := dm_effects ?d\<rparr>"
    by (cases "dm_worker d") (simp_all add: stop_worker_def end_worker_def stop_services_def emit_def Let_def)
  have "\<exists>es. dm_effects ?d = dm_effects d @ es"
    by (cases "dm_worker d") (simp_all add: stop_worker_def end_worker_def stop_services_def emit_def Let_def)
  then obtain es where "dm_effects ?d = dm_effects d @ es" by blast
  with eq show thesis by (intro that [of es]) (simp add: emit_def)
qed

text \<open>Stopping services keeps their number, process and connection.\<close>

lemma service_stop_frame [simp]:
  "sv_transport (fst (service_stop e s)) = sv_transport s" "sv_pid (fst (service_stop e s)) = sv_pid s"
  "sv_stopped (fst (service_stop e s))"
  by (simp_all add: service_stop_def Let_def)

lemma stop_services_eq:
  obtains es where "stop_services e P d = emit es
    (d\<lparr>dm_services := map (\<lambda>s. if P s then fst (service_stop e s) else s) (dm_services d)\<rparr>)"
  unfolding stop_services_def by blast

lemma count_map_services:
  "(\<And>s. sv_transport (f s) = sv_transport s) \<Longrightarrow>
     length (filter ((\<lambda>s. sv_transport s = t) \<circ> f) xs) = length (filter (\<lambda>s. sv_transport s = t) xs)"
  by (induction xs) simp_all

lemma services_ok_map:
  assumes "services_ok tr ss" and "\<And>s. sv_transport (f s) = sv_transport s"
    and "\<And>s. s \<in> set ss \<Longrightarrow> sv_stopped s \<or> bt_get tr (sv_transport s) \<noteq> None \<Longrightarrow>
      sv_stopped (f s) \<or> bt_get tr' (sv_transport s) \<noteq> None"
  shows "services_ok tr' (map f ss)"
  using assms by (auto simp: services_ok_def count_map_services)

lemma services_ok_filter: "services_ok tr ss \<Longrightarrow> services_ok tr (filter P ss)"
proof -
  assume ok: "services_ok tr ss"
  have "length (filter Q (filter P ss)) \<le> length (filter Q ss)" for Q :: "service \<Rightarrow> bool"
    by (induction ss) auto
  with ok show ?thesis unfolding services_ok_def by (meson filter_is_subset le_trans subsetD)
qed

lemma services_ok_push:
  assumes "services_ok tr ss" and "sv_stopped s \<or> bt_get tr (sv_transport s) \<noteq> None"
    and "length (filter (\<lambda>r. sv_transport r = sv_transport s) ss) < MAX_STREAMS + 16"
  shows "services_ok tr (ss @ [s])"
  using assms by (auto simp: services_ok_def)

text \<open>Changing only the services.\<close>

lemma safe_services:
  "(daemon_inv d \<Longrightarrow> services_ok (dm_transports d) ss) \<Longrightarrow> (ss = [] \<or> dm_services d \<noteq> [] \<or> dm_worker d \<noteq> None) \<Longrightarrow>
     safe d (d\<lparr>dm_services := ss\<rparr>)"
  by (intro safe_same) (auto simp: inv_defs authority_of_def)

lemma safe_stop_services [simp]: "safe d (stop_services e P d)"
proof -
  let ?f = "\<lambda>s. if P s then fst (service_stop e s) else s"
  have "safe d (d\<lparr>dm_services := map ?f (dm_services d)\<rparr>)"
  proof (rule safe_services)
    assume "daemon_inv d"
    then have "services_ok (dm_transports d) (dm_services d)" by (simp add: daemon_inv_def)
    then show "services_ok (dm_transports d) (map ?f (dm_services d))" by (rule services_ok_map) auto
  qed auto
  then show ?thesis unfolding stop_services_def using safe_emit safe_trans by blast
qed

section \<open>Every operation is safe\<close>

lemma safe_pair_stop [simp]: "safe d (pair_stop e d)"
proof (rule pair_stop_emits [of e d])
  fix es
  have "safe d (d\<lparr>dm_window := None\<rparr>)"
    using authority_step.close_window [of "authority_of d"]
    by (intro safe_step) (auto simp: inv_defs authority_of_def)
  then show "pair_stop e d = emit es (d\<lparr>dm_window := None\<rparr>) \<Longrightarrow> ?thesis"
    using safe_emit safe_trans by simp
qed

lemma bt_get_empty: "bt_get [] = Map.empty"
  by (rule ext) simp

lemma safe_stop_worker [simp]: "safe d (stop_worker e d)"
proof (rule stop_worker_emits [of e d])
  fix es
  have "safe d (d\<lparr>dm_worker := None, dm_services := [], dm_transports := [], dm_window := None\<rparr>)"
    using authority_step.reset [of "authority_of d"]
    by (intro safe_step) (auto simp: inv_defs authority_of_def bt_get_empty)
  then show "stop_worker e d
        = emit es (d\<lparr>dm_worker := None, dm_services := [], dm_transports := [], dm_window := None\<rparr>) \<Longrightarrow> ?thesis"
    using safe_emit safe_trans by simp
qed

lemma safe_root_off [simp]: "safe d (d\<lparr>dm_root := False\<rparr>)"
  using authority_step.root_off [of "authority_of d"]
  by (intro safe_step) (auto simp: inv_defs authority_of_def)

text \<open>After \<open>stop\<close> nothing runs, whatever ran before.\<close>

definition service_off :: "daemon \<Rightarrow> bool" where
  "service_off d \<longleftrightarrow>
     dm_worker d = None \<and> dm_bundle d = None \<and> dm_transports d = [] \<and> dm_services d = []
       \<and> dm_window d = None \<and> \<not> dm_root d \<and> dm_rotate d = None"

lemma daemon_stop_off:
  assumes "daemon_inv d"
  shows "service_off (daemon_stop e st reason d)" and "dm_state (daemon_stop e st reason d) = st"
    and "dm_reason (daemon_stop e st reason d) = reason"
proof -
  show "service_off (daemon_stop e st reason d)"
  proof (cases "dm_worker d")
    case None
    with assms show ?thesis
      by (simp add: service_off_def daemon_stop_def Let_def daemon_log_def inv_defs)
  next
    case (Some p)
    let ?d = "if st = ''error'' then d\<lparr>dm_failures := min (dm_failures d + 1) 6,
      dm_retry_at := en_now e + secs (2 ^ min (dm_failures d + 1) 6)\<rparr> else d"
    obtain es where "stop_worker e ?d =
      emit es (?d\<lparr>dm_worker := None, dm_services := [], dm_transports := [], dm_window := None\<rparr>)"
      by (rule stop_worker_emits)
    with Some show ?thesis
      by (simp add: service_off_def daemon_stop_def Let_def daemon_log_def emit_def split: if_splits)
  qed
qed (simp_all add: daemon_stop_def Let_def)

lemma service_off_drop: "service_off d \<Longrightarrow> service_off (daemon_drop e d)"
  by (rule stop_worker_emits [of e d]) (simp add: daemon_drop_def service_off_def emit_def)

lemma safe_daemon_stop [simp]:
  assumes "st \<noteq> ''running''"
  shows "safe d (daemon_stop e st reason d)"
proof -
  define b where "b = (if st = ''error'' then d\<lparr>dm_failures := min (dm_failures d + 1) 6,
      dm_retry_at := en_now e + secs (2 ^ min (dm_failures d + 1) 6)\<rparr> else d)"
  define c where "c = (if dm_worker b \<noteq> None then stop_worker e b else b)"
  define x where "x = c\<lparr>dm_bundle := None, dm_root := False, dm_rotate := None\<rparr>"
  define l where "l = (if dm_state x \<noteq> st \<or> dm_reason x \<noteq> reason then daemon_log e reason x else x)"
  have eq: "daemon_stop e st reason d = l\<lparr>dm_state := st, dm_reason := reason\<rparr>"
    by (simp only: daemon_stop_def Let_def b_def c_def x_def l_def)
  have b: "safe d b" by (rule safe_same) (auto simp: b_def inv_defs authority_of_def)
  have c: "safe b c" by (simp add: c_def)
  have worker: "dm_worker c = None"
    by (rule stop_worker_emits [of e b]) (simp add: emit_def c_def)
  have off: "safe (c\<lparr>dm_root := False\<rparr>) (c\<lparr>dm_root := False\<rparr>\<lparr>dm_bundle := None, dm_rotate := None, dm_state := st\<rparr>)"
    using worker assms by (intro safe_same) (auto simp: inv_defs authority_of_def)
  have "safe (c\<lparr>dm_root := False\<rparr>\<lparr>dm_bundle := None, dm_rotate := None, dm_state := st\<rparr>)
      (l\<lparr>dm_state := st, dm_reason := reason\<rparr>)"
    by (rule safe_same) (auto simp: l_def x_def inv_defs authority_of_def daemon_log_def Let_def)
  with eq b c off safe_root_off [of c] show ?thesis by (metis safe_trans)
qed

lemma safe_start_worker [simp]: "safe d (snd (start_worker e d))"
  by (rule safe_same)
    (auto simp: start_worker_def emit_def inv_defs authority_of_def Let_def split: option.splits sum.splits)

lemma safe_daemon_start [simp]: "dm_worker d = None \<Longrightarrow> safe d (snd (daemon_start e addresses d))"
proof -
  have "safe d (d\<lparr>dm_bundle := Some b\<rparr>)" for b
    by (rule safe_same) (auto simp: inv_defs authority_of_def)
  then have "safe d (snd (start_worker e (d\<lparr>dm_bundle := Some b\<rparr>)))" for b
    using safe_start_worker safe_trans by blast
  then show ?thesis
    by (auto simp: daemon_start_def split: sum.splits prod.splits)
qed

section \<open>Operations of the store, seen from memory\<close>

lemma save_hosts_memory:
  "save_hosts cd draws hs x s = (r, s') \<Longrightarrow>
     so_config s' = so_config s \<and> so_hosts s' = (if is_ok r then hs else so_hosts s)"
  by (auto simp: save_hosts_def split: prod.splits sum.splits)

lemma store_configure_memory:
  assumes "store_configure cd draws c s = (r, s')"
  shows "so_hosts s' = so_hosts s \<and> so_config s' = (if is_ok r then c else so_config s)"
proof (cases "config_validate c")
  case (Inl x)
  with assms have "r = Inl x" "s' = s" by (simp_all add: store_configure_def)
  then show ?thesis by simp
next
  case (Inr u)
  obtain a k where a: "atomic draws ''config.json'' (enc_config cd c) (so_disk s) = (a, k)" by fastforce
  show ?thesis
  proof (cases a)
    case (Inl x)
    with assms Inr a have "r = Inl x" "s' = s\<lparr>so_disk := k\<rparr>" by (simp_all add: store_configure_def)
    then show ?thesis by simp
  next
    case (Inr v)
    with assms \<open>config_validate c = Inr u\<close> a have "r = Inr ()" "s' = s\<lparr>so_disk := k, so_config := c\<rparr>"
      by (simp_all add: store_configure_def)
    then show ?thesis by simp
  qed
qed

lemma store_revoke_memory:
  "store_revoke cd draws fp s = (r, s') \<Longrightarrow>
     so_config s' = so_config s
       \<and> so_hosts s' = (if is_ok r then filter (\<lambda>h. h_fingerprint h \<noteq> fp) (so_hosts s) else so_hosts s)"
  unfolding store_revoke_def by (rule save_hosts_memory)

lemma touch_host_fingerprint: "touch_host fp now hs = Some hs' \<Longrightarrow> fp \<in> h_fingerprint ` set hs"
  by (induction hs arbitrary: hs') (auto split: if_splits)

lemma store_connected_memory:
  assumes "store_connected cd draws now fp s = (r, s')"
  shows "so_config s' = so_config s \<and> map h_fingerprint (so_hosts s') = map h_fingerprint (so_hosts s)
    \<and> (is_ok r \<longrightarrow> fp \<in> h_fingerprint ` set (so_hosts s))"
proof (cases "touch_host fp now (so_hosts s)")
  case None
  with assms show ?thesis by (auto simp: store_connected_def)
next
  case (Some hs)
  with assms have "save_hosts cd draws hs () s = (r, s')" by (simp add: store_connected_def)
  from save_hosts_memory [OF this] touch_host_keeps [OF Some] touch_host_fingerprint [OF Some]
  show ?thesis by simp
qed

lemma store_pair_memory:
  assumes "store_pair cd kc draws now key s = (r, s')"
  shows "so_config s' = so_config s
    \<and> (length (so_hosts s) \<le> MAX_HOSTS \<longrightarrow> length (so_hosts s') \<le> MAX_HOSTS)
    \<and> (case r of Inl _ \<Rightarrow> so_hosts s' = so_hosts s
       | Inr fp \<Rightarrow> h_fingerprint ` set (so_hosts s') = insert fp (h_fingerprint ` set (so_hosts s)))"
proof (cases "kc key")
  case (Inl x)
  with assms show ?thesis by (auto simp: store_pair_def)
next
  case (Inr p)
  obtain fp name where p: "p = (fp, name)" by fastforce
  show ?thesis
  proof (cases "list_ex (\<lambda>h. h_fingerprint h = fp) (so_hosts s)")
    case True
    then have "fp \<in> h_fingerprint ` set (so_hosts s)" by (auto simp: list_ex_iff)
    moreover have "save_hosts cd draws (so_hosts s) fp s = (r, s')"
      using assms Inr p True by (simp add: store_pair_def)
    moreover from this have "r = Inr y \<Longrightarrow> y = fp" for y
      by (auto simp: save_hosts_def split: prod.splits sum.splits)
    ultimately show ?thesis using save_hosts_memory by (cases r) fastforce+
  next
    case False
    let ?hs = "so_hosts s @ [\<lparr>h_fingerprint = fp, h_public_key = first_word key, h_name = name,
                            h_paired_at = now, h_last_connected = None\<rparr>]"
    show ?thesis
    proof (cases "length (so_hosts s) < MAX_HOSTS")
      case True
      then have sv: "save_hosts cd draws ?hs fp s = (r, s')"
        using assms Inr p False by (simp add: store_pair_def)
      then have "r = Inr y \<Longrightarrow> y = fp" for y
        by (auto simp: save_hosts_def split: prod.splits sum.splits)
      with save_hosts_memory [OF sv] True show ?thesis by (cases r) auto
    next
      case False
      with assms Inr p \<open>\<not> list_ex (\<lambda>h. h_fingerprint h = fp) (so_hosts s)\<close> show ?thesis
        by (auto simp: store_pair_def)
    qed
  qed
qed

lemma on_store_iff:
  "on_store f d = (r, d') \<longleftrightarrow> (\<exists>s. f (dm_store d) = (r, s) \<and> d' = d\<lparr>dm_store := s\<rparr>)"
  by (auto simp: on_store_def split: prod.splits)

section \<open>The requests of the worker are safe\<close>

lemma safe_push_service:
  assumes "bt_get (dm_transports d) (sv_transport s) \<noteq> None"
    and "length (filter (\<lambda>r. sv_transport r = sv_transport s) (dm_services d)) < MAX_STREAMS + 16"
  shows "safe d (push_service s d)"
proof -
  have "daemon_inv d \<Longrightarrow> dm_worker d \<noteq> None"
    using assms(1) by (auto simp: inv_defs bt_get_empty)
  moreover have "daemon_inv d \<Longrightarrow> services_ok (dm_transports d) (dm_services d @ [s])"
    using assms by (intro services_ok_push) (auto simp: daemon_inv_def)
  ultimately show ?thesis
    unfolding push_service_def by (intro safe_same) (auto simp: inv_defs authority_of_def)
qed

lemma spawn_allowed_bounds:
  "spawn_allowed transport name bind d = Inr u \<Longrightarrow>
     bt_get (dm_transports d) transport \<noteq> None
       \<and> length (filter (\<lambda>s. sv_transport s = transport) (dm_services d)) < MAX_STREAMS + 16"
  by (auto simp: spawn_allowed_def)

lemma safe_spawn_service [simp]: "safe d (snd (spawn_service e transport name bind d))"
proof (cases "rbind (spawn_allowed transport name bind d) (\<lambda>_. rbind (en_pair e) (\<lambda>_. en_spawn e))")
  case (Inl x)
  then show ?thesis by (simp add: spawn_service_def)
next
  case (Inr pid)
  then obtain u where u: "spawn_allowed transport name bind d = Inr u" by auto
  let ?d = "emit [ServiceStarted (service_message d name bind) pid] d"
  have push: "safe d (push_service s (emit es ?d))" if "sv_transport s = transport" for s es
  proof -
    have "safe (emit es ?d) (push_service s (emit es ?d))"
      using spawn_allowed_bounds [OF u] that by (intro safe_push_service) (simp_all add: emit_def)
    then show ?thesis using safe_emit safe_trans by blast
  qed
  have push1: "safe d (push_service s ?d)" if "sv_transport s = transport" for s
    using push [OF that, of "[]"] by (simp add: emit_def)
  have stopped: "safe d (push_stopped e (new_service pid transport) ?d)"
    using push by (simp add: push_stopped_def case_prod_unfold new_service_def Let_def)
  show ?thesis
    using Inr push1 stopped
    by (auto simp: spawn_service_def Let_def new_service_def split: sum.splits option.splits prod.splits)
qed

lemma card_dom_bt_get: "bt_ok m \<Longrightarrow> card (dom (bt_get m)) = length m"
proof -
  assume ok: "bt_ok m"
  have "dom (bt_get m) = set (bt_keys m)" using bt_get_None_iff [of m] by (auto simp: dom_def)
  then show ?thesis using bt_ok_distinct [OF ok] by (metis distinct_card length_map bt_keys_def)
qed

lemma safe_authenticated:
  assumes "dm_worker d \<noteq> None"
  shows "safe d (snd (request_authenticated cd e t fp d))"
proof (cases "length (dm_transports d) < MAX_TRANSPORTS \<and> \<not> bt_contains (dm_transports d) t")
  case False
  then show ?thesis by (auto simp: request_authenticated_def)
next
  case True
  obtain r s where s: "store_connected cd (en_draws e) (en_time e) fp (dm_store d) = (r, s)" by fastforce
  note mem = store_connected_memory [OF s]
  then have len: "length (so_hosts s) = length (so_hosts (dm_store d))" by (metis length_map)
  have fps: "h_fingerprint ` set (so_hosts s) = h_fingerprint ` set (so_hosts (dm_store d))"
    using mem by (metis set_map)
  have store: "safe d (d\<lparr>dm_store := s\<rparr>)"
    using mem len fps by (intro safe_same) (auto simp: inv_defs authority_of_def)
  show ?thesis
  proof (cases r)
    case (Inl x)
    with True s store show ?thesis by (simp add: request_authenticated_def on_store_def)
  next
    case (Inr u)
    let ?d = "d\<lparr>dm_store := s\<rparr>"
    let ?c = "?d\<lparr>dm_transports := bt_insert t fp (dm_transports d)\<rparr>"
    have "safe ?d ?c"
    proof (rule safe_step)
      assume inv: "daemon_inv ?d"
      then have ok: "bt_ok (dm_transports d)" "services_ok (dm_transports d) (dm_services d)"
        by (simp_all add: daemon_inv_def)
      then have "services_ok (bt_insert t fp (dm_transports d)) (dm_services d)"
        by (auto simp: services_ok_def)
      with inv ok assms show "daemon_inv ?c" by (auto simp: inv_defs)
      have "card (dom (bt_get (dm_transports d))) = length (dm_transports d)"
        using ok(1) by (rule card_dom_bt_get)
      with True have "card (dom (bt_get (dm_transports d))) < MAX_TRANSPORTS" by simp
      moreover have "bt_get (dm_transports d) t = None" using True by simp
      moreover have "fp \<in> h_fingerprint ` set (so_hosts s)" using mem Inr fps by simp
      ultimately show "authority_step (authority_of ?d) (authority_of ?c)"
        using authority_step.connect [of fp "authority_of ?d" t] ok(1) by (simp add: authority_of_def)
    qed
    with store have "safe d ?c" by (rule safe_trans)
    with True s Inr show ?thesis
      by (auto simp: request_authenticated_def on_store_def intro: safe_trans)
  qed
qed

lemma bt_remove_Nil: "bt_remove t [] = []"
  by (simp add: bt_remove_def)

lemma safe_disconnect [simp]: "safe d (disconnect e t d)"
proof -
  let ?tr = "bt_remove t (dm_transports d)"
  let ?f = "\<lambda>s. if sv_transport s = t then fst (service_stop e s) else s"
  let ?d = "d\<lparr>dm_transports := ?tr, dm_services := map ?f (dm_services d)\<rparr>"
  have "safe d ?d"
  proof (rule safe_step)
    assume inv: "daemon_inv d"
    then have "services_ok (dm_transports d) (dm_services d)" by (simp add: daemon_inv_def)
    then have "services_ok ?tr (map ?f (dm_services d))" by (rule services_ok_map) auto
    with inv show "daemon_inv ?d" by (auto simp: inv_defs bt_remove_Nil)
  next
    show "authority_step (authority_of d) (authority_of ?d)"
      using authority_step.disconnect [of "authority_of d" t] by (simp add: authority_of_def)
  qed
  then have "safe d (emit es ?d)" for es using safe_emit safe_trans by blast
  moreover have "disconnect e t d
      = emit (concat (map (\<lambda>s. if sv_transport s = t then snd (service_stop e s) else []) (dm_services d))) ?d"
    by (simp add: disconnect_def stop_services_def)
  ultimately show ?thesis by (simp only:)
qed

lemma safe_close [simp]: "safe d (request_close e t s d)"
proof -
  let ?f = "\<lambda>r. if sv_transport r = t \<and> sv_pid r = s \<and> sv_binder r = None
    then r\<lparr>sv_close_at := Some (en_now e + secs 1)\<rparr> else r"
  have "daemon_inv d \<Longrightarrow> services_ok (dm_transports d) (map ?f (dm_services d))"
    by (rule services_ok_map [of "dm_transports d"]) (auto simp: daemon_inv_def)
  then show ?thesis unfolding request_close_def by (intro safe_services) auto
qed

lemma safe_root [simp]: "safe d (snd (request_root e t enable d))"
proof -
  have "safe d (d\<lparr>dm_root := True, dm_rotate := x\<rparr>)"
    if "bt_contains (dm_transports d) t" "cf_allow_adb_root (so_config (dm_store d))" for x
    using authority_step.root_on [of "authority_of d" t] that
    by (intro safe_step) (auto simp: inv_defs authority_of_def)
  moreover have "safe d (d\<lparr>dm_root := False, dm_rotate := x\<rparr>)" for x
    using authority_step.root_off [of "authority_of d"]
    by (intro safe_step) (auto simp: inv_defs authority_of_def)
  ultimately show ?thesis by (cases enable) (auto simp: request_root_def)
qed

lemma safe_pair_failure:
  assumes "dm_window d = Some w"
  shows "safe d (pair_failure e w d)"
proof (cases "MAX_PAIR_FAILURES \<le> wi_failures w + 1")
  case True
  let ?w = "w\<lparr>wi_failures := wi_failures w + 1\<rparr>"
  obtain es where es: "pair_stop e (d\<lparr>dm_window := Some ?w\<rparr>)
      = emit es (d\<lparr>dm_window := Some ?w\<rparr>\<lparr>dm_window := None\<rparr>)"
    by (rule pair_stop_emits)
  have "safe d (d\<lparr>dm_window := None\<rparr>)"
    using authority_step.close_window [of "authority_of d"]
    by (intro safe_step) (auto simp: inv_defs authority_of_def)
  then have "safe d (daemon_log e m (emit es (d\<lparr>dm_window := None\<rparr>)))" for m
    using safe_emit safe_log safe_trans by blast
  with True es show ?thesis by (simp add: pair_failure_def Let_def)
next
  case False
  have "safe d (d\<lparr>dm_window := Some (w\<lparr>wi_failures := wi_failures w + 1\<rparr>)\<rparr>)"
    using False assms by (intro safe_same) (auto simp: inv_defs authority_of_def)
  then have "safe d (daemon_log e m (d\<lparr>dm_window := Some (w\<lparr>wi_failures := wi_failures w + 1\<rparr>)\<rparr>))" for m
    using safe_log safe_trans by blast
  with False show ?thesis by (simp add: pair_failure_def Let_def)
qed

lemma safe_pair_result [simp]: "safe d (snd (request_pair_result cd kc e epoch key d))"
proof (cases "dm_window d")
  case None
  then show ?thesis by (simp add: request_pair_result_def)
next
  case (Some w)
  show ?thesis
  proof (cases key)
    case None
    with Some show ?thesis by (simp add: request_pair_result_def safe_pair_failure)
  next
    case (Some k)
    obtain r s where s: "store_pair cd kc (en_draws e) (en_time e) k (dm_store d) = (r, s)" by fastforce
    have fail: "safe d (d\<lparr>dm_store := s\<rparr>)" if "r = Inl x" for x
      using store_pair_memory [OF s] that
      by (intro safe_same) (auto simp: inv_defs authority_of_def)
    have pair: "safe d (d\<lparr>dm_store := s, dm_window := None\<rparr>)" if r: "r = Inr fp" for fp
    proof (rule safe_step)
      assume inv: "daemon_inv d"
      note mem = store_pair_memory [OF s]
      with inv show "daemon_inv (d\<lparr>dm_store := s, dm_window := None\<rparr>)" by (auto simp: inv_defs)
      have eq: "h_fingerprint ` set (so_hosts s) = insert fp (h_fingerprint ` set (so_hosts (dm_store d)))"
        using mem r by simp
      have "card (h_fingerprint ` set (so_hosts s)) \<le> length (so_hosts s)"
        by (metis card_length length_map set_map)
      also have "\<dots> \<le> MAX_HOSTS" using mem inv by (simp add: daemon_inv_def)
      finally have "card (insert fp (h_fingerprint ` set (so_hosts (dm_store d)))) \<le> MAX_HOSTS"
        unfolding eq by simp
      then show "authority_step (authority_of d) (authority_of (d\<lparr>dm_store := s, dm_window := None\<rparr>))"
        using authority_step.pair [of "authority_of d" fp] mem eq \<open>dm_window d = Some w\<close>
        by (simp add: authority_of_def)
    qed
    have rest: "safe a (snd (sbind (daemon_send e m n a) (\<lambda>_ d.
        sbind (daemon_send e (Hosts (so_hosts (dm_store d))) 0 d) (\<lambda>_ d. (Inr (), daemon_log e t d)))))" for a m n t
      by (intro safe_sbind) simp_all
    show ?thesis
    proof (cases r)
      case (Inl x)
      with fail s \<open>dm_window d = Some w\<close> Some show ?thesis by (simp add: request_pair_result_def on_store_def)
    next
      case (Inr fp)
      show ?thesis
      proof (cases "wi_epoch w = epoch \<and> en_now e < wi_expires w \<and> wi_failures w < MAX_PAIR_FAILURES")
        case True
        let ?d = "d\<lparr>dm_store := s, dm_window := None\<rparr>"
        have "request_pair_result cd kc e epoch key d = sbind (daemon_send e PairCommitted 0 ?d) (\<lambda>_ d.
            sbind (daemon_send e (Hosts (so_hosts (dm_store d))) 0 d) (\<lambda>_ d.
              (Inr (), daemon_log e ''Host paired successfully'' d)))"
          using True s Inr Some \<open>dm_window d = Some w\<close> by (simp add: request_pair_result_def on_store_def)
        then show ?thesis using safe_trans [OF pair [OF Inr] rest] by (simp only:)
      next
        case False
        with Some \<open>dm_window d = Some w\<close> show ?thesis by (auto simp: request_pair_result_def)
      qed
    qed
  qed
qed

lemma safe_request:
  assumes "dm_worker d \<noteq> None"
  shows "safe d (snd (daemon_request cd kc e r d))"
proof -
  have done_reply: "safe d (snd (done_reply m))" if "safe d (snd m)" for m
    unfolding done_reply_def using that by (rule safe_sbind) simp
  show ?thesis
    by (cases r) (simp_all add: daemon_request_def done_reply safe_authenticated assms)
qed

section \<open>Control requests are safe\<close>

lemma daemon_stop_store: "dm_store (daemon_stop e st reason d) = dm_store d"
proof -
  have "dm_store (stop_worker e d) = dm_store d" for d
    by (rule stop_worker_emits [of e d]) (simp add: emit_def)
  then show ?thesis by (simp add: daemon_stop_def Let_def daemon_log_def)
qed

lemma start_worker_frame:
  "dm_store (snd (start_worker e d)) = dm_store d" "dm_bundle (snd (start_worker e d)) = dm_bundle d"
  "dm_transports (snd (start_worker e d)) = dm_transports d" "dm_window (snd (start_worker e d)) = dm_window d"
  "dm_root (snd (start_worker e d)) = dm_root d"
  by (simp_all add: start_worker_def emit_def Let_def split: option.splits sum.splits)

lemma safe_open:
  assumes "length (so_hosts (dm_store d)) < MAX_HOSTS" and "dm_worker d \<noteq> None" and "wi_failures w = 0"
  shows "safe d (d\<lparr>dm_window := Some w\<rparr>)"
proof (rule safe_step)
  show "daemon_inv d \<Longrightarrow> daemon_inv (d\<lparr>dm_window := Some w\<rparr>)"
    using assms by (auto simp: inv_defs MAX_PAIR_FAILURES_def)
  have "card (h_fingerprint ` set (so_hosts (dm_store d))) \<le> length (so_hosts (dm_store d))"
    by (metis card_length length_map set_map)
  with assms(1) have "card (au_paired (authority_of d)) < MAX_HOSTS" by (simp add: authority_of_def)
  then show "authority_step (authority_of d) (authority_of (d\<lparr>dm_window := Some w\<rparr>))"
    using authority_step.open_window [of "authority_of d"] by (simp add: authority_of_def)
qed

lemma safe_pair_start [simp]: "safe d (snd (control_pair_start e d))"
proof (cases "dm_state d = ''running'' \<and> length (so_hosts (dm_store d)) < MAX_HOSTS")
  case False
  then show ?thesis by (auto simp: control_pair_start_def)
next
  case True
  define p where "p = pair_stop e d"
  have p: "safe d p" "dm_store p = dm_store d"
  proof -
    show "safe d p" by (simp add: p_def)
    show "dm_store p = dm_store d"
      unfolding p_def by (rule pair_stop_emits [of e d]) (simp add: emit_def)
  qed
  have "safe d (snd (sbind (daemon_send e m n (p\<lparr>dm_epoch := k\<rparr>)) (\<lambda>_ d.
      (Inr (), daemon_log e t (d\<lparr>dm_window := Some (w d)\<rparr>)))))"
    if w: "\<And>d. wi_failures (w d) = 0" for m n k t and w :: "daemon \<Rightarrow> window"
  proof -
    have k: "safe p (p\<lparr>dm_epoch := k\<rparr>)" by (rule safe_same) (auto simp: inv_defs authority_of_def)
    have sent: "safe (p\<lparr>dm_epoch := k\<rparr>) (snd (sbind (daemon_send e m n (p\<lparr>dm_epoch := k\<rparr>)) (\<lambda>_ d.
        (Inr (), daemon_log e t (d\<lparr>dm_window := Some (w d)\<rparr>)))))"
    proof (rule safe_sbind)
      fix x s
      assume r: "daemon_send e m n (p\<lparr>dm_epoch := k\<rparr>) = (Inr x, s)"
      then have "dm_worker s \<noteq> None" "dm_store s = dm_store d"
        using p(2) by (auto simp: daemon_send_def emit_def split: if_splits sum.splits)
      then have "safe s (s\<lparr>dm_window := Some (w s)\<rparr>)" using True w by (intro safe_open) simp_all
      then show "safe s (snd (Inr (), daemon_log e t (s\<lparr>dm_window := Some (w s)\<rparr>)))"
        using safe_log safe_trans by simp
    qed simp
    from p(1) k sent show ?thesis by (meson safe_trans)
  qed
  with p(1) True show ?thesis
    by (simp add: control_pair_start_def Let_def p_def split: option.splits sum.splits prod.splits)
qed

lemma authority_of_off:
  "dm_transports x = [] \<Longrightarrow> dm_window x = None \<Longrightarrow> \<not> dm_root x \<Longrightarrow>
     so_hosts (dm_store x) = so_hosts (dm_store d) \<Longrightarrow>
     authority_step (authority_of d) (authority_of x)"
  using authority_step.configure [of "authority_of d"] by (simp add: authority_of_def bt_get_empty)

lemma safe_configure [simp]: "safe d (snd (control_configure cd e config d))"
proof -
  obtain r s where s: "store_configure cd (en_draws e) config (dm_store d) = (r, s)" by fastforce
  note mem = store_configure_memory [OF s]
  define x where "x = d\<lparr>dm_store := s\<rparr>"
  have inv: "daemon_inv d \<Longrightarrow> daemon_inv x" using mem by (simp add: x_def inv_defs)
  show ?thesis
  proof (cases "is_ok r \<and> so_config (dm_store d) \<noteq> so_config s")
    case False
    then have "so_config s = so_config (dm_store d)" using mem by auto
    then have "safe d x" using mem inv by (intro safe_same) (auto simp: x_def authority_of_def)
    then show ?thesis
      using False s by (cases r) (simp_all add: control_configure_def on_store_def x_def)
  next
    case True
    then have r: "r = Inr ()" by (auto simp: is_ok_iff)
    have body: "snd (control_configure cd e config d) = snd (sbind
        (if endpoint_changed (so_config (dm_store d)) (so_config s)
         then (Inr (), daemon_stop e ''disabled'' ''Configuration updated; checking startup conditions'' x)
         else let d = (stop_worker e x)\<lparr>dm_root := False\<rparr>
           in if dm_bundle d \<noteq> None then start_worker e d else (Inr (), d))
        (\<lambda>_ d. (Inr (), daemon_log e ''Configuration saved'' d)))"
      using True s r by (simp add: control_configure_def on_store_def x_def)
    show ?thesis
      unfolding body
    proof (rule safe_sbind)
      let ?y = "(stop_worker e x)\<lparr>dm_root := False\<rparr>"
      have y: "safe d ?y"
      proof (rule safe_step)
        assume "daemon_inv d"
        then have "daemon_inv x" by (rule inv)
        then show "daemon_inv ?y" using safe_stop_worker [of x e] safe_root_off by (metis safe_def)
      next
        obtain es where "stop_worker e x =
            emit es (x\<lparr>dm_worker := None, dm_services := [], dm_transports := [], dm_window := None\<rparr>)"
          by (rule stop_worker_emits)
        then show "authority_step (authority_of d) (authority_of ?y)"
          using mem by (intro authority_of_off) (simp_all add: emit_def x_def)
      qed
      have z: "safe d (daemon_stop e ''disabled'' ''Configuration updated; checking startup conditions'' x)"
          (is "safe d ?z")
      proof (rule safe_step)
        assume "daemon_inv d"
        then have x: "daemon_inv x" by (rule inv)
        then show "daemon_inv ?z" using safe_daemon_stop [of "''disabled''" x] by (auto simp: safe_def)
        show "authority_step (authority_of d) (authority_of ?z)"
          using daemon_stop_off(1) [OF x] mem
          by (intro authority_of_off) (simp_all add: service_off_def daemon_stop_store x_def)
      qed
      show "safe d (snd (if endpoint_changed (so_config (dm_store d)) (so_config s)
         then (Inr (), daemon_stop e ''disabled'' ''Configuration updated; checking startup conditions'' x)
         else let d = (stop_worker e x)\<lparr>dm_root := False\<rparr>
           in if dm_bundle d \<noteq> None then start_worker e d else (Inr (), d)))"
        using y z safe_trans [OF y safe_start_worker] by (simp add: Let_def)
    qed simp
  qed
qed

text \<open>Disconnecting a list of connections.\<close>

lemma safe_disconnects: "safe d (foldl (\<lambda>d i. disconnect e i d) d ids)"
proof (induction ids arbitrary: d)
  case (Cons i ids)
  from safe_trans [OF safe_disconnect Cons.IH] show ?case by simp
qed simp

lemma disconnect_fields:
  "dm_transports (disconnect e i d) = bt_remove i (dm_transports d)"
  "dm_services (disconnect e i d)
     = map (\<lambda>s. if sv_transport s = i then fst (service_stop e s) else s) (dm_services d)"
  "dm_store (disconnect e i d) = dm_store d" "dm_worker (disconnect e i d) = dm_worker d"
  "disconnect e i (d\<lparr>dm_store := st\<rparr>) = (disconnect e i d)\<lparr>dm_store := st\<rparr>"
  by (simp_all add: disconnect_def stop_services_def emit_def)

lemma disconnects_store:
  "foldl (\<lambda>d i. disconnect e i d) (d\<lparr>dm_store := st\<rparr>) ids
     = (foldl (\<lambda>d i. disconnect e i d) d ids)\<lparr>dm_store := st\<rparr>"
  by (induction ids arbitrary: d) (simp_all add: disconnect_fields)

lemma disconnects_fields:
  "dm_transports (foldl (\<lambda>d i. disconnect e i d) d ids) = filter (\<lambda>p. fst p \<notin> set ids) (dm_transports d)"
  "dm_store (foldl (\<lambda>d i. disconnect e i d) d ids) = dm_store d"
  by (induction ids arbitrary: d)
    (auto simp: disconnect_fields bt_remove_def intro: filter_cong)

lemma disconnects_worker: "dm_worker (foldl (\<lambda>d i. disconnect e i d) d ids) = dm_worker d"
  by (induction ids arbitrary: d) (simp_all add: disconnect_fields)

text \<open>What revoking leaves when the store could be written.\<close>

definition revoked :: "env \<Rightarrow> string \<Rightarrow> store \<Rightarrow> daemon \<Rightarrow> daemon" where
  "revoked e fp s d =
     (foldl (\<lambda>d i. disconnect e i d) d (map fst (filter (\<lambda>(_, f). f = fp) (dm_transports d))))\<lparr>dm_store := s\<rparr>"

lemma bt_unique: "bt_ok m \<Longrightarrow> (k, v) \<in> set m \<Longrightarrow> (k, w) \<in> set m \<longleftrightarrow> w = v"
  by (metis bt_get_iff option.inject)

lemma revoked_transports:
  assumes "bt_ok (dm_transports d)"
  shows "dm_transports (revoked e fp s d) = filter (\<lambda>p. snd p \<noteq> fp) (dm_transports d)"
proof -
  have "fst p \<in> set (map fst (filter (\<lambda>(_, f). f = fp) (dm_transports d))) \<longleftrightarrow> snd p = fp"
    if p: "p \<in> set (dm_transports d)" for p
  proof -
    have "fst p \<in> set (map fst (filter (\<lambda>(_, f). f = fp) (dm_transports d)))
        \<longleftrightarrow> (fst p, fp) \<in> set (dm_transports d)"
      by (force simp: image_iff)
    also have "\<dots> \<longleftrightarrow> snd p = fp" using bt_unique [OF assms, of "fst p" "snd p" fp] p by auto
    finally show ?thesis .
  qed
  then show ?thesis by (simp add: revoked_def disconnects_fields cong: filter_cong)
qed

lemma bt_ok_filter: "bt_ok m \<Longrightarrow> bt_ok (filter P m)"
  unfolding bt_ok_def bt_keys_def by (induction m) auto

lemma bt_get_filter:
  assumes "bt_ok m"
  shows "bt_get (filter (\<lambda>p. snd p \<noteq> v) m) = (\<lambda>k. if bt_get m k = Some v then None else bt_get m k)"
proof
  fix k
  have "bt_get (filter (\<lambda>p. snd p \<noteq> v) m) k = Some w \<longleftrightarrow> bt_get m k = Some w \<and> w \<noteq> v" for w
    using bt_get_iff [OF bt_ok_filter [OF assms]] bt_get_iff [OF assms] by auto
  then show "bt_get (filter (\<lambda>p. snd p \<noteq> v) m) k = (if bt_get m k = Some v then None else bt_get m k)"
    by (metis not_None_eq)
qed

lemma safe_revoked:
  assumes "store_revoke cd draws fp (dm_store d) = (Inr (), s)"
  shows "safe d (revoked e fp s d)"
proof -
  define y where "y = foldl (\<lambda>d i. disconnect e i d) d (map fst (filter (\<lambda>(_, f). f = fp) (dm_transports d)))"
  have eq: "revoked e fp s d = y\<lparr>dm_store := s\<rparr>" by (simp add: revoked_def y_def)
  have y: "dm_store y = dm_store d" by (simp add: y_def disconnects_fields)
  note mem = store_revoke_memory [OF assms]
  have "safe y (y\<lparr>dm_store := s\<rparr>)" if inv: "daemon_inv d"
  proof (rule safe_step)
    have len: "length (so_hosts s) \<le> length (so_hosts (dm_store d))" using mem by simp
    show "daemon_inv y \<Longrightarrow> daemon_inv (y\<lparr>dm_store := s\<rparr>)" using len y by (auto simp: inv_defs)
    have ok: "bt_ok (dm_transports d)" using inv by (simp add: daemon_inv_def)
    have tr: "bt_get (dm_transports y) = (\<lambda>k. if bt_get (dm_transports d) k = Some fp then None
        else bt_get (dm_transports d) k)"
      using revoked_transports [OF ok, of e fp s] bt_get_filter [OF ok] by (simp add: eq)
    have set: "h_fingerprint ` set (so_hosts s) = h_fingerprint ` set (so_hosts (dm_store d)) - {fp}"
      using mem by auto
    show "authority_step (authority_of y) (authority_of (y\<lparr>dm_store := s\<rparr>))"
      using authority_step.revoke [of "authority_of y" fp] tr set mem y
      by (simp add: authority_of_def if_distrib cong: if_cong)
  qed
  moreover have "safe d y" unfolding y_def by (rule safe_disconnects)
  ultimately show ?thesis unfolding eq by (metis safe_def safe_trans)
qed

lemma control_revoke_ok:
  assumes "store_revoke cd (en_draws e) fp (dm_store d) = (Inr (), s)"
  shows "control_revoke cd e fp d = sbind
     (if dm_worker (revoked e fp s d) \<noteq> None
      then daemon_send e (Hosts (so_hosts s)) 0 (revoked e fp s d) else (Inr (), revoked e fp s d))
     (\<lambda>_ d. (Inr (), daemon_log e ''Host authorization revoked'' d))"
  using assms by (simp add: control_revoke_def on_store_def revoked_def disconnects_store)

lemma safe_control_revoke [simp]: "safe d (snd (control_revoke cd e fp d))"
proof -
  obtain r s where s: "store_revoke cd (en_draws e) fp (dm_store d) = (r, s)" by fastforce
  show ?thesis
  proof (cases r)
    case (Inl x)
    then have "safe d (d\<lparr>dm_store := s\<rparr>)"
      using store_revoke_memory [OF s] by (intro safe_same) (auto simp: inv_defs authority_of_def)
    with s Inl show ?thesis by (simp add: control_revoke_def on_store_def)
  next
    case (Inr u)
    then have ok: "store_revoke cd (en_draws e) fp (dm_store d) = (Inr (), s)" using s by simp
    have "safe (revoked e fp s d) (snd (sbind
       (if dm_worker (revoked e fp s d) \<noteq> None
        then daemon_send e (Hosts (so_hosts s)) 0 (revoked e fp s d) else (Inr (), revoked e fp s d))
       (\<lambda>_ d. (Inr (), daemon_log e ''Host authorization revoked'' d))))"
      by (rule safe_sbind) simp_all
    with safe_revoked [OF ok] show ?thesis unfolding control_revoke_ok [OF ok] by (rule safe_trans)
  qed
qed

lemma safe_control: "safe d (snd (daemon_control cd e request d))"
proof (cases "request = CLogs")
  case True
  then show ?thesis by (simp add: daemon_control_def)
next
  case False
  have quit: "safe d (daemon_stop e ''disabled'' t (d\<lparr>dm_quit := True\<rparr>))" for t
  proof -
    have "safe d (d\<lparr>dm_quit := True\<rparr>)" by (rule safe_same) (auto simp: inv_defs authority_of_def)
    then show ?thesis using safe_daemon_stop [of "''disabled''"] safe_trans by simp
  qed
  have closed: "safe d (daemon_log e t (pair_stop e d))" for t
    using safe_trans [OF safe_pair_stop safe_log] .
  from False show ?thesis
    by (cases request) (auto simp: daemon_control_def quit closed intro!: safe_sbind)
qed

section \<open>The main loop is safe\<close>

lemma safe_stop_after: "safe d x \<Longrightarrow> st \<noteq> ''running'' \<Longrightarrow> safe d (daemon_stop e st t x)"
  using safe_daemon_stop safe_trans by blast

lemma safe_log_after: "safe d x \<Longrightarrow> safe d (daemon_log e t x)"
  using safe_log safe_trans by blast

lemma safe_control_phase [simp]: "safe d (control_phase cd parse e call d)"
  by (auto simp: control_phase_def safe_control split: option.splits sum.splits)

lemma safe_window_phase [simp]: "safe d (window_phase e d)"
  using safe_trans [OF safe_pair_stop safe_log] by (simp add: window_phase_def)

lemma safe_rotate_phase [simp]: "safe d (rotate_phase e d)"
proof (cases "case dm_rotate d of None \<Rightarrow> False | Some t \<Rightarrow> t \<le> en_now e")
  case True
  let ?d = "stop_worker e (d\<lparr>dm_rotate := None\<rparr>)"
  have "safe d (d\<lparr>dm_rotate := None\<rparr>)" by (rule safe_same) (auto simp: inv_defs authority_of_def)
  then have a: "safe d (snd (start_worker e ?d))"
    using safe_stop_worker safe_start_worker safe_trans by meson
  then have "safe d (daemon_stop e ''error'' t (snd (start_worker e ?d)))" for t
    using safe_daemon_stop [of "''error''"] safe_trans by simp
  with a True show ?thesis
    by (cases "start_worker e ?d") (auto simp: rotate_phase_def split: sum.splits)
next
  case False
  then show ?thesis by (simp add: rotate_phase_def)
qed

lemma safe_worker_phase [simp]: "safe d (worker_phase cd kc e w d)"
proof (cases "dm_worker d")
  case None
  then show ?thesis by (simp add: worker_phase_def)
next
  case (Some pid)
  have ready: "safe d (daemon_log e t (d\<lparr>dm_state := ''running'', dm_reason := []\<rparr>))" for t
  proof -
    have "safe d (d\<lparr>dm_state := ''running'', dm_reason := []\<rparr>)"
      using Some by (intro safe_same) (auto simp: inv_defs authority_of_def)
    then show ?thesis using safe_log safe_trans by blast
  qed
  have reply: "safe d (snd (daemon_send e m n x))" if "daemon_request cd kc e r d = (res, x)" for r res x m n
    using safe_request [of d cd kc e r] safe_send [of x e m n] that Some by (auto intro: safe_trans)
  show ?thesis
    using Some ready reply
    by (auto simp: worker_phase_def split: worker_event.splits sum.splits prod.splits message.splits nat.splits)
qed

lemma safe_services_phase [simp]: "safe d (services_phase e d)"
proof -
  let ?d = "stop_services e (close_due e) d" and ?P = "\<lambda>s. \<not> en_exited e (sv_pid s)"
  have "safe ?d (?d\<lparr>dm_services := filter ?P (dm_services ?d)\<rparr>)"
  proof (rule safe_services)
    show "daemon_inv ?d \<Longrightarrow> services_ok (dm_transports ?d) (filter ?P (dm_services ?d))"
      by (simp add: daemon_inv_def services_ok_filter)
    show "filter ?P (dm_services ?d) = [] \<or> dm_services ?d \<noteq> [] \<or> dm_worker ?d \<noteq> None"
      by (cases "dm_services ?d") auto
  qed
  then show ?thesis
    unfolding services_phase_def Let_def by (rule safe_trans [OF safe_stop_services])
qed

lemma daemon_stop_worker: "dm_worker (daemon_stop e st t d) = None"
proof -
  have "dm_worker (stop_worker e d) = None" for d
    by (rule stop_worker_emits [of e d]) (simp add: emit_def)
  then show ?thesis by (simp add: daemon_stop_def Let_def daemon_log_def)
qed

lemma safe_network_phase [simp]: "safe d (network_phase e c d)"
proof -
  let ?s = "daemon_stop e ''starting'' ''Network changed; starting service'' d"
  have s: "safe d ?s" by simp
  have start: "safe d x" if "daemon_start e addresses ?s = (r, x)" for addresses r x
    using safe_trans [OF s safe_daemon_start [OF daemon_stop_worker]] that by (metis snd_conv)
  have "safe d (case daemon_start e addresses ?s of
      (Inl _, d) \<Rightarrow> daemon_stop e ''error'' t d | (Inr _, d) \<Rightarrow> d)" for addresses t
    using start [of addresses] safe_stop_after by (auto split: prod.splits sum.splits)
  then show ?thesis by (simp add: network_phase_def split: sum.splits)
qed

lemma safe_settings_back [simp]: "safe d (settings_back e d)"
proof -
  have "safe d (d\<lparr>dm_reason := t\<rparr>)" for t by (rule safe_same) (auto simp: inv_defs authority_of_def)
  then show ?thesis by (simp add: settings_back_def safe_log_after)
qed

lemma safe_check_phase: "safe (lp_daemon l) (lp_daemon (check_phase e c l))"
proof -
  have reason: "safe d (daemon_log e m (d\<lparr>dm_reason := t\<rparr>))" for d m t
  proof -
    have "safe d (d\<lparr>dm_reason := t\<rparr>)" by (rule safe_same) (auto simp: inv_defs authority_of_def)
    then show ?thesis using safe_log safe_trans by blast
  qed
  have network: "safe d (network_phase e c (settings_back e d))" for d
    using safe_trans [OF safe_settings_back safe_network_phase] .
  show ?thesis
    by (auto simp: check_phase_def Let_def reason network split: option.splits prod.splits bool.splits)
qed

lemma safe_turn_events [simp]: "safe d (turn_events cd kc t d)"
  unfolding turn_events_def
  by (meson safe_services_phase safe_worker_phase safe_rotate_phase safe_window_phase safe_trans)

lemma safe_turn: "safe (lp_daemon l) (lp_daemon (daemon_turn cd kc parse t l))"
proof -
  let ?d = "control_phase cd parse (tn_control_env t) (tn_control t) (lp_daemon l)"
  let ?t = "turn_events cd kc t ?d"
  have "safe ?t (lp_daemon (check_phase (tn_check_env t) (tn_conditions t) (l\<lparr>lp_daemon := ?t\<rparr>)))"
    using safe_check_phase [of "l\<lparr>lp_daemon := ?t\<rparr>"] by simp
  then have "safe ?d (lp_daemon (check_phase (tn_check_env t) (tn_conditions t) (l\<lparr>lp_daemon := ?t\<rparr>)))"
    by (rule safe_trans [OF safe_turn_events])
  then have "safe (lp_daemon l) (lp_daemon (check_phase (tn_check_env t) (tn_conditions t) (l\<lparr>lp_daemon := ?t\<rparr>)))"
    by (rule safe_trans [OF safe_control_phase])
  then show ?thesis by (simp add: daemon_turn_def Let_def)
qed

text \<open>The loop as steps over turns.\<close>

definition loop_step ::
    "codec \<Rightarrow> key_check \<Rightarrow> (u8 list \<Rightarrow> control option) \<Rightarrow> turn \<Rightarrow> loop \<Rightarrow> loop" where
  "loop_step cd kc parse t l = (if dm_quit (lp_daemon l) then l else daemon_turn cd kc parse t l)"

lemma daemon_loop_fold: "daemon_loop cd kc parse ts l = fold (loop_step cd kc parse) ts l"
proof (induction ts arbitrary: l)
  case (Cons t ts)
  have "dm_quit (lp_daemon l) \<Longrightarrow> fold (loop_step cd kc parse) ts l = l" for l
    by (induction ts) (simp_all add: loop_step_def)
  then show ?case using Cons by (cases "dm_quit (lp_daemon l)") (simp_all add: loop_step_def [of cd kc parse t l])
qed simp

interpretation supervisor: simulation "\<lambda>l. daemon_inv (lp_daemon l)" "loop_step cd kc parse"
    "\<lambda>l. authority_of (lp_daemon l)" authority_step for cd kc parse
  using safe_turn by unfold_locales (auto simp: loop_step_def safe_def)

lemma daemon_new_inv:
  "length (so_hosts s) \<le> MAX_HOSTS \<Longrightarrow>
     daemon_inv (daemon_new e test s) \<and> authority_ok (authority_of (daemon_new e test s))"
proof -
  assume len: "length (so_hosts s) \<le> MAX_HOSTS"
  have "card (h_fingerprint ` set (so_hosts s)) \<le> length (so_hosts s)"
    by (metis card_length length_map set_map)
  with len show ?thesis
    by (simp add: daemon_new_def inv_defs authority_ok_def authority_of_def bt_get_empty)
qed

end
