(* ===== verification/Daemon_Claims.thy ===== *)
theory Daemon_Claims
  imports Daemon_Safety
begin

text \<open>
  What follows for the supervisor of \<open>Daemon\<close>: it implements \<open>Authority\<close>, revoking is immediate,
  guesses at a pairing code are limited, the service runs only while native debugging is off, and
  one operation that leaves the service stranded.
\<close>

section \<open>Refinement\<close>


text \<open>An environment in which everything works, one in which nothing does, and a turn with both.\<close>

definition demo_env :: "instant \<Rightarrow> env" where
  "demo_env t =
     \<lparr>en_now = t, en_time = 0, en_draws = (Some [1], Some [2]), en_code = Inr ''123456'',
      en_send = (\<lambda>_. Inr ()), en_service_send = Inr (),
      en_listen = (\<lambda>_ _ n. (Inr (n, 5555), n + 1)), en_mdns = (\<lambda>_ n. (Inr n, n + 1)),
      en_pair = Inr (), en_spawn = Inr 7, en_exited = (\<lambda>_. False), en_exits = (\<lambda>_. True), en_bind = None\<rparr>"

definition broken_env :: "instant \<Rightarrow> env" where
  "broken_env t = (demo_env t)\<lparr>en_send := (\<lambda>_. Inl TimeoutErr), en_spawn := Inl (Msg ''fork'')\<rparr>"

definition demo_conditions :: conditions where
  "demo_conditions =
     \<lparr>co_changed = True, co_properties = (\<lambda>p. Inr (if p = ''init.svc.adbd'' then ''stopped'' else [])),
      co_monitor = monitor_run [\<lparr>ch_processes = Inr None, ch_settings = Inr None, ch_now = secs 10, ch_stored = secs 10\<rparr>],
      co_discover = Inl TimeoutErr\<rparr>"

definition demo_turn :: turn where
  "demo_turn =
     \<lparr>tn_control = None, tn_worker = Arrived (Inr (Request 1 (Authenticated 5 ''f''), 0)),
      tn_conditions = demo_conditions, tn_control_env = demo_env 0, tn_window_env = broken_env 1,
      tn_rotate_env = demo_env 2, tn_worker_env = demo_env 3, tn_services_env = broken_env 4,
      tn_check_env = demo_env (secs 11)\<rparr>"


section \<open>Revocation\<close>

lemma signal_kept: "set (dm_effects d) \<subseteq> set (dm_effects (foldl (\<lambda>d i. disconnect e i d) d ids))"
proof (induction ids arbitrary: d)
  case (Cons i ids)
  have "set (dm_effects d) \<subseteq> set (dm_effects (disconnect e i d))"
    by (auto simp: disconnect_def stop_services_def emit_def)
  with Cons [of "disconnect e i d"] show ?case by auto
qed simp

text \<open>A process that was told to end, or has ended.\<close>

definition told_to_end :: "env \<Rightarrow> effect list \<Rightarrow> service \<Rightarrow> bool" where
  "told_to_end e es s \<longleftrightarrow>
     en_exited e (sv_pid s) \<or> Terminated (sv_pid s) \<in> set es \<or> BinderClosed (sv_pid s) \<in> set es"

lemma service_stop_tells: "\<not> sv_stopped s \<Longrightarrow> told_to_end e (snd (service_stop e s)) s"
  by (auto simp: service_stop_def told_to_end_def Let_def)

lemma disconnects_tell:
  "s \<in> set (dm_services d) \<Longrightarrow> \<not> sv_stopped s \<Longrightarrow> sv_transport s \<in> set ids \<Longrightarrow>
     told_to_end e (dm_effects (foldl (\<lambda>d i. disconnect e i d) d ids)) s"
proof (induction ids arbitrary: d)
  case (Cons i ids)
  let ?d = "disconnect e i d"
  show ?case
  proof (cases "sv_transport s = i")
    case True
    with Cons.prems have "set (snd (service_stop e s)) \<subseteq> set (dm_effects ?d)"
      by (auto simp: disconnect_def stop_services_def emit_def)
    with signal_kept [of ?d e ids] service_stop_tells [OF Cons.prems(2), of e] show ?thesis
      by (auto simp: told_to_end_def)
  next
    case False
    with Cons.prems(1) have "s \<in> set (dm_services ?d)" by (force simp: disconnect_fields)
    with Cons False show ?thesis by simp
  qed
qed simp

lemma control_revoke_fields:
  assumes "store_revoke cd (en_draws e) fp (dm_store d) = (Inr (), s)"
    and "control_revoke cd e fp d = (r, d')"
  shows "dm_store d' = s" "dm_transports d' = dm_transports (revoked e fp s d)"
    "dm_services d' = dm_services (revoked e fp s d)"
    "set (dm_effects (revoked e fp s d)) \<subseteq> set (dm_effects d')"
proof -
  define x where "x = revoked e fp s d"
  define m where "m = (if dm_worker x \<noteq> None then daemon_send e (Hosts (so_hosts s)) 0 x else (Inr (), x))"
  have "\<exists>r es. m = (r, emit es x)"
    using daemon_send_eq [of e "Hosts (so_hosts s)" 0 x] by (auto simp: m_def emit_def intro: exI [of _ "[]"])
  then obtain q es where m: "m = (q, emit es x)" by blast
  have store: "dm_store x = s" by (simp add: x_def revoked_def)
  have "(r, d') = sbind m (\<lambda>_ d. (Inr (), daemon_log e ''Host authorization revoked'' d))"
    using assms(2) unfolding control_revoke_ok [OF assms(1)] m_def x_def by (rule sym)
  with m store show "dm_store d' = s" "dm_transports d' = dm_transports (revoked e fp s d)"
      "dm_services d' = dm_services (revoked e fp s d)"
      "set (dm_effects (revoked e fp s d)) \<subseteq> set (dm_effects d')"
    unfolding x_def [symmetric] by (cases q; simp add: emit_def daemon_log_def Let_def)+
qed


text \<open>A running supervisor with one connected host, which has a shell and a reverse listener.\<close>

definition demo_host :: host where
  "demo_host =
     \<lparr>h_fingerprint = ''f'', h_public_key = [], h_name = [], h_paired_at = 0, h_last_connected = None\<rparr>"

definition demo_daemon :: daemon where
  "demo_daemon =
     (daemon_new (demo_env 0) False ((demo_store (replicate 20 COk))\<lparr>so_hosts := [demo_host]\<rparr>))
       \<lparr>dm_worker := Some 7,
        dm_bundle := Some \<lparr>bu_endpoints = [Endpoint ''wlan0'' 3 167772161 5555], bu_tcp = [4],
          bu_specs = [], bu_mdns = []\<rparr>,
        dm_services := [new_service 8 5, (new_service 9 5)\<lparr>sv_binder := Some ''tcp:1''\<rparr>],
        dm_transports := [(5, ''f'')], dm_state := ''running''\<rparr>"

lemma demo_daemon_inv: "daemon_inv demo_daemon"
  by (simp add: demo_daemon_def inv_defs services_ok_def daemon_new_def bt_ok_def bt_keys_def bt_get_def
      new_service_def MAX_STREAMS_def MAX_HOSTS_def)

lemma demo_names: "temp_name [1] \<noteq> backup_name [2]" "temp_name [1] \<noteq> ''hosts.json''"
    "temp_name [1] \<noteq> ''config.json''" "temp_name [1] \<noteq> ''identity.json''" "backup_name [2] \<noteq> ''hosts.json''"
    "backup_name [2] \<noteq> ''config.json''" "backup_name [2] \<noteq> ''identity.json''"
  by (simp_all add: temp_name_def backup_name_def)

text \<open>A disk on which every call works stores what it is given.\<close>

lemma demo_atomic:
  "p \<in> {''hosts.json'', ''config.json''} \<Longrightarrow>
     fst (atomic (Some [1], Some [2]) p b (so_disk (demo_store (replicate 20 COk)))) = Inr ()"
  using demo_names
  by (auto simp: atomic_def Let_def demo_store_def atomic_commit_def write_temp_def swap_in_def fs_defs
      numeral_eq_Suc)

lemma demo_store_hosts:
  "dm_store demo_daemon = (demo_store (replicate 20 COk))\<lparr>so_hosts := [demo_host]\<rparr>"
  "dm_services demo_daemon = [new_service 8 5, (new_service 9 5)\<lparr>sv_binder := Some ''tcp:1''\<rparr>]"
  "dm_transports demo_daemon = [(5, ''f'')]" "dm_worker demo_daemon = Some 7"
  "dm_state demo_daemon = ''running''" "dm_test demo_daemon = False"
  by (simp_all add: demo_daemon_def daemon_new_def)

lemma demo_revoke: "\<exists>s. store_revoke demo_codec (Some [1], Some [2]) ''f'' (dm_store demo_daemon) = (Inr (), s)"
  using demo_atomic [of "''hosts.json''" "enc_hosts demo_codec []"]
  by (simp add: store_revoke_def save_hosts_def demo_store_hosts demo_host_def demo_store_def
      case_prod_unfold split: sum.splits)


section \<open>Guesses at the pairing code\<close>

text \<open>The worker's requests one after the other, with whether each was answered with success.\<close>

fun serve :: "codec \<Rightarrow> key_check \<Rightarrow> (env \<times> request) list \<Rightarrow> daemon \<Rightarrow> (request \<times> bool) list" where
  "serve cd kc [] d = []"
| "serve cd kc ((e, r) # rs) d =
     (let (res, d') = daemon_request cd kc e r d in (r, is_ok res) # serve cd kc rs d')"

text \<open>The accepted pairing results: whether each brought a key.\<close>

fun pair_outcome :: "request \<times> bool \<Rightarrow> bool list" where
  "pair_outcome (PairResult _ key, True) = [key \<noteq> None]"
| "pair_outcome _ = []"

definition guesses_left :: "daemon \<Rightarrow> nat" where
  "guesses_left d = (case dm_window d of None \<Rightarrow> 0 | Some w \<Rightarrow> MAX_PAIR_FAILURES - wi_failures w)"

lemma disconnect_window: "dm_window (disconnect e i d) = dm_window d"
  by (simp add: disconnect_def stop_services_def emit_def)

lemma pair_result_left:
  assumes "request_pair_result cd kc e epoch key d = (r, d')"
  shows "guesses_left d' + (if is_ok r then 1 else 0) \<le> guesses_left d
    \<and> (is_ok r \<and> key \<noteq> None \<longrightarrow> guesses_left d' = 0)"
proof (cases "dm_window d")
  case None
  with assms show ?thesis by (auto simp: request_pair_result_def)
next
  case (Some w)
  show ?thesis
  proof (cases "wi_epoch w = epoch \<and> en_now e < wi_expires w \<and> wi_failures w < MAX_PAIR_FAILURES")
    case False
    with Some assms show ?thesis by (auto simp: request_pair_result_def split: if_splits)
  next
    case True
    show ?thesis
    proof (cases key)
      case None
      have "dm_window (pair_failure e w d) =
          (if MAX_PAIR_FAILURES \<le> wi_failures w + 1 then None else Some (w\<lparr>wi_failures := wi_failures w + 1\<rparr>))"
        by (rule pair_stop_emits [of e "d\<lparr>dm_window := Some (w\<lparr>wi_failures := wi_failures w + 1\<rparr>)\<rparr>"])
          (simp add: pair_failure_def Let_def daemon_log_def emit_def)
      with assms Some True None show ?thesis
        by (auto simp: request_pair_result_def guesses_left_def)
    next
      case key: (Some k)
      obtain q s where q: "store_pair cd kc (en_draws e) (en_time e) k (dm_store d) = (q, s)" by fastforce
      show ?thesis
      proof (cases q)
        case (Inl x)
        with assms Some True key q show ?thesis
          by (auto simp: request_pair_result_def on_store_def guesses_left_def)
      next
        case (Inr fp)
        let ?m = "sbind (daemon_send e PairCommitted 0 (d\<lparr>dm_store := s, dm_window := None\<rparr>)) (\<lambda>_ d.
            sbind (daemon_send e (Hosts (so_hosts (dm_store d))) 0 d) (\<lambda>_ d.
              (Inr (), daemon_log e ''Host paired successfully'' d)))"
        have send: "dm_window (snd (daemon_send e m n x)) = dm_window x" for m n x
          by (rule daemon_send_emits [of e m n x]) (simp add: emit_def)
        have log: "dm_window (daemon_log e t x) = dm_window x" for t x by (simp add: daemon_log_def Let_def)
        have "dm_window (snd ?m) = None"
        proof (rule sbind_keeps [where P = "\<lambda>x. dm_window x = None"])
          fix x :: unit and y :: daemon
          assume y: "dm_window y = None"
          show "dm_window (snd (sbind (daemon_send e (Hosts (so_hosts (dm_store y))) 0 y) (\<lambda>_ d.
              (Inr (), daemon_log e ''Host paired successfully'' d)))) = None"
            by (rule sbind_keeps [where P = "\<lambda>x. dm_window x = None"]) (simp_all add: send log y)
        qed (simp add: send)
        moreover have "request_pair_result cd kc e epoch key d = ?m"
          using Some True key q Inr by (simp add: request_pair_result_def on_store_def)
        ultimately have "dm_window d' = None" using assms by (metis snd_conv)
        with Some True show ?thesis by (auto simp: guesses_left_def)
      qed
    qed
  qed
qed

lemma request_left:
  assumes "daemon_request cd kc e r d = (res, d')"
  shows "guesses_left d' + length (pair_outcome (r, is_ok res)) \<le> guesses_left d
    \<and> (True \<in> set (pair_outcome (r, is_ok res)) \<longrightarrow> guesses_left d' = 0)"
proof (cases "\<exists>epoch key. r = PairResult epoch key")
  case True
  then obtain epoch key where r: "r = PairResult epoch key" by blast
  obtain q s where q: "request_pair_result cd kc e epoch key d = (q, s)" by fastforce
  with r assms have "d' = s" "is_ok res = is_ok q"
    by (cases q; auto simp: daemon_request_def done_reply_def)+
  with r pair_result_left [OF q] show ?thesis by (cases "is_ok q") auto
next
  case False
  have "dm_window d' = dm_window d"
    using assms False
    by (cases r)
      (auto simp: daemon_request_def done_reply_def request_authenticated_def on_store_def daemon_log_def
        sbind_def disconnect_window spawn_service_def push_stopped_def push_service_def emit_def Let_def
        request_close_def stop_services_def request_root_def
        split: if_splits sum.splits prod.splits option.splits)
  with False show ?thesis by (cases r) (simp_all add: guesses_left_def)
qed

text \<open>
  C14: an attacker has at most ten guesses. While one pairing window is open, over any sequence of
  requests of the worker at any times, at most ten pairing results are accepted, counting those the
  window has already seen; and after one that brought a key none is accepted any more, so a window
  pairs at most one host. Without a window none is accepted.
\<close>

theorem pairing_guesses_bounded:
  "length (concat (map pair_outcome (serve cd kc rs d))) \<le> guesses_left d
    \<and> guesses_left d \<le> 10 \<and> True \<notin> set (butlast (concat (map pair_outcome (serve cd kc rs d))))"
proof (intro conjI)
  have "length (concat (map pair_outcome (serve cd kc rs d))) \<le> guesses_left d
      \<and> True \<notin> set (butlast (concat (map pair_outcome (serve cd kc rs d))))"
  proof (induction rs arbitrary: d)
    case (Cons er rs)
    obtain e r where er: "er = (e, r)" by fastforce
    obtain res d' where d': "daemon_request cd kc e r d = (res, d')" by fastforce
    let ?p = "pair_outcome (r, is_ok res)" and ?q = "concat (map pair_outcome (serve cd kc rs d'))"
    have len: "length ?p \<le> 1" by (cases "(r, is_ok res)" rule: pair_outcome.cases) auto
    note step = request_left [OF d'] and ih = Cons [of d']
    have "True \<in> set ?p \<Longrightarrow> ?q = []" using step ih by auto
    with len ih have "True \<notin> set (butlast (?p @ ?q))" by (cases ?p) (auto simp: butlast_append)
    with step ih er d' show ?case by simp
  qed simp
  then show "length (concat (map pair_outcome (serve cd kc rs d))) \<le> guesses_left d"
    and "True \<notin> set (butlast (concat (map pair_outcome (serve cd kc rs d))))" by blast+
  show "guesses_left d \<le> 10" by (simp add: guesses_left_def MAX_PAIR_FAILURES_def split: option.splits)
qed

section \<open>Running only while native debugging is off\<close>

text \<open>The system properties say that native debugging is off.\<close>

definition properties_off :: "(string \<Rightarrow> err + string) \<Rightarrow> bool" where
  "properties_off p \<longleftrightarrow>
     p ''init.svc.adbd'' \<in> {Inr ''stopped'', Inr []} \<and> is_ok (p ''persist.adb.tls_server.enable'')
       \<and> p ''persist.adb.tls_server.enable'' \<noteq> Inr ''1''
       \<and> (case p ''sys.usb.state'' of Inl _ \<Rightarrow> False | Inr u \<Rightarrow> ''adb'' \<notin> set (split_on (\<lambda>c. c = CHR '','') u))"

text \<open>The last check of the monitor is recent and saw no native adbd.\<close>

definition recent_check :: "instant \<Rightarrow> check list \<Rightarrow> bool" where
  "recent_check now cs \<longleftrightarrow> cs \<noteq> [] \<and> now - ch_stored (last cs) \<le> secs 6 \<and> ch_processes (last cs) = Inr None"

lemma native_properties_None:
  assumes "native_properties p = Inr None"
  shows "properties_off p"
proof -
  from assms obtain a w u where p: "p ''init.svc.adbd'' = Inr a" "p ''persist.adb.tls_server.enable'' = Inr w"
      "p ''sys.usb.state'' = Inr u" and st: "native_property_status a w u = Inr None"
    unfolding native_properties_def rbind_eq_Inr_iff by blast
  have "w \<noteq> ''1''" using st by (rule contrapos_pn) (simp add: native_property_status_def)
  moreover have u: "''adb'' \<notin> set (split_on (\<lambda>c. c = CHR '','') u)"
    using st \<open>w \<noteq> ''1''\<close> unfolding native_property_status_def by (metis Inr_inject option.distinct(1))
  moreover have "a = ''stopped'' \<or> a = []"
    using st \<open>w \<noteq> ''1''\<close> u unfolding native_property_status_def
    by (metis Inl_Inr_False Inr_inject option.distinct(1))
  ultimately show ?thesis unfolding properties_off_def p by simp
qed

lemma monitor_status_fresh:
  assumes "monitor_status now running (monitor_run cs) = (None, waiting)"
  shows "recent_check now cs"
proof (cases cs rule: rev_cases)
  case Nil
  with assms show ?thesis by (simp add: monitor_run_def monitor_start_def monitor_status_def)
next
  case (snoc cs' c)
  then have "monitor_run cs = monitor_round c (monitor_run cs')" by (simp add: monitor_run_def)
  with assms snoc show ?thesis
    by (auto simp: native_check_cases monitor_status_def recent_check_def all_clear_def
        only_settings_failed_def split: if_splits)
qed

lemma pause_reason_None:
  assumes "pause_reason e c d = (None, w)" and "co_monitor c = monitor_run cs" and "\<not> dm_test d"
  shows "properties_off (co_properties c) \<and> recent_check (en_now e) cs"
proof (cases "native_properties (co_properties c)")
  case (Inl x)
  with assms show ?thesis by (simp add: pause_reason_def)
next
  case (Inr r)
  with assms have r: "native_properties (co_properties c) = Inr None"
    by (cases r) (simp_all add: pause_reason_def)
  with assms have "monitor_status (en_now e) (dm_worker d \<noteq> None \<and> dm_state d = ''running'')
      (monitor_run cs) = (None, w)"
    by (simp add: pause_reason_def)
  with r monitor_status_fresh native_properties_None show ?thesis by blast
qed


definition demo_loop :: loop where
  "demo_loop = \<lparr>lp_daemon = demo_daemon, lp_property = 0, lp_network = int (secs 10)\<rparr>"


section \<open>A change of settings that strands the service\<close>

lemma daemon_stop_no_worker: "dm_worker d = None \<Longrightarrow> dm_worker (daemon_stop e state reason d) = None"
  by (simp add: daemon_stop_def daemon_log_def Let_def)

text \<open>
  C39: after saving a setting that does not concern the endpoint, the worker is restarted at once. If
  that fails for whatever reason (no channel, no process, or the boot message not sent), the request
  reports the error, but the supervisor still calls itself running, without a worker: it keeps its
  listeners, no message is taken from a worker any more, and a later check that finds the same
  interfaces starts none: the network part of the check leaves everything as it is. The same failure
  after a change of the root permission stops the service with a retry.
\<close>

theorem configure_strands:
  assumes "daemon_inv d" and "dm_state d = ''running''"
    and "store_configure cd (en_draws e) config (dm_store d) = (Inr (), s)"
    and "so_config (dm_store d) \<noteq> config" and "\<not> endpoint_changed (so_config (dm_store d)) config"
    and "control_configure cd e config d = (Inl x, d')"
    and "co_discover c = Inr addresses" and "addresses \<noteq> []" and "\<not> network_changed addresses d"
  shows "dm_state d' = ''running'' \<and> dm_worker d' = None \<and> dm_bundle d' = dm_bundle d
    \<and> window_phase e' d' = d' \<and> worker_phase cd kc e' w d' = d' \<and> network_phase e' c d' = d'
    \<and> dm_worker (lp_daemon (check_phase e' c (l\<lparr>lp_daemon := d'\<rparr>))) = None"
proof -
  obtain es where es: "stop_worker e (d\<lparr>dm_store := s\<rparr>) = emit es (d\<lparr>dm_store := s\<rparr>
      \<lparr>dm_worker := None, dm_services := [], dm_transports := [], dm_window := None\<rparr>)"
    by (rule stop_worker_emits)
  have config: "so_config s = config" using store_configure_memory [OF assms(3)] by simp
  obtain b where b: "dm_bundle d = Some b" using assms(1,2) by (auto simp: inv_defs)
  let ?d = "(stop_worker e (d\<lparr>dm_store := s\<rparr>))\<lparr>dm_root := False\<rparr>"
  have "start_worker e ?d = (Inl x, d')"
    using assms(3-6) config b
    by (auto simp: control_configure_def on_store_def es emit_def Let_def intro: prod_eqI
        simp: sbind_def split: prod.splits sum.splits)
  then have "d' = emit (case rbind (en_pair e) (\<lambda>_. en_spawn e) of Inl _ \<Rightarrow> [] | Inr pid \<Rightarrow> [WorkerStarted pid]) ?d"
    using b by (auto simp: start_worker_def es emit_def Let_def split: sum.splits)
  then obtain es' where d': "d' = emit es' ?d" by blast
  then have worker: "dm_worker d' = None" by (simp add: es emit_def)
  have net: "network_phase e' c y = y" if "dm_bundle y = dm_bundle d" for y
    using assms(7-9) that by (simp add: network_phase_def network_changed_def)
  have kept: "dm_bundle d' = dm_bundle d" using d' by (simp add: es emit_def)
  have "dm_worker (lp_daemon (check_phase e' c (l\<lparr>lp_daemon := d'\<rparr>))) = None"
    using worker kept net
    by (auto simp: check_phase_def Let_def settings_back_def daemon_log_def daemon_stop_no_worker
        split: prod.splits option.splits bool.splits)
  with d' worker kept net [OF kept] assms(2) show ?thesis
    by (simp add: es emit_def window_phase_def worker_phase_def)
qed

lemma demo_configure:
  "\<exists>s. store_configure demo_codec (Some [1], Some [2]) (default_config\<lparr>cf_allow_adb_root := True\<rparr>)
     (dm_store demo_daemon) = (Inr (), s)"
  using demo_atomic [of "''config.json''" "enc_config demo_codec (default_config\<lparr>cf_allow_adb_root := True\<rparr>)"]
  by (simp add: store_configure_def demo_store_hosts demo_store_def config_validate_def default_config_def
      case_prod_unfold split: sum.splits)

theorem configure_strands_witness:
  "\<exists>d'. control_configure demo_codec (broken_env 0) (default_config\<lparr>cf_allow_adb_root := True\<rparr>) demo_daemon
      = (Inl (Msg ''fork''), d') \<and> dm_state d' = ''running'' \<and> dm_worker d' = None
      \<and> dm_worker (lp_daemon (check_phase (demo_env (secs 11))
          (demo_conditions\<lparr>co_discover := Inr [Endpoint ''wlan0'' 3 167772161 0]\<rparr>) (demo_loop\<lparr>lp_daemon := d'\<rparr>))) = None"
proof -
  let ?config = "default_config\<lparr>cf_allow_adb_root := True\<rparr>"
    and ?c = "demo_conditions\<lparr>co_discover := Inr [Endpoint ''wlan0'' 3 167772161 0]\<rparr>"
  obtain s where s: "store_configure demo_codec (en_draws (broken_env 0)) ?config (dm_store demo_daemon) = (Inr (), s)"
    using demo_configure by (auto simp: broken_env_def demo_env_def)
  have config: "so_config (dm_store demo_daemon) = default_config"
    by (simp add: demo_store_hosts demo_store_def)
  have change: "so_config (dm_store demo_daemon) \<noteq> ?config" "\<not> endpoint_changed (so_config (dm_store demo_daemon)) ?config"
    unfolding config by (simp_all add: default_config_def endpoint_changed_def)
  obtain b where "dm_bundle demo_daemon = Some b" by (simp add: demo_daemon_def)
  then have "fst (control_configure demo_codec (broken_env 0) ?config demo_daemon) = Inl (Msg ''fork'')"
    using s store_configure_memory [OF s] change
    by (cases "dm_worker demo_daemon")
      (simp_all add: control_configure_def on_store_def start_worker_def stop_worker_def end_worker_def stop_services_def
        emit_def Let_def broken_env_def demo_env_def sbind_def)
  then obtain d' where r: "control_configure demo_codec (broken_env 0) ?config demo_daemon = (Inl (Msg ''fork''), d')"
    by (metis prod.collapse)
  have same: "\<not> network_changed [Endpoint ''wlan0'' 3 167772161 0] demo_daemon"
    by (simp add: network_changed_def demo_daemon_def daemon_new_def ep_set_port_def)
  have "co_discover ?c = Inr [Endpoint ''wlan0'' 3 167772161 0]" by simp
  from configure_strands [OF demo_daemon_inv demo_store_hosts(5) s change r this _ same,
      of "demo_env (secs 11)" "\<lambda>_. Inl Base64Err" Quiet demo_loop] r
  show ?thesis by simp
qed

end
