(* ===== verification/Sync.thy ===== *)
theory Sync
  imports Protocol Store
begin

text \<open>
  \<open>src/src/unix/services/sync.rs\<close>: the file transfer service. Its stream is what the client will
  still send (after which the stream ends) and what it has been sent; the outcomes of the
  successive writes are a script. The file system is a map from paths to nodes, and every call
  that changes it takes its outcome from a script, as in \<open>Store\<close>. What the kernel answers to
  queries (metadata, where a link leads, directory listings, the sizes of reads) is a record \<open>sync_env\<close>.
\<close>

section \<open>Paths, nodes and the stream\<close>

text \<open>
  A path as \<open>Path::components\<close> sees it: whether it starts at the root, and its components without
  empty ones and dots. Byte 47 is the slash, 46 the dot.
\<close>

type_synonym bytes = "u8 list"

record path =
  pt_root :: bool
  pt_comps :: "bytes list"

definition path_of :: "bytes \<Rightarrow> path" where
  "path_of raw =
     \<lparr>pt_root = (case raw of [] \<Rightarrow> False | b # _ \<Rightarrow> b = 47),
      pt_comps = filter (\<lambda>c. c \<noteq> [] \<and> c \<noteq> [46]) (split_on (\<lambda>b. b = 47) raw)\<rparr>"

text \<open>\<open>Path::file_name\<close>, \<open>Path::parent\<close> (the working directory when empty) and \<open>Path::join\<close> with a
  single name.\<close>

definition file_name :: "path \<Rightarrow> bytes option" where
  "file_name p =
     (if pt_comps p = [] \<or> last (pt_comps p) = [46, 46] then None else Some (last (pt_comps p)))"

definition path_parent :: "path \<Rightarrow> path" where
  "path_parent p = p\<lparr>pt_comps := butlast (pt_comps p)\<rparr>"

definition path_join :: "path \<Rightarrow> bytes \<Rightarrow> path" where
  "path_join p n = p\<lparr>pt_comps := pt_comps p @ [n]\<rparr>"

text \<open>A regular file has its content, its permissions and its time; \<open>None\<close> is the time of its
  last change.\<close>

datatype node = Regular bytes u32 "u32 option" | Link bytes "u32 option" | Directory

record sync =
  sy_in :: bytes
  sy_out :: bytes
  sy_writes :: "(io_error \<times> nat) option list"
  sy_files :: "path \<Rightarrow> node option"
  sy_calls :: "call list"

record meta =
  me_dev :: u64
  me_ino :: u64
  me_mode :: u32
  me_nlink :: u64
  me_uid :: u32
  me_gid :: u32
  me_size :: u64
  me_atime :: u64
  me_mtime :: u64
  me_ctime :: u64

record sync_env =
  se_metadata :: "bool \<Rightarrow> path \<Rightarrow> io_error + meta"
  se_resolve :: "path \<Rightarrow> path"
  se_read_dir :: "path \<Rightarrow> io_error + (io_error + bytes \<times> (io_error + meta)) list"
  se_reads :: "(io_error + nat) list"
  se_random :: "bytes option"

text \<open>\<open>read_exact\<close> and \<open>write_all\<close> on the stream. A write can fail after part of the bytes.\<close>

definition take_in :: "nat \<Rightarrow> sync \<Rightarrow> (bytes, sync) outcome" where
  "take_in n s =
     (case read_exact n (sy_in s) of
        Inl x \<Rightarrow> (Inl x, s\<lparr>sy_in := []\<rparr>)
      | Inr (b, rest) \<Rightarrow> (Inr b, s\<lparr>sy_in := rest\<rparr>))"

definition put :: "bytes \<Rightarrow> sync \<Rightarrow> (unit, sync) outcome" where
  "put b s =
     (case sy_writes s of
        [] \<Rightarrow> (Inl (io_err WriteZero ''closed''), s)
      | None # w \<Rightarrow> (Inr (), s\<lparr>sy_out := sy_out s @ b, sy_writes := w\<rparr>)
      | Some (x, k) # w \<Rightarrow> (Inl (Io x), s\<lparr>sy_out := sy_out s @ take k b, sy_writes := w\<rparr>))"

text \<open>A call of the file system: its effect, or an error after a part of it.\<close>

definition fs_call ::
    "(nat \<Rightarrow> (path \<Rightarrow> node option) \<Rightarrow> path \<Rightarrow> node option)
       \<Rightarrow> ((path \<Rightarrow> node option) \<Rightarrow> (io_error + 'a) \<times> (path \<Rightarrow> node option)) \<Rightarrow> sync \<Rightarrow> ('a, sync) outcome" where
  "fs_call part f s =
     (case sy_calls s of
        [] \<Rightarrow> (Inl (io_err OtherIo ''no such call''), s)
      | COk # cs \<Rightarrow>
          (let (r, files) = f (sy_files s)
           in (case r of Inl x \<Rightarrow> Inl (Io x) | Inr y \<Rightarrow> Inr y, s\<lparr>sy_files := files, sy_calls := cs\<rparr>))
      | CErr x k # cs \<Rightarrow> (Inl (Io x), s\<lparr>sy_files := part k (sy_files s), sy_calls := cs\<rparr>))"

definition os_error :: "io_kind \<Rightarrow> nat \<Rightarrow> io_error" where
  "os_error kind n = IoError kind (Some n) []"

text \<open>
  \<open>create_dir_all\<close>: the missing directories from the top, a part of them when it fails. A symbolic link
  in the place of a directory is accepted, as \<open>is_dir\<close> follows it; that it leads to no directory is an
  error of the call's script. Paths are not resolved: what lies below a link is named through it.
\<close>

definition passable :: "node option \<Rightarrow> bool" where
  "passable n = (case n of Some (Regular _ _ _) \<Rightarrow> False | _ \<Rightarrow> True)"

lemma passable_simps [simp]:
  "passable None" "passable (Some Directory)" "passable (Some (Link t m))" "\<not> passable (Some (Regular c p m))"
  by (simp_all add: passable_def)

definition prefixes_of :: "path \<Rightarrow> path list" where
  "prefixes_of p = map (\<lambda>n. p\<lparr>pt_comps := take n (pt_comps p)\<rparr>) [1..<Suc (length (pt_comps p))]"

definition make_dirs :: "path list \<Rightarrow> (path \<Rightarrow> node option) \<Rightarrow> path \<Rightarrow> node option" where
  "make_dirs ps f = (\<lambda>q. if q \<in> set ps \<and> f q = None then Some Directory else f q)"

definition sync_create_dirs :: "path \<Rightarrow> sync \<Rightarrow> (unit, sync) outcome" where
  "sync_create_dirs p = fs_call (\<lambda>k. make_dirs (take k (prefixes_of p)))
     (\<lambda>f. if list_all (\<lambda>q. passable (f q)) (prefixes_of p)
          then (Inr (), make_dirs (prefixes_of p) f) else (Inl (os_error OtherIo 20), f))"

text \<open>The other calls: creating a file or a link that must not exist, appending, permissions,
  times, syncing, renaming and removing.\<close>

definition sync_create :: "path \<Rightarrow> node \<Rightarrow> sync \<Rightarrow> (unit, sync) outcome" where
  "sync_create p n = fs_call (\<lambda>_ f. f)
     (\<lambda>f. if f p \<noteq> None then (Inl (os_error OtherIo 17), f) else (Inr (), f(p \<mapsto> n)))"

definition append_node :: "path \<Rightarrow> bytes \<Rightarrow> (path \<Rightarrow> node option) \<Rightarrow> path \<Rightarrow> node option" where
  "append_node p b f = (case f p of Some (Regular c m t) \<Rightarrow> f(p \<mapsto> Regular (c @ b) m t) | _ \<Rightarrow> f)"

definition sync_append :: "path \<Rightarrow> bytes \<Rightarrow> sync \<Rightarrow> (unit, sync) outcome" where
  "sync_append p b = fs_call (\<lambda>k. append_node p (take k b)) (\<lambda>f. (Inr (), append_node p b f))"

definition chmod_node :: "path \<Rightarrow> u32 \<Rightarrow> (path \<Rightarrow> node option) \<Rightarrow> path \<Rightarrow> node option" where
  "chmod_node p m f = (case f p of Some (Regular c _ t) \<Rightarrow> f(p \<mapsto> Regular c m t) | _ \<Rightarrow> f)"

definition sync_chmod :: "path \<Rightarrow> u32 \<Rightarrow> sync \<Rightarrow> (unit, sync) outcome" where
  "sync_chmod p m = fs_call (\<lambda>_ f. f) (\<lambda>f. (Inr (), chmod_node p m f))"

definition sync_fsync :: "sync \<Rightarrow> (unit, sync) outcome" where
  "sync_fsync = fs_call (\<lambda>_ f. f) (\<lambda>f. (Inr (), f))"

definition utime_node :: "path \<Rightarrow> u32 \<Rightarrow> (path \<Rightarrow> node option) \<Rightarrow> path \<Rightarrow> node option" where
  "utime_node p t f =
     (case f p of Some (Regular c m _) \<Rightarrow> f(p \<mapsto> Regular c m (Some t))
      | Some (Link c _) \<Rightarrow> f(p \<mapsto> Link c (Some t)) | _ \<Rightarrow> f)"

definition sync_utime :: "path \<Rightarrow> u32 \<Rightarrow> sync \<Rightarrow> (unit, sync) outcome" where
  "sync_utime p t s =
     (case fs_call (\<lambda>_ f. f) (\<lambda>f. (Inr (), utime_node p t f)) s of
        (Inl _, s) \<Rightarrow> (Inl (Msg ''timestamp failed''), s)
      | (Inr _, s) \<Rightarrow> (Inr (), s))"

definition sync_rename :: "path \<Rightarrow> path \<Rightarrow> sync \<Rightarrow> (unit, sync) outcome" where
  "sync_rename p q = fs_call (\<lambda>_ f. f)
     (\<lambda>f. case f p of
        None \<Rightarrow> (Inl (os_error NotFound 2), f)
      | Some n \<Rightarrow>
          if f q = Some Directory then (Inl (os_error OtherIo 21), f)
          else (Inr (), f(p := None, q \<mapsto> n)))"

definition sync_remove :: "path \<Rightarrow> sync \<Rightarrow> (unit, sync) outcome" where
  "sync_remove p = fs_call (\<lambda>_ f. f)
     (\<lambda>f. if f p = None then (Inl (os_error NotFound 2), f) else (Inr (), f(p := None)))"

section \<open>Numbers and replies\<close>

definition DATA :: u32 where "DATA = cmd_id ''DATA''"
definition DONE :: u32 where "DONE = cmd_id ''DONE''"
definition SYNC_MAX :: nat where "SYNC_MAX = 65536"

definition number :: "sync \<Rightarrow> (u32, sync) outcome" where
  "number s = sbind (take_in 4 s) (\<lambda>b s. (Inr (from_le32 b), s))"

fun u32s :: "u32 list \<Rightarrow> sync \<Rightarrow> (unit, sync) outcome" where
  "u32s [] s = (Inr (), s)"
| "u32s (v # vs) s = sbind (put (to_le32 v) s) (\<lambda>_ s. u32s vs s)"

fun u64s :: "u64 list \<Rightarrow> sync \<Rightarrow> (unit, sync) outcome" where
  "u64s [] s = (Inr (), s)"
| "u64s (v # vs) s = sbind (put (to_le64 v) s) (\<lambda>_ s. u64s vs s)"

definition fail :: "string \<Rightarrow> sync \<Rightarrow> (unit, sync) outcome" where
  "fail message s =
     (let bytes = take 256 (str_bytes message)
      in sbind (u32s [cmd_id ''FAIL'', of_nat (length bytes)] s) (\<lambda>_ s. put bytes s))"

text \<open>\<open>stat\<close>: 5 is \<open>EIO\<close>. A missing value is zero; the first version truncates size and time.\<close>

definition stat :: "u32 \<Rightarrow> io_error + meta \<Rightarrow> bytes option \<Rightarrow> bool \<Rightarrow> sync \<Rightarrow> (unit, sync) outcome" where
  "stat kind result name v2 s =
     (let (error, m) = (case result of
            Inr m \<Rightarrow> (0, Some m)
          | Inl x \<Rightarrow> (of_nat (case io_os x of Some n \<Rightarrow> n | None \<Rightarrow> 5), None));
          u64 = (\<lambda>f. case m of None \<Rightarrow> 0 :: u64 | Some m \<Rightarrow> f m);
          u32 = (\<lambda>f. case m of None \<Rightarrow> 0 :: u32 | Some m \<Rightarrow> f m)
      in sbind
        (if v2 then
           sbind (u32s [kind, error] s) (\<lambda>_ s.
           sbind (u64s [u64 me_dev, u64 me_ino] s) (\<lambda>_ s.
           sbind (u32s [u32 me_mode, u32 (\<lambda>m. ucast (me_nlink m)), u32 me_uid, u32 me_gid] s) (\<lambda>_ s.
             u64s [u64 me_size, u64 me_atime, u64 me_mtime, u64 me_ctime] s)))
         else u32s [kind, u32 me_mode, u32 (\<lambda>m. ucast (me_size m)), u32 (\<lambda>m. ucast (me_mtime m))] s)
        (\<lambda>_ s. case name of
            None \<Rightarrow> (Inr (), s)
          | Some n \<Rightarrow> sbind (u32s [of_nat (length n)] s) (\<lambda>_ s. put n s)))"

section \<open>Receiving a file\<close>

text \<open>The frames up to \<open>DONE\<close>: into the file, or collected as the target of a link.\<close>

lemma take_in_length:
  "take_in n s = (Inr b, s') \<Longrightarrow> length (sy_in s') + n = length (sy_in s)"
  "length (sy_in (snd (take_in n s))) \<le> length (sy_in s)"
  by (auto simp: take_in_def split: sum.splits prod.splits)

lemma number_length:
  "number s = (Inr v, s') \<Longrightarrow> length (sy_in s') + 4 = length (sy_in s)"
  "length (sy_in (snd (number s))) \<le> length (sy_in s)"
  using take_in_length [of 4 s]
  by (cases "take_in 4 s"; cases "fst (take_in 4 s)"; auto simp: number_def)+

lemma fs_call_in [simp]: "sy_in (snd (fs_call p f s)) = sy_in s"
    "sy_out (snd (fs_call p f s)) = sy_out s" "sy_writes (snd (fs_call p f s)) = sy_writes s"
  by (auto simp: fs_call_def split: list.splits call.splits prod.splits)

lemma sync_append_in: "sync_append p b s = (r, s') \<Longrightarrow> sy_in s' = sy_in s"
  unfolding sync_append_def by (metis fs_call_in(1) snd_conv)

function data_loop :: "path \<Rightarrow> bool \<Rightarrow> bytes \<Rightarrow> sync \<Rightarrow> (bytes \<times> u32, sync) outcome" where
  "data_loop temp symlink target s =
     sbind (number s) (\<lambda>kind s.
     sbind (number s) (\<lambda>len s.
       if kind = DONE then (Inr (target, len), s)
       else if \<not> (kind = DATA \<and> unat len \<le> SYNC_MAX) then (Inl (Msg ''invalid file data frame''), s)
       else sbind (take_in (unat len) s) (\<lambda>buf s.
         if \<not> symlink then sbind (sync_append temp buf s) (\<lambda>_ s. data_loop temp symlink target s)
         else if \<not> length target + length buf \<le> 4096 then (Inl (Msg ''symlink target too long''), s)
         else data_loop temp symlink (target @ buf) s)))"
  by pat_completeness auto
termination
  by (relation "measure (\<lambda>(_, _, _, s). length (sy_in s))")
    (auto dest!: number_length(1) take_in_length(1) sync_append_in)

declare data_loop.simps [simp del]

definition S_IFMT :: u32 where "S_IFMT = 0xF000"
definition S_IFREG :: u32 where "S_IFREG = 0x8000"
definition S_IFLNK :: u32 where "S_IFLNK = 0xA000"

text \<open>What the target of a link becomes: one trailing zero is dropped.\<close>

definition link_target :: "bytes \<Rightarrow> bytes" where
  "link_target t = (if t \<noteq> [] \<and> last t = 0 then butlast t else t)"

text \<open>After the frames: permissions and syncing, or making the link.\<close>

definition finish_node :: "path \<Rightarrow> bool \<Rightarrow> u32 \<Rightarrow> bytes \<Rightarrow> sync \<Rightarrow> (unit, sync) outcome" where
  "finish_node temp symlink mode target s =
     (if \<not> symlink then sbind (sync_chmod temp (mode AND 0x1FF) s) (\<lambda>_ s. sync_fsync s)
      else let target = link_target target
        in if target = [] \<or> 0 \<in> set target then (Inl (Msg ''invalid symlink target''), s)
           else sync_create temp (Link target None) s)"

definition push_body :: "path \<Rightarrow> path \<Rightarrow> u32 \<Rightarrow> sync \<Rightarrow> (unit, sync) outcome" where
  "push_body temp path mode s =
     (let symlink = (mode AND S_IFMT = S_IFLNK)
      in if \<not> (mode AND S_IFMT = 0 \<or> mode AND S_IFMT = S_IFREG \<or> symlink)
         then (Inl (Msg ''unsupported file type''), s)
         else sbind (if symlink then (Inr (), s) else sync_create temp (Regular [] 384 None) s) (\<lambda>_ s.
              sbind (data_loop temp symlink [] s) (\<lambda>(target, mtime) s.
              sbind (finish_node temp symlink mode target s) (\<lambda>_ s.
              sbind (sync_utime temp mtime s) (\<lambda>_ s.
              sbind (sync_rename temp path s) (\<lambda>_ s.
                u32s [OKAY, 0] s))))))"

definition temp_of :: "path \<Rightarrow> bytes \<Rightarrow> path" where
  "temp_of path r = path_join (path_parent path) (str_bytes (''.altdb-push-'' @ hex r))"

definition send_file :: "sync_env \<Rightarrow> path \<Rightarrow> u32 \<Rightarrow> sync \<Rightarrow> (unit, sync) outcome" where
  "send_file e path mode s =
     (if file_name path = None then (Inl (Msg ''invalid target''), s)
      else sbind (sync_create_dirs (path_parent path) s) (\<lambda>_ s.
        case se_random e of
          None \<Rightarrow> (Inl (Msg ''secure random unavailable''), s)
        | Some r \<Rightarrow>
            let temp = temp_of path r; (result, s) = push_body temp path mode s
            in (result, if is_ok result then s else snd (sync_remove temp s))))"

section \<open>Sending a file\<close>

text \<open>
  Opening follows links to where the kernel resolves them. A file is opened once; reading gives the next part of its content, of a size the kernel chooses
  (at least one byte, at most the buffer), or an error. \<open>se_reads\<close> lists these answers; when they
  are used up, a read fills the buffer.
\<close>

function recv_loop :: "(io_error + nat) list \<Rightarrow> bytes \<Rightarrow> sync \<Rightarrow> (unit, sync) outcome" where
  "recv_loop reads content s =
     (case reads of
        Inl x # _ \<Rightarrow> (Inl (Io x), s)
      | _ \<Rightarrow>
          let n = (case reads of Inr k # _ \<Rightarrow> max 1 (min k SYNC_MAX) | _ \<Rightarrow> SYNC_MAX);
              buf = take n content
          in if content = [] then (Inr (), s)
             else sbind (u32s [DATA, of_nat (length buf)] s) (\<lambda>_ s.
                  sbind (put buf s) (\<lambda>_ s. recv_loop (tl reads) (drop n content) s)))"
  by pat_completeness auto
termination
  by (relation "measure (\<lambda>(_, c, _). length c)") (auto simp: SYNC_MAX_def split: list.splits sum.splits)

declare recv_loop.simps [simp del]

definition sync_open :: "sync_env \<Rightarrow> path \<Rightarrow> sync \<Rightarrow> (bytes, sync) outcome" where
  "sync_open e p = fs_call (\<lambda>_ f. f)
     (\<lambda>f. case (case f p of Some (Link _ _) \<Rightarrow> f (se_resolve e p) | n \<Rightarrow> n) of
        Some (Regular c _ _) \<Rightarrow> (Inr c, f)
      | Some Directory \<Rightarrow> (Inl (os_error OtherIo 21), f)
      | _ \<Rightarrow> (Inl (os_error NotFound 2), f))"

definition recv_file :: "sync_env \<Rightarrow> path \<Rightarrow> sync \<Rightarrow> (unit, sync) outcome" where
  "recv_file e path s =
     sbind (sync_open e path s) (\<lambda>content s.
     sbind (recv_loop (se_reads e) content s) (\<lambda>_ s. u32s [DONE, 0] s))"

section \<open>Requests\<close>

text \<open>The mode of a version 1 push stands after the last comma (44) of its argument.\<close>

definition split_mode :: "bytes \<Rightarrow> (bytes \<times> bytes) option" where
  "split_mode raw =
     (case dropWhile (\<lambda>b. b \<noteq> 44) (rev raw) of
        [] \<Rightarrow> None
      | _ # r \<Rightarrow> Some (rev r, rev (takeWhile (\<lambda>b. b \<noteq> 44) (rev raw))))"

definition push_target :: "u32 \<Rightarrow> bytes \<Rightarrow> sync \<Rightarrow> (path \<times> u32, sync) outcome" where
  "push_target kind raw s =
     (if kind = cmd_id ''SEND'' then
        (case split_mode raw of
           None \<Rightarrow> (Inl (invalid ''missing file mode''), s)
         | Some (name, digits) \<Rightarrow>
             (rbind (from_utf8 digits) (\<lambda>t. rbind (parse_u32 t) (\<lambda>mode. Inr (path_of name, mode))), s))
      else
        sbind (number s) (\<lambda>v s.
        if v \<noteq> kind then (Inl (Msg ''invalid SEND setup''), s)
        else sbind (number s) (\<lambda>mode s.
             sbind (number s) (\<lambda>flags s.
               (if flags = 0 then Inr (path_of raw, mode) else Inl (Msg ''unsupported send flags''), s)))))"

text \<open>The setup of a version 2 pull: its own kind again, and no flags.\<close>

definition pull_setup :: "u32 \<Rightarrow> sync \<Rightarrow> (unit, sync) outcome" where
  "pull_setup kind s =
     (if kind \<noteq> cmd_id ''RCV2'' then (Inr (), s)
      else sbind (number s) (\<lambda>v s.
        if v \<noteq> kind then (Inl (Msg ''unsupported receive flags''), s)
        else sbind (number s) (\<lambda>flags s.
          (if flags = 0 then Inr () else Inl (Msg ''unsupported receive flags''), s))))"

fun list_entries :: "bool \<Rightarrow> (io_error + bytes \<times> (io_error + meta)) list \<Rightarrow> sync \<Rightarrow> (unit, sync) outcome" where
  "list_entries v2 [] s = (Inr (), s)"
| "list_entries v2 (Inl x # es) s = (Inl (Io x), s)"
| "list_entries v2 (Inr (name, m) # es) s =
     sbind (stat (cmd_id (if v2 then ''DNT2'' else ''DENT'')) m (Some name) v2 s)
       (\<lambda>_ s. list_entries v2 es s)"

definition list_dir :: "sync_env \<Rightarrow> bool \<Rightarrow> path \<Rightarrow> sync \<Rightarrow> (unit, sync) outcome" where
  "list_dir e v2 path s =
     sbind (case se_read_dir e path of Inl _ \<Rightarrow> (Inr (), s) | Inr es \<Rightarrow> list_entries v2 es s) (\<lambda>_ s.
       stat DONE (Inl (os_error OtherIo 0)) (Some []) v2 s)"

definition handle :: "sync_env \<Rightarrow> u32 \<Rightarrow> bytes \<Rightarrow> sync \<Rightarrow> (unit, sync) outcome" where
  "handle e kind raw s =
     (let path = path_of raw
      in if kind = cmd_id ''STAT'' then stat kind (se_metadata e False path) None False s
         else if kind = cmd_id ''STA2'' \<or> kind = cmd_id ''LST2''
         then stat kind (se_metadata e (kind = cmd_id ''STA2'') path) None True s
         else if kind = cmd_id ''LIST'' \<or> kind = cmd_id ''LIS2''
         then list_dir e (kind = cmd_id ''LIS2'') path s
         else if kind = cmd_id ''RECV'' \<or> kind = cmd_id ''RCV2''
         then sbind (pull_setup kind s) (\<lambda>_ s. recv_file e path s)
         else if kind = cmd_id ''SEND'' \<or> kind = cmd_id ''SND2''
         then sbind (push_target kind raw s) (\<lambda>(path, mode) s. send_file e path mode s)
         else (Inl (Msg ''unsupported SYNC operation''), s))"

definition failure_text :: "err \<Rightarrow> string" where
  "failure_text x =
     (case x of Io i \<Rightarrow> ''filesystem error: '' @ show_nat (case io_os i of Some n \<Rightarrow> n | None \<Rightarrow> 5)
      | _ \<Rightarrow> ''unsupported or malformed SYNC request'')"

text \<open>The outcome of one request: \<open>True\<close> when the client quits.\<close>

definition serve_request :: "sync_env \<Rightarrow> sync \<Rightarrow> (bool, sync) outcome" where
  "serve_request e s =
     sbind (number s) (\<lambda>kind s.
     sbind (number s) (\<lambda>len s.
       if kind = cmd_id ''QUIT'' then
         (if len = 0 then Inr True else Inl (Msg ''invalid QUIT''), s)
       else if len = 0 \<or> 1024 < unat len then
         sbind (fail ''invalid path length'' s) (\<lambda>_ s. (Inl (Msg ''invalid path length''), s))
       else sbind (take_in (unat len) s) (\<lambda>path s.
         if 0 \<in> set path then sbind (fail ''invalid path'' s) (\<lambda>_ s. (Inl (Msg ''invalid path''), s))
         else case handle e kind path s of
           (Inl x, s) \<Rightarrow> (Inl x, snd (fail (failure_text x) s))
         | (Inr _, s) \<Rightarrow> (Inr False, s))))"

section \<open>The loop ends\<close>

text \<open>No operation gives input back.\<close>

definition eats :: "sync \<Rightarrow> ('a, sync) outcome \<Rightarrow> bool" where
  "eats s r \<longleftrightarrow> length (sy_in (snd r)) \<le> length (sy_in s)"

lemma eats_here [simp]: "eats s (r, s)"
  by (simp add: eats_def)

lemma eats_sbind: "eats s m \<Longrightarrow> (\<And>x t. m = (Inr x, t) \<Longrightarrow> eats t (f x t)) \<Longrightarrow> eats s (sbind m f)"
  unfolding eats_def by (cases m; cases "fst m") (auto intro: le_trans)

lemma eats_basic [simp]:
  "eats s (take_in n s)" "eats s (number s)" "eats s (put b s)" "eats s (fs_call p f s)"
  using take_in_length(2) number_length(2)
  by (simp_all add: eats_def) (simp add: put_def split: list.splits option.splits)

lemma eats_calls [simp]:
  "eats s (sync_create_dirs p s)" "eats s (sync_create p n s)" "eats s (sync_append p b s)"
  "eats s (sync_chmod p m s)" "eats s (sync_fsync s)" "eats s (sync_rename p q s)" "eats s (sync_remove p s)"
  "eats s (sync_open e p s)"
  by (simp_all add: sync_create_dirs_def sync_create_def sync_append_def sync_chmod_def sync_fsync_def
      sync_rename_def sync_remove_def sync_open_def)

lemma eats_utime [simp]: "eats s (sync_utime p t s)"
  unfolding sync_utime_def eats_def case_prod_unfold by (simp split: sum.splits)

lemma eats_u32s [simp]: "eats s (u32s vs s)"
  by (induction vs arbitrary: s) (auto intro: eats_sbind)

lemma eats_u64s [simp]: "eats s (u64s vs s)"
  by (induction vs arbitrary: s) (auto intro: eats_sbind)

declare u32s.simps(2) [simp del] u64s.simps(2) [simp del]

lemma eats_fail [simp]: "eats s (fail m s)"
  unfolding fail_def Let_def by (intro eats_sbind) simp_all

lemma eats_stat [simp]: "eats s (stat k r n v2 s)"
  unfolding stat_def Let_def case_prod_unfold
  by (auto intro!: eats_sbind split: option.splits)

lemma eats_data_loop [simp]: "eats s (data_loop temp l t s)"
proof (induction "length (sy_in s)" arbitrary: l t s rule: less_induct)
  case less
  show ?case
    by (subst data_loop.simps)
      (auto intro!: eats_sbind less dest!: number_length(1) take_in_length(1) sync_append_in)
qed

lemma eats_recv_loop [simp]: "eats s (recv_loop reads c s)"
proof (induction "length c" arbitrary: reads c s rule: less_induct)
  case less
  show ?case
    by (subst recv_loop.simps)
      (auto simp: Let_def SYNC_MAX_def split: list.splits sum.splits intro!: eats_sbind less)
qed

lemma eats_finish [simp]: "eats s (finish_node temp l m t s)"
  unfolding finish_node_def Let_def by (auto intro!: eats_sbind)

lemma eats_push_body [simp]: "eats s (push_body temp p m s)"
  unfolding push_body_def Let_def by (auto intro!: eats_sbind split: prod.splits)

lemma eats_send_file [simp]: "eats s (send_file e p m s)"
proof -
  have "eats s (let (result, s') = push_body temp p m s
      in (result, if is_ok result then s' else snd (sync_remove temp s')))" for temp s
    using eats_push_body [of s temp p m] eats_calls(7) [of _ temp]
    by (auto simp: eats_def Let_def case_prod_unfold intro: le_trans)
  then show ?thesis unfolding send_file_def by (auto simp: Let_def intro!: eats_sbind split: option.splits)
qed

lemma eats_recv_file [simp]: "eats s (recv_file e p s)"
  unfolding recv_file_def by (intro eats_sbind) simp_all

lemma eats_list [simp]: "eats s (list_entries v2 es s)" "eats s (list_dir e v2 p s)"
proof -
  show l: "eats s (list_entries v2 es s)" for es s
    by (induction v2 es s rule: list_entries.induct) (auto intro: eats_sbind)
  show "eats s (list_dir e v2 p s)"
    unfolding list_dir_def by (auto intro!: eats_sbind l split: sum.splits)
qed

lemma eats_handle [simp]: "eats s (handle e kind raw s)"
proof -
  have "eats s (push_target kind raw s)" "eats s (pull_setup kind s)"
    unfolding push_target_def pull_setup_def by (auto intro!: eats_sbind split: option.splits)
  then show ?thesis unfolding handle_def Let_def by (auto intro!: eats_sbind)
qed

lemma eats_reply:
  "eats s (case handle e kind raw s of
      (Inl x, s) \<Rightarrow> (Inl x, snd (fail (failure_text x) s)) | (Inr _, s) \<Rightarrow> (Inr False, s))"
proof -
  obtain r t where h: "handle e kind raw s = (r, t)" by fastforce
  have "length (sy_in t) \<le> length (sy_in s)" using eats_handle [of s e kind raw] by (simp add: eats_def h)
  moreover have "length (sy_in (snd (fail m t))) \<le> length (sy_in t)" for m
    using eats_fail [of t m] by (simp only: eats_def)
  ultimately show ?thesis by (cases r) (auto simp: eats_def h intro: le_trans)
qed

lemma serve_request_eats:
  assumes "serve_request e s = (Inr q, s')"
  shows "length (sy_in s') + 8 \<le> length (sy_in s)"
proof -
  obtain k t where 1: "number s = (Inr k, t)"
    and a: "length (sy_in t) + 4 = length (sy_in s)"
    using assms number_length(1) by (auto simp: serve_request_def sbind_eq_Inr_iff)
  obtain l u where 2: "number t = (Inr l, u)" and b: "length (sy_in u) + 4 = length (sy_in t)"
    using assms 1 number_length(1) by (auto simp: serve_request_def sbind_eq_Inr_iff)
  have "eats u (serve_request e s)"
    using 1 2 unfolding serve_request_def by (auto intro!: eats_sbind eats_reply)
  with assms a b show ?thesis by (simp add: eats_def)
qed

text \<open>\<open>serve\<close>: the \<open>n\<close>th request sees the \<open>n\<close>th environment.\<close>

function serve :: "(nat \<Rightarrow> sync_env) \<Rightarrow> nat \<Rightarrow> sync \<Rightarrow> (unit, sync) outcome" where
  "serve e n s =
     sbind (serve_request (e n) s) (\<lambda>quit s. if quit then (Inr (), s) else serve e (Suc n) s)"
  by pat_completeness auto
termination
  by (relation "measure (\<lambda>(_, _, s). length (sy_in s))") (auto dest!: serve_request_eats)

declare serve.simps [simp del]

end
