(* ===== verification/Sync_Safety.thy ===== *)
theory Sync_Safety
  imports Sync
begin

text \<open>
  What the file transfer of \<open>Sync\<close> guarantees: a push replaces its target completely or not at all,
  and what was pushed is pulled again unchanged.
\<close>

section \<open>The client's side of the frames\<close>

definition data_frame :: "bytes \<Rightarrow> bytes" where
  "data_frame c = to_le32 DATA @ to_le32 (of_nat (length c)) @ c"

definition file_frames :: "bytes list \<Rightarrow> u32 \<Rightarrow> bytes" where
  "file_frames cs mtime = concat (map data_frame cs) @ to_le32 DONE @ to_le32 mtime"

definition pushed_node :: "u32 \<Rightarrow> bytes \<Rightarrow> u32 \<Rightarrow> node" where
  "pushed_node mode content mtime =
     (if mode AND S_IFMT = S_IFLNK then Link (link_target content) (Some mtime)
      else Regular content (mode AND 0x1FF) (Some mtime))"

lemma DATA_not_DONE [simp]: "DATA \<noteq> DONE" "DONE \<noteq> DATA"
  by (simp_all add: DATA_def DONE_def cmd_id_def from_le32_def str_bytes_def)

lemma take_inD:
  "take_in n s = (Inr b, s') \<Longrightarrow> sy_in s = b @ sy_in s' \<and> length b = n \<and> sy_files s' = sy_files s"
  by (auto simp: take_in_def split: sum.splits prod.splits)

lemma take_in_frame: "sy_in s = b @ rest \<Longrightarrow> length b = n \<Longrightarrow> take_in n s = (Inr b, s\<lparr>sy_in := rest\<rparr>)"
  by (simp add: take_in_def)

lemma numberD: "number s = (Inr v, s') \<Longrightarrow> sy_in s = to_le32 v @ sy_in s' \<and> sy_files s' = sy_files s"
  by (auto simp: number_def sbind_eq_Inr_iff dest!: take_inD)

lemma number_frame: "sy_in s = to_le32 v @ rest \<Longrightarrow> number s = (Inr v, s\<lparr>sy_in := rest\<rparr>)"
  by (simp add: number_def take_in_frame)

section \<open>Only the temporary file changes\<close>

text \<open>An operation that changes no file but \<open>p\<close> and writes nothing to the client.\<close>

definition quiet :: "path \<Rightarrow> sync \<Rightarrow> ('a, sync) outcome \<Rightarrow> bool" where
  "quiet p s m \<longleftrightarrow> (\<forall>q. q \<noteq> p \<longrightarrow> sy_files (snd m) q = sy_files s q) \<and> sy_out (snd m) = sy_out s"

lemma quiet_here [simp]: "quiet p s (r, s)"
  by (simp add: quiet_def)

lemma quiet_sbind:
  "quiet p s m \<Longrightarrow> (\<And>x t. m = (Inr x, t) \<Longrightarrow> quiet p t (f x t)) \<Longrightarrow> quiet p s (sbind m f)"
  unfolding quiet_def by (cases m; cases "fst m") auto

lemma quiet_fs_call:
  "(\<And>k f q. q \<noteq> p \<Longrightarrow> part k f q = f q) \<Longrightarrow> (\<And>f q. q \<noteq> p \<Longrightarrow> snd (g f) q = f q) \<Longrightarrow>
     quiet p s (fs_call part g s)"
  unfolding quiet_def by (simp add: fs_call_def case_prod_unfold Let_def split: list.splits call.splits)

lemma quiet_calls [simp]:
  "quiet p s (take_in n s)" "quiet p s (number s)" "quiet p s (sync_create p n' s)"
  "quiet p s (sync_append p b s)" "quiet p s (sync_chmod p m s)" "quiet p s (sync_fsync s)"
  "quiet p s (sync_remove p s)"
proof -
  show t: "quiet p s (take_in n s)" for n
    by (auto simp: quiet_def take_in_def split: sum.splits prod.splits)
  show "quiet p s (number s)" unfolding number_def by (intro quiet_sbind t) simp
  show "quiet p s (sync_create p n' s)" "quiet p s (sync_fsync s)" "quiet p s (sync_remove p s)"
    unfolding sync_create_def sync_fsync_def sync_remove_def by (auto intro!: quiet_fs_call)
  show "quiet p s (sync_append p b s)" "quiet p s (sync_chmod p m s)"
    unfolding sync_append_def sync_chmod_def append_node_def chmod_node_def
    by (auto intro!: quiet_fs_call split: option.splits node.splits)
qed

lemma quiet_utime [simp]: "quiet p s (sync_utime p t s)"
proof -
  have "quiet p s (fs_call (\<lambda>_ f. f) (\<lambda>f. (Inr () :: io_error + unit, utime_node p t f)) s)"
    by (rule quiet_fs_call) (auto simp: utime_node_def split: option.splits node.splits)
  then show ?thesis
    unfolding sync_utime_def quiet_def case_prod_unfold by (simp split: sum.splits)
qed

lemma quiet_data_loop [simp]: "quiet temp s (data_loop temp l t s)"
proof (induction "length (sy_in s)" arbitrary: l t s rule: less_induct)
  case less
  show ?case
    by (subst data_loop.simps)
      (auto intro!: quiet_sbind less dest!: number_length(1) take_in_length(1) sync_append_in)
qed

lemma quiet_finish [simp]: "quiet temp s (finish_node temp l m t s)"
  unfolding finish_node_def Let_def by (auto intro!: quiet_sbind)

section \<open>What a push writes\<close>

lemma append_node_content:
  "f p = Some (Regular c m t) \<Longrightarrow> append_node p b f = f(p \<mapsto> Regular (c @ b) m t)"
  by (simp add: append_node_def)

lemma fs_call_ok:
  "fs_call part g s = (Inr x, s') \<Longrightarrow> fst (g (sy_files s)) = Inr x \<and> sy_files s' = snd (g (sy_files s))"
  by (auto simp: fs_call_def split: list.splits call.splits prod.splits sum.splits)

text \<open>A loop that ends well has read a sequence of frames, and the file holds their data.\<close>

lemma data_loop_file:
  "data_loop temp False t s = (Inr (r, mtime), s') \<Longrightarrow> sy_files s temp = Some (Regular c m u) \<Longrightarrow>
     \<exists>cs. sy_in s = file_frames cs mtime @ sy_in s' \<and> sy_files s' temp = Some (Regular (c @ concat cs) m u)"
proof (induction "length (sy_in s)" arbitrary: s c rule: less_induct)
  case less
  from less.prems(1) obtain kind s1 len s2 where
    n: "number s = (Inr kind, s1)" "number s1 = (Inr len, s2)"
    by (subst (asm) data_loop.simps) (auto simp: sbind_eq_Inr_iff)
  note body = less.prems(1) [unfolded data_loop.simps [of temp False t s] n sbind_Inr]
  have files: "sy_files s2 = sy_files s" and "in": "sy_in s = to_le32 kind @ to_le32 len @ sy_in s2"
    using numberD [OF n(1)] numberD [OF n(2)] by simp_all
  show ?case
  proof (cases "kind = DONE")
    case True
    with body "in" files less.prems(2) show ?thesis
      by (intro exI [of _ "[]"]) (simp add: file_frames_def)
  next
    case False
    with body obtain buf s3 s4 where k: "kind = DATA" "take_in (unat len) s2 = (Inr buf, s3)"
        "sync_append temp buf s3 = (Inr (), s4)" "data_loop temp False t s4 = (Inr (r, mtime), s')"
      by (auto simp: sbind_eq_Inr_iff split: if_splits)
    have s3: "sy_in s2 = buf @ sy_in s3" "length buf = unat len" "sy_files s3 = sy_files s"
      using take_inD [OF k(2)] files by simp_all
    have "sy_files s4 temp = Some (Regular (c @ buf) m u)"
      using fs_call_ok k(3) s3(3) less.prems(2) unfolding sync_append_def by (force simp: append_node_content)
    moreover have s4: "sy_in s4 = sy_in s3" using k(3) by (rule sync_append_in)
    moreover have "length (sy_in s4) < length (sy_in s)" using "in" s3(1) s4 by simp
    ultimately obtain cs where cs: "sy_in s4 = file_frames cs mtime @ sy_in s'"
        "sy_files s' temp = Some (Regular ((c @ buf) @ concat cs) m u)"
      using less.hyps k(4) by blast
    have "of_nat (length buf) = len" using s3(2) by simp
    with cs "in" s3(1) s4 k(1) show ?thesis
      by (intro exI [of _ "buf # cs"]) (simp add: file_frames_def data_frame_def)
  qed
qed

lemma data_loop_link:
  "data_loop temp True t s = (Inr (r, mtime), s') \<Longrightarrow>
     \<exists>cs. sy_in s = file_frames cs mtime @ sy_in s' \<and> r = t @ concat cs \<and> sy_files s' = sy_files s"
proof (induction "length (sy_in s)" arbitrary: s t rule: less_induct)
  case less
  from less.prems(1) obtain kind s1 len s2 where
    n: "number s = (Inr kind, s1)" "number s1 = (Inr len, s2)"
    by (subst (asm) data_loop.simps) (auto simp: sbind_eq_Inr_iff)
  note body = less.prems(1) [unfolded data_loop.simps [of temp True t s] n sbind_Inr]
  have files: "sy_files s2 = sy_files s" and "in": "sy_in s = to_le32 kind @ to_le32 len @ sy_in s2"
    using numberD [OF n(1)] numberD [OF n(2)] by simp_all
  show ?case
  proof (cases "kind = DONE")
    case True
    with body "in" files show ?thesis
      by (intro exI [of _ "[]"]) (simp add: file_frames_def)
  next
    case False
    with body obtain buf s3 where k: "kind = DATA" "take_in (unat len) s2 = (Inr buf, s3)"
        "data_loop temp True (t @ buf) s3 = (Inr (r, mtime), s')"
      by (auto simp: sbind_eq_Inr_iff split: if_splits)
    have s3: "sy_in s2 = buf @ sy_in s3" "length buf = unat len" "sy_files s3 = sy_files s"
      using take_inD [OF k(2)] files by simp_all
    then have "length (sy_in s3) < length (sy_in s)" using "in" by simp
    from less.hyps [OF this k(3)] obtain cs where cs: "sy_in s3 = file_frames cs mtime @ sy_in s'"
        "r = (t @ buf) @ concat cs" "sy_files s' = sy_files s3" by blast
    have "of_nat (length buf) = len" using s3(2) by simp
    with cs "in" s3 k(1) show ?thesis
      by (intro exI [of _ "buf # cs"]) (simp add: file_frames_def data_frame_def)
  qed
qed

section \<open>A push is all or nothing\<close>

lemma sbind_assoc: "sbind (sbind m f) g = sbind m (\<lambda>x s. sbind (f x s) g)"
  by (cases m; cases "fst m") auto

text \<open>The part of a push before the rename.\<close>

definition push_prepare :: "path \<Rightarrow> u32 \<Rightarrow> sync \<Rightarrow> (unit, sync) outcome" where
  "push_prepare temp mode s =
     (let symlink = (mode AND S_IFMT = S_IFLNK)
      in sbind (if symlink then (Inr (), s) else sync_create temp (Regular [] 384 None) s) (\<lambda>_ s.
         sbind (data_loop temp symlink [] s) (\<lambda>(target, mtime) s.
         sbind (finish_node temp symlink mode target s) (\<lambda>_ s. sync_utime temp mtime s))))"

lemma push_body_eq:
  "push_body temp path mode s =
     (if \<not> (mode AND S_IFMT = 0 \<or> mode AND S_IFMT = S_IFREG \<or> mode AND S_IFMT = S_IFLNK)
      then (Inl (Msg ''unsupported file type''), s)
      else sbind (push_prepare temp mode s) (\<lambda>_ s. sbind (sync_rename temp path s) (\<lambda>_ s. u32s [OKAY, 0] s)))"
  by (simp add: push_body_def push_prepare_def sbind_assoc Let_def case_prod_unfold)

lemma quiet_prepare [simp]: "quiet temp s (push_prepare temp mode s)"
  unfolding push_prepare_def Let_def by (auto intro!: quiet_sbind split: prod.splits)

lemma fs_call_input: "fs_call part g s = (r, s') \<Longrightarrow> sy_in s' = sy_in s"
  by (metis fs_call_in(1) snd_conv)

lemma finish_file:
  assumes "finish_node temp False mode t s = (Inr (), s')" and "sy_files s temp = Some (Regular c m u)"
  shows "sy_files s' temp = Some (Regular c (mode AND 0x1FF) u) \<and> sy_in s' = sy_in s"
proof -
  from assms(1) obtain s1 where 1: "sync_chmod temp (mode AND 0x1FF) s = (Inr (), s1)" "sync_fsync s1 = (Inr (), s')"
    by (auto simp: finish_node_def sbind_eq_Inr_iff)
  have "sy_files s' = chmod_node temp (mode AND 0x1FF) (sy_files s)"
    using fs_call_ok [OF 1(1) [unfolded sync_chmod_def]] fs_call_ok [OF 1(2) [unfolded sync_fsync_def]] by simp
  moreover have "sy_in s' = sy_in s"
    using 1 fs_call_input unfolding sync_chmod_def sync_fsync_def by metis
  ultimately show ?thesis using assms(2) by (simp add: chmod_node_def)
qed

lemma finish_link:
  assumes "finish_node temp True mode t s = (Inr (), s')"
  shows "sy_files s' temp = Some (Link (link_target t) None) \<and> sy_in s' = sy_in s"
proof -
  from assms have c: "sync_create temp (Link (link_target t) None) s = (Inr (), s')"
    by (auto simp: finish_node_def Let_def split: if_splits)
  from fs_call_ok [OF this [unfolded sync_create_def]] fs_call_input [OF c [unfolded sync_create_def]] show ?thesis
    by (auto split: if_splits)
qed

lemma utime_ok:
  assumes "sync_utime p t s = (Inr (), s')"
  shows "sy_files s' = utime_node p t (sy_files s) \<and> sy_in s' = sy_in s"
proof -
  let ?c = "fs_call (\<lambda>_ f. f) (\<lambda>f. (Inr () :: io_error + unit, utime_node p t f)) s"
  from assms have c: "?c = (Inr (), s')" by (auto simp: sync_utime_def split: prod.splits sum.splits)
  from fs_call_ok [OF c] fs_call_input [OF c] show ?thesis by simp
qed

lemma prepare_ok:
  assumes "push_prepare temp mode s = (Inr (), s')"
  shows "\<exists>cs mtime. sy_in s = file_frames cs mtime @ sy_in s'
    \<and> sy_files s' temp = Some (pushed_node mode (concat cs) mtime)"
proof (cases "mode AND S_IFMT = S_IFLNK")
  case True
  with assms obtain t mtime s1 s2 where d: "data_loop temp True [] s = (Inr (t, mtime), s1)"
      "finish_node temp True mode t s1 = (Inr (), s2)" "sync_utime temp mtime s2 = (Inr (), s')"
    by (auto simp: push_prepare_def Let_def sbind_eq_Inr_iff)
  from data_loop_link [OF d(1)] obtain cs where "sy_in s = file_frames cs mtime @ sy_in s1" "t = concat cs"
    by auto
  with True finish_link [OF d(2)] utime_ok [OF d(3)] show ?thesis
    by (intro exI [of _ cs] exI [of _ mtime]) (simp add: pushed_node_def utime_node_def)
next
  case False
  with assms obtain s0 t mtime s1 s2 where d: "sync_create temp (Regular [] 384 None) s = (Inr (), s0)"
      "data_loop temp False [] s0 = (Inr (t, mtime), s1)"
      "finish_node temp False mode t s1 = (Inr (), s2)" "sync_utime temp mtime s2 = (Inr (), s')"
    by (auto simp: push_prepare_def Let_def sbind_eq_Inr_iff)
  have s0: "sy_files s0 temp = Some (Regular [] 384 None)" "sy_in s0 = sy_in s"
    using fs_call_ok [OF d(1) [unfolded sync_create_def]] fs_call_input [OF d(1) [unfolded sync_create_def]]
    by (auto split: if_splits)
  from data_loop_file [OF d(2) s0(1)] obtain cs where cs: "sy_in s0 = file_frames cs mtime @ sy_in s1"
      "sy_files s1 temp = Some (Regular (concat cs) 384 None)" by auto
  from finish_file [OF d(3) cs(2)] utime_ok [OF d(4)] cs(1) s0(2) False show ?thesis
    by (intro exI [of _ cs] exI [of _ mtime]) (simp add: pushed_node_def utime_node_def)
qed

lemma sync_rename_cases:
  assumes "sync_rename p q s = (r, s')"
  shows "sy_out s' = sy_out s \<and> (if is_ok r
    then \<exists>n. sy_files s p = Some n \<and> sy_files s' = (sy_files s)(p := None, q \<mapsto> n)
    else sy_files s' = sy_files s)"
  using assms
  by (auto simp: sync_rename_def fs_call_def Let_def split: list.splits call.splits prod.splits option.splits if_splits)

lemma put_files: "put b s = (r, s') \<Longrightarrow>
    sy_files s' = sy_files s \<and> (is_ok r \<longrightarrow> sy_out s' = sy_out s @ b)"
  by (auto simp: put_def split: list.splits option.splits)

lemma u32s_files: "u32s vs s = (r, s') \<Longrightarrow>
    sy_files s' = sy_files s \<and> (is_ok r \<longrightarrow> sy_out s' = sy_out s @ concat (map to_le32 vs))"
proof (induction vs arbitrary: s)
  case (Cons v vs)
  obtain q t where q: "put (to_le32 v) s = (q, t)" by fastforce
  with Cons put_files [OF q] show ?case by (cases q) (auto simp: u32s.simps(2))
qed simp

text \<open>
  The outcome of a push on the files, apart from the temporary one and the parent directories: the
  target as it was and nothing said, or the complete new node.
\<close>

definition push_outcome :: "path \<Rightarrow> u32 \<Rightarrow> sync \<Rightarrow> bool \<Rightarrow> sync \<Rightarrow> bool" where
  "push_outcome path mode s ok s' \<longleftrightarrow>
     (sy_files s' path = sy_files s path \<and> \<not> ok \<and> sy_out s' = sy_out s)
       \<or> (\<exists>cs mtime rest. sy_in s = file_frames cs mtime @ rest
            \<and> sy_files s' path = Some (pushed_node mode (concat cs) mtime)
            \<and> (ok \<longrightarrow> sy_out s' = sy_out s @ to_le32 OKAY @ to_le32 0))"

lemma push_body_outcome:
  assumes "push_body temp path mode s = (r, s')" and "path \<noteq> temp"
  shows "push_outcome path mode s (is_ok r) s' \<and> (\<forall>q. q \<noteq> path \<and> q \<noteq> temp \<longrightarrow> sy_files s' q = sy_files s q)"
proof (cases "mode AND S_IFMT = 0 \<or> mode AND S_IFMT = S_IFREG \<or> mode AND S_IFMT = S_IFLNK")
  case False
  with assms show ?thesis by (auto simp: push_body_eq push_outcome_def)
next
  case True
  obtain p s1 where p: "push_prepare temp mode s = (p, s1)" by fastforce
  have q: "\<forall>q. q \<noteq> temp \<longrightarrow> sy_files s1 q = sy_files s q" "sy_out s1 = sy_out s"
    using quiet_prepare [of temp s mode] p by (simp_all add: quiet_def)
  show ?thesis
  proof (cases p)
    case (Inl x)
    with assms True p q show ?thesis by (auto simp: push_body_eq push_outcome_def)
  next
    case (Inr u)
    then have "push_prepare temp mode s = (Inr (), s1)" using p by simp
    from prepare_ok [OF this] obtain cs mtime where cs: "sy_in s = file_frames cs mtime @ sy_in s1"
        "sy_files s1 temp = Some (pushed_node mode (concat cs) mtime)" by blast
    obtain rn s2 where rn: "sync_rename temp path s1 = (rn, s2)" by fastforce
    note ren = sync_rename_cases [OF rn]
    show ?thesis
    proof (cases rn)
      case (Inl x)
      with assms True p Inr rn ren q show ?thesis by (auto simp: push_body_eq push_outcome_def)
    next
      case ok: (Inr v)
      with assms(1) True p Inr rn have w: "u32s [OKAY, 0] s2 = (r, s')" by (simp add: push_body_eq)
      have files: "sy_files s2 = (sy_files s1)(temp := None, path \<mapsto> pushed_node mode (concat cs) mtime)"
          "sy_out s2 = sy_out s"
        using ren ok cs(2) q(2) by auto
      from u32s_files [OF w] files cs(1) q(1) assms(2) show ?thesis
        by (auto simp: push_outcome_def)
    qed
  qed
qed

lemma prefix_length: "q \<in> set (prefixes_of p) \<Longrightarrow> length (pt_comps q) \<le> length (pt_comps p)"
  by (auto simp: prefixes_of_def)

lemma create_dirs_frame:
  assumes "sync_create_dirs p s = (r, s')"
  shows "sy_out s' = sy_out s \<and> sy_in s' = sy_in s
    \<and> (\<forall>q. sy_files s' q = sy_files s q
          \<or> q \<in> set (prefixes_of p) \<and> sy_files s q = None \<and> sy_files s' q = Some Directory)"
  using assms
  by (auto simp: sync_create_dirs_def fs_call_def make_dirs_def Let_def split: list.splits call.splits
      prod.splits sum.splits if_splits dest: in_set_takeD)

lemma sync_remove_frame:
  "sy_out (snd (sync_remove p s)) = sy_out s"
  "q \<noteq> p \<Longrightarrow> sy_files (snd (sync_remove p s)) q = sy_files s q"
  using quiet_calls(7) [of p s] by (simp_all add: quiet_def)

lemma push_outcome_cong:
  "sy_in s = sy_in s2 \<Longrightarrow> sy_out s = sy_out s2 \<Longrightarrow> sy_files s path = sy_files s2 path \<Longrightarrow>
   sy_files t path = sy_files t2 path \<Longrightarrow> sy_out t = sy_out t2 \<Longrightarrow>
     push_outcome path mode s ok t = push_outcome path mode s2 ok t2"
  by (simp add: push_outcome_def)

text \<open>
  C20: a push never leaves half a file. Whatever the client sends, whichever call of the file system
  or write to the client fails, the target is either as it was, and the client was not told
  anything but perhaps a failure, or it is the complete file or link: exactly the data of the
  frames the client sent up to \<open>DONE\<close>, with the permissions and the time it asked for. Success is
  only reported with the complete file in place. No other path changes, except that missing parent
  directories are created and the temporary file.
\<close>

theorem push_all_or_nothing:
  assumes "send_file e path mode s = (r, s')" and "se_random e = Some x" and "path \<noteq> temp_of path x"
  shows "push_outcome path mode s (is_ok r) s'
    \<and> (\<forall>q. q \<noteq> path \<and> q \<noteq> temp_of path x \<longrightarrow>
         sy_files s' q = sy_files s q \<or> sy_files s q = None \<and> sy_files s' q = Some Directory)"
proof (cases "file_name path = None")
  case True
  with assms(1) show ?thesis by (auto simp: send_file_def push_outcome_def)
next
  case False
  let ?temp = "temp_of path x"
  obtain q1 s1 where d: "sync_create_dirs (path_parent path) s = (q1, s1)" by fastforce
  note dirs = create_dirs_frame [OF d]
  have "pt_comps path \<noteq> []" using False by (auto simp: file_name_def)
  then have "length (pt_comps (path_parent path)) < length (pt_comps path)" by (simp add: path_parent_def)
  then have "path \<notin> set (prefixes_of (path_parent path))" using prefix_length [of path] by fastforce
  with dirs have path: "sy_files s1 path = sy_files s path" by blast
  show ?thesis
  proof (cases q1)
    case (Inl y)
    with assms(1) False d have "r = Inl y" "s' = s1" by (simp_all add: send_file_def)
    with dirs path show ?thesis by (auto simp: push_outcome_def)
  next
    case (Inr u)
    obtain result s2 where b: "push_body ?temp path mode s1 = (result, s2)" by fastforce
    with assms(1,2) False d Inr
    have r: "r = result" "s' = (if is_ok result then s2 else snd (sync_remove ?temp s2))"
      by (auto simp: send_file_def Let_def)
    have same: "sy_out s' = sy_out s2" "\<forall>q. q \<noteq> ?temp \<longrightarrow> sy_files s' q = sy_files s2 q"
      unfolding r(2) by (auto simp: sync_remove_frame)
    from push_body_outcome [OF b assms(3)]
    have o: "push_outcome path mode s1 (is_ok result) s2"
      and f: "\<forall>q. q \<noteq> path \<and> q \<noteq> ?temp \<longrightarrow> sy_files s2 q = sy_files s1 q" by blast+
    have "push_outcome path mode s (is_ok r) s'"
      using o r(1) push_outcome_cong [of s s1 path s' s2] dirs path same assms(3) by simp
    moreover have "sy_files s' q = sy_files s q \<or> sy_files s q = None \<and> sy_files s' q = Some Directory"
      if "q \<noteq> path" "q \<noteq> ?temp" for q
      using that f same(2) dirs by metis
    ultimately show ?thesis by blast
  qed
qed

section \<open>Pushing and pulling\<close>

lemma fs_call_healthy:
  "sy_calls s = replicate (Suc n) COk \<Longrightarrow> fst (g (sy_files s)) = Inr y \<Longrightarrow>
     fs_call part g s = (Inr y, s\<lparr>sy_files := snd (g (sy_files s)), sy_calls := replicate n COk\<rparr>)"
  by (simp add: fs_call_def case_prod_unfold Let_def)

lemma put_healthy:
  "sy_writes s = replicate (Suc n) None \<Longrightarrow>
     put b s = (Inr (), s\<lparr>sy_out := sy_out s @ b, sy_writes := replicate n None\<rparr>)"
  by (simp add: put_def)

lemma u32s_healthy:
  "sy_writes s = replicate (length vs + n) None \<Longrightarrow>
     u32s vs s = (Inr (), s\<lparr>sy_out := sy_out s @ concat (map to_le32 vs), sy_writes := replicate n None\<rparr>)"
  by (induction vs arbitrary: s) (simp_all add: u32s.simps(2) put_healthy)

lemma data_loop_healthy:
  "sy_in s = file_frames cs mtime @ rest \<Longrightarrow> sy_calls s = replicate (length cs + n) COk \<Longrightarrow>
   sy_files s temp = Some (Regular c m u) \<Longrightarrow> list_all (\<lambda>c. length c \<le> SYNC_MAX) cs \<Longrightarrow>
     data_loop temp False t s = (Inr (t, mtime), s\<lparr>sy_in := rest,
       sy_files := (sy_files s)(temp \<mapsto> Regular (c @ concat cs) m u), sy_calls := replicate n COk\<rparr>)"
proof (induction cs arbitrary: s c)
  case Nil
  then show ?case
    by (subst data_loop.simps) (simp add: file_frames_def number_frame fun_upd_idem)
next
  case (Cons b cs)
  have b: "length b \<le> SYNC_MAX" "unat (of_nat (length b) :: u32) = length b"
    using Cons.prems(4) by (simp_all add: SYNC_MAX_def)
  let ?rest = "file_frames cs mtime @ rest"
  let ?s = "s\<lparr>sy_in := ?rest\<rparr>"
  have n: "number s = (Inr DATA, s\<lparr>sy_in := to_le32 (of_nat (length b)) @ b @ ?rest\<rparr>)"
    using Cons.prems(1) by (intro number_frame) (simp add: file_frames_def data_frame_def)
  have ap: "sync_append temp b ?s = (Inr (), ?s\<lparr>sy_files := (sy_files s)(temp \<mapsto> Regular (c @ b) m u),
      sy_calls := replicate (length cs + n) COk\<rparr>)"
    using Cons.prems(2,3) unfolding sync_append_def
    by (subst fs_call_healthy [of _ "length cs + n"]) (simp_all add: append_node_content)
  show ?case
    using b Cons.prems(4)
    by (subst data_loop.simps)
      (simp add: n number_frame take_in_frame ap Cons.IH [of _ "c @ b"] SYNC_MAX_def fun_upd_def cong: if_cong)
qed

lemma recv_loop_healthy:
  "sy_writes s = replicate (3 * length content + n) None \<Longrightarrow> list_all is_ok reads \<Longrightarrow>
     \<exists>ds j. recv_loop reads content s = (Inr (), s\<lparr>sy_out := sy_out s @ concat (map data_frame ds),
         sy_writes := replicate (n + j) None\<rparr>)
       \<and> concat ds = content \<and> list_all (\<lambda>d. d \<noteq> [] \<and> length d \<le> SYNC_MAX) ds"
proof (induction "length content" arbitrary: reads content s n rule: less_induct)
  case less
  define k where "k = (case reads of Inr k # _ \<Rightarrow> max 1 (min k SYNC_MAX) | _ \<Rightarrow> SYNC_MAX)"
  have k: "0 < k" "k \<le> SYNC_MAX" by (auto simp: k_def SYNC_MAX_def split: list.splits sum.splits)
  have reads: "reads = [] \<or> (\<exists>a r. reads = Inr a # r)"
    using less.prems(2) by (cases reads) (auto simp: is_ok_iff)
  then have eq: "recv_loop reads content s =
      (if content = [] then (Inr (), s)
       else sbind (u32s [DATA, of_nat (length (take k content))] s) (\<lambda>_ s.
            sbind (put (take k content) s) (\<lambda>_ s. recv_loop (tl reads) (drop k content) s)))"
    by (subst recv_loop.simps) (auto simp: k_def Let_def)
  show ?case
  proof (cases "content = []")
    case True
    then have "recv_loop reads content s = (Inr (), s)" using eq by simp
    moreover have "replicate n None = sy_writes s" using True less.prems(1) by simp
    ultimately show ?thesis using True by (intro exI [of _ "[]"] exI [of _ 0]) simp
  next
    case False
    let ?d = "take k content" and ?rest = "drop k content"
    let ?s = "s\<lparr>sy_out := sy_out s @ data_frame ?d,
      sy_writes := replicate (3 * length ?rest + (n + 3 * (length ?d - 1))) None\<rparr>"
    have "a + b = c \<Longrightarrow> 0 < a \<Longrightarrow> 3 * c + n = Suc (Suc (Suc (3 * b + (n + 3 * (a - 1)))))" for a b c :: nat
      by linarith
    from this [of "length ?d" "length ?rest" "length content"]
    have count: "3 * length content + n = Suc (Suc (Suc (3 * length ?rest + (n + 3 * (length ?d - 1)))))"
      using False k(1) by fastforce
    have step: "recv_loop reads content s = recv_loop (tl reads) ?rest ?s"
      using False less.prems(1) unfolding count
      by (simp add: eq u32s.simps(2) put_def data_frame_def)
    have "length ?rest < length content" using False k(1) by simp
    moreover have "list_all is_ok (tl reads)" using less.prems(2) by (cases reads) auto
    ultimately obtain ds j where ds: "recv_loop (tl reads) ?rest ?s = (Inr (),
        ?s\<lparr>sy_out := sy_out ?s @ concat (map data_frame ds),
           sy_writes := replicate (n + 3 * (length ?d - 1) + j) None\<rparr>)"
        "concat ds = ?rest" "list_all (\<lambda>d. d \<noteq> [] \<and> length d \<le> SYNC_MAX) ds"
      using less.hyps [of ?rest ?s "n + 3 * (length ?d - 1)" "tl reads"] by auto
    then show ?thesis
      using step False k by (intro exI [of _ "?d # ds"] exI [of _ "3 * (length ?d - 1) + j"]) (simp add: add.assoc)
  qed
qed

text \<open>The file system has room for the push: no parent is a file, the temporary
  name is free, the target is no directory.\<close>

definition push_room :: "path \<Rightarrow> path \<Rightarrow> (path \<Rightarrow> node option) \<Rightarrow> bool" where
  "push_room path temp f \<longleftrightarrow>
     list_all (\<lambda>q. passable (f q)) (prefixes_of (path_parent path))
       \<and> f temp = None \<and> f path \<noteq> Some Directory \<and> path \<noteq> temp"

lemma send_file_healthy:
  assumes "file_name path \<noteq> None" and "se_random e = Some x"
    and "mode AND S_IFMT = 0 \<or> mode AND S_IFMT = S_IFREG"
    and "push_room path (temp_of path x) (sy_files s)"
    and "sy_in s = file_frames cs mtime @ rest" and "list_all (\<lambda>c. length c \<le> SYNC_MAX) cs"
    and "sy_calls s = replicate (length cs + 6 + n) COk" and "sy_writes s = replicate (2 + m) None"
  shows "\<exists>s1. send_file e path mode s = (Inr (), s1) \<and> sy_in s1 = rest
    \<and> sy_files s1 path = Some (Regular (concat cs) (mode AND 0x1FF) (Some mtime))
    \<and> sy_out s1 = sy_out s @ to_le32 OKAY @ to_le32 0
    \<and> sy_calls s1 = replicate n COk \<and> sy_writes s1 = replicate m None"
proof -
  let ?temp = "temp_of path x"
  define s1 where "s1 = s\<lparr>sy_files := make_dirs (prefixes_of (path_parent path)) (sy_files s),
    sy_calls := replicate (length cs + 5 + n) COk\<rparr>"
  have 1: "sync_create_dirs (path_parent path) s = (Inr (), s1)"
    using assms(4,7) unfolding sync_create_dirs_def s1_def push_room_def
    by (subst fs_call_healthy [of _ "length cs + 5 + n"]) simp_all
  have comps: "pt_comps path \<noteq> []" using assms(1) by (auto simp: file_name_def)
  then have short: "q \<in> set (prefixes_of (path_parent path)) \<Longrightarrow> length (pt_comps q) < length (pt_comps path)" for q
    using prefix_length [of q "path_parent path"] by (cases "pt_comps path" rule: rev_cases) (auto simp: path_parent_def)
  have "length (pt_comps ?temp) = length (pt_comps path)"
    using comps by (simp add: temp_of_def path_join_def path_parent_def)
  with short have not: "?temp \<notin> set (prefixes_of (path_parent path))" "path \<notin> set (prefixes_of (path_parent path))"
    by fastforce+
  have free: "sy_files s1 ?temp = None" "sy_files s1 path \<noteq> Some Directory" "path \<noteq> ?temp"
    using assms(4) not by (auto simp: s1_def make_dirs_def push_room_def)
  define s2 where "s2 = s1\<lparr>sy_files := (sy_files s1)(?temp \<mapsto> Regular [] 384 None),
    sy_calls := replicate (length cs + (4 + n)) COk\<rparr>"
  have 2: "sync_create ?temp (Regular [] 384 None) s1 = (Inr (), s2)"
    using free(1) unfolding sync_create_def s2_def
    by (subst fs_call_healthy [of _ "length cs + (4 + n)"]) (simp_all add: s1_def)
  define s3 where "s3 = s2\<lparr>sy_in := rest, sy_files := (sy_files s1)(?temp \<mapsto> Regular (concat cs) 384 None),
    sy_calls := replicate (4 + n) COk\<rparr>"
  have "sy_in s2 = file_frames cs mtime @ rest" using assms(5) by (simp add: s2_def s1_def)
  then have 3: "data_loop ?temp False [] s2 = (Inr ([], mtime), s3)"
    using data_loop_healthy [of s2 cs mtime rest "4 + n" ?temp "[]" 384 None "[]"] assms(6)
    by (simp add: s3_def s2_def)
  define s4 where "s4 = s3\<lparr>sy_files := (sy_files s1)(?temp \<mapsto> Regular (concat cs) (mode AND 0x1FF) None),
    sy_calls := replicate (2 + n) COk\<rparr>"
  have 4: "finish_node ?temp False mode [] s3 = (Inr (), s4)"
    by (simp add: finish_node_def sync_chmod_def sync_fsync_def fs_call_def s3_def s4_def chmod_node_def numeral_eq_Suc)
  define s5 where "s5 = s4\<lparr>sy_files := (sy_files s1)(?temp \<mapsto> Regular (concat cs) (mode AND 0x1FF) (Some mtime)),
    sy_calls := replicate (1 + n) COk\<rparr>"
  have 5: "sync_utime ?temp mtime s4 = (Inr (), s5)"
    by (simp add: sync_utime_def fs_call_def s4_def s5_def utime_node_def numeral_eq_Suc)
  define s6 where "s6 = s5\<lparr>sy_files := (sy_files s5)(?temp := None,
      path \<mapsto> Regular (concat cs) (mode AND 0x1FF) (Some mtime)), sy_calls := replicate n COk\<rparr>"
  have 6: "sync_rename ?temp path s5 = (Inr (), s6)"
    using free(2,3) by (simp add: sync_rename_def fs_call_def s5_def s6_def)
  have w: "sy_writes s6 = replicate (length [OKAY, 0] + m) None" "sy_out s6 = sy_out s"
    using assms(8) by (simp_all add: s6_def s5_def s4_def s3_def s2_def s1_def)
  have 7: "u32s [OKAY, 0] s6 = (Inr (), s6\<lparr>sy_out := sy_out s @ to_le32 OKAY @ to_le32 0, sy_writes := replicate m None\<rparr>)"
    using u32s_healthy [OF w(1)] w(2) by simp
  have kind: "mode AND S_IFMT \<noteq> S_IFLNK" using assms(3) by (auto simp: S_IFREG_def S_IFLNK_def)
  have "push_body ?temp path mode s1 = u32s [OKAY, 0] s6"
    using assms(3) kind 2 3 4 5 6 by (auto simp: push_body_def Let_def)
  then have "send_file e path mode s
      = (Inr (), s6\<lparr>sy_out := sy_out s @ to_le32 OKAY @ to_le32 0, sy_writes := replicate m None\<rparr>)"
    using assms(1,2) 1 7 by (simp add: send_file_def)
  then show ?thesis by (simp add: s6_def s5_def s4_def s3_def s2_def)
qed

lemma recv_file_healthy:
  assumes "sy_files s path = Some (Regular content mode t)" and "sy_calls s = replicate (Suc n) COk"
    and "sy_writes s = replicate (3 * length content + (2 + m)) None" and "list_all is_ok (se_reads e)"
  shows "\<exists>s' ds. recv_file e path s = (Inr (), s') \<and> sy_out s' = sy_out s @ file_frames ds 0
    \<and> concat ds = content \<and> list_all (\<lambda>d. d \<noteq> [] \<and> length d \<le> SYNC_MAX) ds
    \<and> sy_in s' = sy_in s \<and> sy_files s' = sy_files s"
proof -
  define u where "u = s\<lparr>sy_calls := replicate n COk\<rparr>"
  have "sync_open e path s = (Inr content, u)"
    using assms(1,2) unfolding sync_open_def u_def by (subst fs_call_healthy [of _ n]) simp_all
  moreover have "sy_writes u = replicate (3 * length content + (2 + m)) None" using assms(3) by (simp add: u_def)
  from recv_loop_healthy [OF this assms(4)] obtain ds j where ds: "recv_loop (se_reads e) content u = (Inr (),
      u\<lparr>sy_out := sy_out u @ concat (map data_frame ds), sy_writes := replicate (2 + m + j) None\<rparr>)"
      "concat ds = content" "list_all (\<lambda>d. d \<noteq> [] \<and> length d \<le> SYNC_MAX) ds" by blast
  ultimately have "recv_file e path s = u32s [DONE, 0]
      (u\<lparr>sy_out := sy_out u @ concat (map data_frame ds), sy_writes := replicate (2 + m + j) None\<rparr>)"
    by (simp add: recv_file_def)
  then have "\<exists>s'. recv_file e path s = (Inr (), s') \<and> sy_out s' = sy_out s @ file_frames ds 0
      \<and> sy_in s' = sy_in s \<and> sy_files s' = sy_files s"
    by (subst (asm) u32s_healthy [of _ _ "m + j"]) (simp_all add: u_def file_frames_def)
  with ds show ?thesis by auto
qed

text \<open>
  C22: what is pushed is pulled again. On a file system that works and has room, pushing any frames
  of at most 64 KiB succeeds, whatever was there before, and reads exactly those frames from the
  client; pulling the path afterwards, however the kernel cuts the reads, sends the same bytes in
  frames of 1 to 65536 bytes and then \<open>DONE\<close>.
\<close>

theorem push_then_pull:
  assumes "file_name path \<noteq> None" and "se_random e = Some x"
    and "mode AND S_IFMT = 0 \<or> mode AND S_IFMT = S_IFREG"
    and "push_room path (temp_of path x) (sy_files s)"
    and "sy_in s = file_frames cs mtime @ rest" and "list_all (\<lambda>c. length c \<le> SYNC_MAX) cs"
    and "sy_calls s = replicate (length cs + 7 + n) COk"
    and "sy_writes s = replicate (4 + 3 * length (concat cs) + m) None" and "list_all is_ok (se_reads e')"
  shows "\<exists>s1 s2 ds. send_file e path mode s = (Inr (), s1) \<and> sy_in s1 = rest
    \<and> sy_files s1 path = Some (Regular (concat cs) (mode AND 0x1FF) (Some mtime))
    \<and> recv_file e' path s1 = (Inr (), s2)
    \<and> sy_out s2 = sy_out s @ to_le32 OKAY @ to_le32 0 @ file_frames ds 0
    \<and> concat ds = concat cs \<and> list_all (\<lambda>d. d \<noteq> [] \<and> length d \<le> SYNC_MAX) ds"
proof -
  have count: "length cs + 7 + n = length cs + 6 + (1 + n)"
      "4 + 3 * length (concat cs) + m = 2 + (3 * length (concat cs) + (2 + m))" by simp_all
  have "sy_calls s = replicate (length cs + 6 + (1 + n)) COk"
      "sy_writes s = replicate (2 + (3 * length (concat cs) + (2 + m))) None"
    using assms(7,8) unfolding count by blast+
  from send_file_healthy [OF assms(1-6) this] obtain s1 where s1: "send_file e path mode s = (Inr (), s1)"
      "sy_in s1 = rest" "sy_files s1 path = Some (Regular (concat cs) (mode AND 0x1FF) (Some mtime))"
      "sy_out s1 = sy_out s @ to_le32 OKAY @ to_le32 0" "sy_calls s1 = replicate (Suc n) COk"
      "sy_writes s1 = replicate (3 * length (concat cs) + (2 + m)) None"
    by auto
  from recv_file_healthy [OF s1(3,5) s1(6) assms(9)] obtain s2 ds where
      "recv_file e' path s1 = (Inr (), s2)" "sy_out s2 = sy_out s1 @ file_frames ds 0"
      "concat ds = concat cs" "list_all (\<lambda>d. d \<noteq> [] \<and> length d \<le> SYNC_MAX) ds" by auto
  with s1 show ?thesis by auto
qed

text \<open>A push of two frames to \<open>/a\<close> (byte 97), everything working.\<close>

definition demo_sync :: sync where
  "demo_sync =
     \<lparr>sy_in = file_frames [[1, 2], [3]] 5, sy_out = [], sy_writes = replicate 13 None,
      sy_files = Map.empty, sy_calls = replicate 9 COk\<rparr>"

definition demo_sync_env :: sync_env where
  "demo_sync_env =
     \<lparr>se_metadata = (\<lambda>_ _. Inl (os_error NotFound 2)), se_resolve = (\<lambda>p. p),
      se_read_dir = (\<lambda>_. Inl (os_error NotFound 2)), se_reads = [Inr 2], se_random = Some [7]\<rparr>"

lemma demo_paths:
  "path_of [47, 97] = \<lparr>pt_root = True, pt_comps = [[97]]\<rparr>"
  "path_of [47, 97] \<noteq> temp_of (path_of [47, 97]) [7]"
  by (simp_all add: path_of_def temp_of_def path_join_def path_parent_def str_bytes_def)

theorem push_all_or_nothing_witness:
  "push_outcome (path_of [47, 97]) 420 (demo_sync\<lparr>sy_calls := [COk, COk, CErr (os_error OtherIo 28) 1]\<rparr>)
     (is_ok (fst (send_file demo_sync_env (path_of [47, 97]) 420
        (demo_sync\<lparr>sy_calls := [COk, COk, CErr (os_error OtherIo 28) 1]\<rparr>))))
     (snd (send_file demo_sync_env (path_of [47, 97]) 420
        (demo_sync\<lparr>sy_calls := [COk, COk, CErr (os_error OtherIo 28) 1]\<rparr>)))"
proof -
  let ?s = "demo_sync\<lparr>sy_calls := [COk, COk, CErr (os_error OtherIo 28) 1]\<rparr>"
  obtain r s' where r: "send_file demo_sync_env (path_of [47, 97]) 420 ?s = (r, s')" by fastforce
  have "se_random demo_sync_env = Some [7]" by (simp add: demo_sync_env_def)
  from push_all_or_nothing [OF r this demo_paths(2)] show ?thesis unfolding r by simp
qed

theorem push_then_pull_witness:
  "\<exists>s1 s2 ds. send_file demo_sync_env (path_of [47, 97]) 420 demo_sync = (Inr (), s1)
    \<and> sy_files s1 (path_of [47, 97]) = Some (Regular [1, 2, 3] 420 (Some 5))
    \<and> recv_file demo_sync_env (path_of [47, 97]) s1 = (Inr (), s2) \<and> concat ds = [1, 2, 3]
    \<and> sy_out s2 = to_le32 OKAY @ to_le32 0 @ file_frames ds 0"
proof -
  have room: "push_room (path_of [47, 97]) (temp_of (path_of [47, 97]) [7]) (sy_files demo_sync)"
    using demo_paths(2) by (simp add: push_room_def demo_sync_def demo_paths(1) path_parent_def prefixes_of_def)
  have "\<exists>s1 s2 ds. send_file demo_sync_env (path_of [47, 97]) 420 demo_sync = (Inr (), s1) \<and> sy_in s1 = []
    \<and> sy_files s1 (path_of [47, 97]) = Some (Regular (concat [[1, 2], [3]]) (420 AND 0x1FF) (Some 5))
    \<and> recv_file demo_sync_env (path_of [47, 97]) s1 = (Inr (), s2)
    \<and> sy_out s2 = sy_out demo_sync @ to_le32 OKAY @ to_le32 0 @ file_frames ds 0
    \<and> concat ds = concat [[1, 2], [3]] \<and> list_all (\<lambda>d. d \<noteq> [] \<and> length d \<le> SYNC_MAX) ds"
    by (rule push_then_pull [where x = "[7]" and n = 0 and m = 0, OF _ _ _ room])
      (simp_all add: demo_paths(1) file_name_def demo_sync_env_def demo_sync_def S_IFMT_def S_IFREG_def SYNC_MAX_def)
  then show ?thesis by (simp add: demo_sync_def) blast
qed

end
