(* ===== verification/Worker.thy ===== *)
theory Worker
  imports Ipc Mdns Privileges Ordered_Map
begin

text \<open>
  \<open>run\<close> of \<open>src/src/unix/worker.rs\<close>: the loop of the network worker. It takes messages of the
  supervisor, accepts connections, watches over the session threads and the pairing window, and
  answers mDNS. The threads it starts are \<open>transport_run\<close> of \<open>Transport\<close> and \<open>pair_with_commit\<close> of
  \<open>Pairing\<close>; how far they are, and what they have registered in the shared tables of \<open>Broker\<close> when
  the loop takes the lock, are inputs of a turn. \<open>wk_effects\<close> lists what the loop did.
\<close>

section \<open>State\<close>

record running =
  ru_cancel :: bool
  ru_started :: instant

record pair_window =
  pw_epoch :: u64
  pw_code :: string
  pw_listeners :: "nat list"
  pw_active :: "running option"

datatype worker_effect =
    Delivered u64 bool string
  | SessionStarted u64 "string list"
  | SessionStopped u64
  | PairingStarted u64 string
  | PairingStopped u64

record worker =
  wk_hosts :: "host list"
  wk_listeners :: "nat list"
  wk_conns :: "(u64, running) btree"
  wk_next :: u64
  wk_pair :: "pair_window option"
  wk_mdns :: mdns
  wk_effects :: "worker_effect list"

text \<open>What the supervisor's channel has: a failed poll or a hang-up, nothing, or a message.\<close>

datatype channel = Broken | Silent | Incoming "err + message \<times> nat list"

text \<open>
  A turn. \<open>wt_pending\<close> and \<open>wt_peers\<close> are the shared tables when the message is handled,
  \<open>wt_registered\<close> the second table when the deadlines are checked; \<open>wt_finished\<close> and
  \<open>wt_pair_finished\<close> tell which threads have ended. A listener has nothing, or a connection with
  the outcome of duplicating its socket. The clock is read where the code reads it.
\<close>

record worker_turn =
  wt_channel :: channel
  wt_pending :: "u64 list"
  wt_peers :: "(u64, string) btree"
  wt_registered :: "(u64, string) btree"
  wt_finished :: "u64 \<Rightarrow> bool"
  wt_pair_finished :: bool
  wt_accept :: "nat \<Rightarrow> (err + unit) option"
  wt_pair_accept :: "nat \<Rightarrow> (err + unit) option"
  wt_mdns_time :: instant
  wt_check_time :: instant
  wt_accept_time :: instant
  wt_pair_time :: instant
  wt_pair_accept_time :: instant
  wt_tick_time :: instant
  wt_datagrams :: "u8 list list list"

definition work :: "worker_effect list \<Rightarrow> worker \<Rightarrow> worker" where
  "work es w = w\<lparr>wk_effects := wk_effects w @ es\<rparr>"

section \<open>Stopping sessions\<close>

text \<open>\<open>Running::stop\<close> sets the flag and shuts the socket down, for all connections of a kind.\<close>

definition running_stop :: "running \<Rightarrow> running" where
  "running_stop r = r\<lparr>ru_cancel := True\<rparr>"

definition stop_conns :: "(u64 \<Rightarrow> running \<Rightarrow> bool) \<Rightarrow> worker \<Rightarrow> worker" where
  "stop_conns P w =
     work (map (\<lambda>(i, _). SessionStopped i) (filter (\<lambda>(i, r). P i r) (wk_conns w)))
       (w\<lparr>wk_conns := map (\<lambda>(i, r). (i, if P i r then running_stop r else r)) (wk_conns w)\<rparr>)"

text \<open>Dropping a pairing window stops its session.\<close>

definition pair_drop :: "worker \<Rightarrow> worker" where
  "pair_drop w =
     (case wk_pair w of
        None \<Rightarrow> w
      | Some p \<Rightarrow>
          work (if pw_active p \<noteq> None then [PairingStopped (pw_epoch p)] else []) (w\<lparr>wk_pair := None\<rparr>))"

definition publish_pairing :: "instant \<Rightarrow> u16 option \<Rightarrow> worker \<Rightarrow> worker" where
  "publish_pairing now port w = w\<lparr>wk_mdns := mdns_pairing now port (wk_mdns w)\<rparr>"

section \<open>Messages of the supervisor\<close>

text \<open>Whether the registered host of a connection is no longer among the hosts.\<close>

definition no_longer_paired :: "host list \<Rightarrow> (u64, string) btree \<Rightarrow> u64 \<Rightarrow> bool" where
  "no_longer_paired hosts peers i =
     (case bt_get peers i of None \<Rightarrow> False | Some fp \<Rightarrow> \<not> list_ex (\<lambda>h. h_fingerprint h = fp) hosts)"

definition first_port :: "endpoint list \<Rightarrow> u16 option" where
  "first_port eps = (case eps of [] \<Rightarrow> None | e # _ \<Rightarrow> Some (ep_port e))"

text \<open>The result is whether the loop ends.\<close>

definition worker_message :: "worker_turn \<Rightarrow> message \<Rightarrow> nat list \<Rightarrow> worker \<Rightarrow> (bool, worker) outcome" where
  "worker_message t m fds w =
     (case m of
        Reply i ok text \<Rightarrow>
          (Inr False, if i \<in> set (wt_pending t) then work [Delivered i ok text] w else w)
      | Hosts hosts \<Rightarrow>
          (Inr False, stop_conns (\<lambda>i _. no_longer_paired hosts (wt_peers t) i) (w\<lparr>wk_hosts := hosts\<rparr>))
      | PairStart epoch digits endpoints \<Rightarrow>
          if length fds \<noteq> length endpoints then (Inl (Msg ''pairing listener mismatch''), w)
          else (Inr False,
            (pair_drop (publish_pairing (wt_mdns_time t) (first_port endpoints) w))
              \<lparr>wk_pair := Some \<lparr>pw_epoch = epoch, pw_code = digits, pw_listeners = fds, pw_active = None\<rparr>\<rparr>)
      | PairStop \<Rightarrow> (Inr False, publish_pairing (wt_mdns_time t) None (pair_drop w))
      | PairCommitted \<Rightarrow>
          (Inr False, publish_pairing (wt_mdns_time t) None
             (w\<lparr>wk_pair := map_option (\<lambda>p. p\<lparr>pw_listeners := [], pw_code := []\<rparr>) (wk_pair w)\<rparr>))
      | Shutdown \<Rightarrow> (Inr True, w)
      | _ \<Rightarrow> (Inl (Msg ''unexpected supervisor message''), w))"

definition channel_phase :: "worker_turn \<Rightarrow> worker \<Rightarrow> (bool, worker) outcome" where
  "channel_phase t w =
     (case wt_channel t of
        Broken \<Rightarrow> (Inr True, w)
      | Silent \<Rightarrow> (Inr False, w)
      | Incoming (Inl _) \<Rightarrow> (Inr True, w)
      | Incoming (Inr (m, fds)) \<Rightarrow> worker_message t m fds w)"

section \<open>Sessions\<close>

definition reap :: "worker_turn \<Rightarrow> worker \<Rightarrow> worker" where
  "reap t w = w\<lparr>wk_conns := filter (\<lambda>(i, _). \<not> wt_finished t i) (wk_conns w)\<rparr>"

text \<open>A host that has not authenticated within ten seconds is cut off.\<close>

definition overdue :: "worker_turn \<Rightarrow> u64 \<Rightarrow> running \<Rightarrow> bool" where
  "overdue t i r \<longleftrightarrow> secs 10 < wt_check_time t - ru_started r \<and> bt_get (wt_registered t) i = None"

text \<open>The listeners in turn, while there is room. A session gets the hosts of this moment.\<close>

fun accept_sessions :: "worker_turn \<Rightarrow> nat list \<Rightarrow> worker \<Rightarrow> (unit, worker) outcome" where
  "accept_sessions t [] w = (Inr (), w)"
| "accept_sessions t (l # ls) w =
     (if MAX_TRANSPORTS \<le> length (wk_conns w) then (Inr (), w)
      else case wt_accept t l of
        None \<Rightarrow> accept_sessions t ls w
      | Some (Inl x) \<Rightarrow> (Inl x, w)
      | Some (Inr _) \<Rightarrow>
          let i = wk_next w
          in if i = - 1 then (Inl (Msg ''transport IDs exhausted''), w)
             else accept_sessions t ls
               (work [SessionStarted i (map h_fingerprint (wk_hosts w))]
                 (w\<lparr>wk_next := i + 1, wk_conns := bt_insert i
                      \<lparr>ru_cancel = False, ru_started = wt_accept_time t\<rparr> (wk_conns w)\<rparr>)))"

section \<open>Pairing\<close>

text \<open>The first listener with a connection.\<close>

fun accept_pairing :: "worker_turn \<Rightarrow> nat list \<Rightarrow> pair_window \<Rightarrow> worker \<Rightarrow> (unit, worker) outcome" where
  "accept_pairing t [] p w = (Inr (), w)"
| "accept_pairing t (l # ls) p w =
     (case wt_pair_accept t l of
        None \<Rightarrow> accept_pairing t ls p w
      | Some (Inl x) \<Rightarrow> (Inl x, w)
      | Some (Inr _) \<Rightarrow>
          (Inr (), work [PairingStarted (pw_epoch p) (pw_code p)] (w\<lparr>wk_pair :=
             Some (p\<lparr>pw_active := Some \<lparr>ru_cancel = False, ru_started = wt_pair_accept_time t\<rparr>\<rparr>)\<rparr>)))"

definition pairing_phase :: "worker_turn \<Rightarrow> worker \<Rightarrow> (unit, worker) outcome" where
  "pairing_phase t w =
     (case wk_pair w of
        None \<Rightarrow> (Inr (), w)
      | Some p \<Rightarrow>
          let late = (case pw_active p of None \<Rightarrow> False | Some r \<Rightarrow> secs 20 < wt_pair_time t - ru_started r);
              w = (if late then work [PairingStopped (pw_epoch p)] w else w);
              p = (if late then p\<lparr>pw_active := map_option running_stop (pw_active p)\<rparr> else p);
              p = (if pw_active p \<noteq> None \<and> wt_pair_finished t then p\<lparr>pw_active := None\<rparr> else p);
              w = w\<lparr>wk_pair := Some p\<rparr>
          in if pw_active p = None then accept_pairing t (pw_listeners p) p w else (Inr (), w))"

text \<open>
  The thread of a pairing: the key it committed, if it got so far, and how the exchange ended. A
  failed exchange is reported without a key, also when it failed after the commit.
\<close>

definition pair_thread_requests :: "u64 \<Rightarrow> string option \<Rightarrow> err + string \<Rightarrow> request list" where
  "pair_thread_requests epoch committed result =
     (case committed of None \<Rightarrow> [] | Some key \<Rightarrow> [PairResult epoch (Some key)])
       @ (if is_ok result then [] else [PairResult epoch None])"

section \<open>The loop\<close>

definition worker_step :: "worker_turn \<Rightarrow> worker \<Rightarrow> (bool, worker) outcome" where
  "worker_step t w =
     sbind (channel_phase t w) (\<lambda>leave w.
       if leave then (Inr True, w)
       else
         sbind (accept_sessions t (wk_listeners w) (stop_conns (overdue t) (reap t w))) (\<lambda>_ w.
         sbind (pairing_phase t w) (\<lambda>_ w.
           (Inr False, w\<lparr>wk_mdns := mdns_tick (wt_tick_time t) (wt_datagrams t) (wk_mdns w)\<rparr>))))"

text \<open>The end of the loop: the window is dropped, every session stopped, the services withdrawn.\<close>

definition worker_end :: "instant \<Rightarrow> worker \<Rightarrow> worker" where
  "worker_end now w =
     (let w = stop_conns (\<lambda>_ _. True) (pair_drop w) in w\<lparr>wk_mdns := mdns_drop now (wk_mdns w)\<rparr>)"

text \<open>After an error only what is dropped is undone: the window and the announcements.\<close>

definition worker_unwind :: "instant \<Rightarrow> worker \<Rightarrow> worker" where
  "worker_unwind now w = (let w = pair_drop w in w\<lparr>wk_mdns := mdns_drop now (wk_mdns w)\<rparr>)"

fun worker_loop :: "worker_turn list \<Rightarrow> worker \<Rightarrow> (unit, worker) outcome" where
  "worker_loop [] w = (Inr (), w)"
| "worker_loop (t # ts) w =
     (case worker_step t w of
        (Inl x, w) \<Rightarrow> (Inl x, worker_unwind (wt_tick_time t) w)
      | (Inr True, w) \<Rightarrow> (Inr (), worker_end (wt_tick_time t) w)
      | (Inr False, w) \<Rightarrow> worker_loop ts w)"

text \<open>
  \<open>run\<close> up to the loop: the bootstrap message with its descriptors, the restriction of the process,
  and the message that the worker is ready. The descriptors are the listeners, then the multicast
  sockets.
\<close>

definition worker_boot ::
    "bool \<Rightarrow> instant \<Rightarrow> err + message \<times> nat list \<Rightarrow> proc \<Rightarrow> (worker \<times> identity, proc) outcome" where
  "worker_boot android now boot p =
     sbind (child_setup p) (\<lambda>_ p.
       case boot of
         Inl x \<Rightarrow> (Inl x, p)
       | Inr (Boot identity hosts endpoints specs test, fds) \<Rightarrow>
           if length fds \<noteq> length endpoints + length specs then (Inl (Msg ''listener descriptor mismatch''), p)
           else sbind (restrict_network android test p) (\<lambda>_ p.
             (Inr (\<lparr>wk_hosts = hosts, wk_listeners = take (length endpoints) fds, wk_conns = [], wk_next = 1,
                    wk_pair = None, wk_mdns = mdns_new now specs endpoints (id_guid identity),
                    wk_effects = []\<rparr>, identity), p))
       | Inr _ \<Rightarrow> (Inl (Msg ''worker bootstrap required''), p))"

definition worker_run ::
    "bool \<Rightarrow> instant \<Rightarrow> err + message \<times> nat list \<Rightarrow> (message \<Rightarrow> err + unit) \<Rightarrow> worker_turn list \<Rightarrow> proc
       \<Rightarrow> (worker, proc) outcome" where
  "worker_run android now boot send ts p =
     sbind (worker_boot android now boot p) (\<lambda>(w, _) p.
       case send Ready of
         Inl x \<Rightarrow> (Inl x, p)
       | Inr _ \<Rightarrow> (let (r, w) = worker_loop ts w in (rbind r (\<lambda>_. Inr w), p)))"

section \<open>One turn\<close>

definition worker_inv :: "worker \<Rightarrow> bool" where
  "worker_inv w \<longleftrightarrow>
     bt_ok (wk_conns w) \<and> length (wk_conns w) \<le> MAX_TRANSPORTS
       \<and> list_all (\<lambda>(i, _). i < wk_next w) (wk_conns w)"

text \<open>An effect that starts nothing.\<close>

fun starts_nothing :: "worker_effect \<Rightarrow> bool" where
  "starts_nothing (SessionStarted _ _) = False"
| "starts_nothing (PairingStarted _ _) = False"
| "starts_nothing _ = True"

lemma stop_conns_fields:
  "wk_conns (stop_conns P w) = map (\<lambda>(i, r). (i, if P i r then running_stop r else r)) (wk_conns w)"
  "wk_next (stop_conns P w) = wk_next w" "wk_hosts (stop_conns P w) = wk_hosts w"
  "wk_pair (stop_conns P w) = wk_pair w" "wk_listeners (stop_conns P w) = wk_listeners w"
  "\<exists>es. wk_effects (stop_conns P w) = wk_effects w @ es \<and> list_all starts_nothing es"
  by (simp_all add: stop_conns_def work_def list_all_iff case_prod_unfold)

lemma worker_inv_stop [simp]: "worker_inv (stop_conns P w) = worker_inv w"
  by (simp add: worker_inv_def stop_conns_fields bt_ok_def bt_keys_def list.pred_map comp_def case_prod_unfold)

lemma worker_inv_reap: "worker_inv w \<Longrightarrow> worker_inv (reap t w)"
  unfolding worker_inv_def reap_def
  by (auto simp: list_all_iff bt_ok_def bt_keys_def intro: sorted_wrt_filter le_trans [OF length_filter_le]
      dest!: sorted_wrt_map [THEN iffD1] intro!: sorted_wrt_map [THEN iffD2])

text \<open>The hosts a turn's message brings, and what handling the message leaves.\<close>

definition new_hosts :: "worker_turn \<Rightarrow> host list option" where
  "new_hosts t = (case wt_channel t of Incoming (Inr (Hosts hosts, _)) \<Rightarrow> Some hosts | _ \<Rightarrow> None)"

definition message_done :: "worker_turn \<Rightarrow> worker \<Rightarrow> worker \<Rightarrow> bool" where
  "message_done t w w' \<longleftrightarrow>
     (\<exists>P. wk_conns w' = map (\<lambda>(i, r). (i, if P i then running_stop r else r)) (wk_conns w)
        \<and> (case new_hosts t of
             Some hosts \<Rightarrow> wk_hosts w' = hosts \<and> P = no_longer_paired hosts (wt_peers t)
           | None \<Rightarrow> wk_hosts w' = wk_hosts w))
     \<and> wk_next w' = wk_next w \<and> wk_listeners w' = wk_listeners w
     \<and> (\<exists>es. wk_effects w' = wk_effects w @ es \<and> list_all starts_nothing es)"

lemma pair_drop_fields:
  "wk_conns (pair_drop w) = wk_conns w" "wk_hosts (pair_drop w) = wk_hosts w"
  "wk_next (pair_drop w) = wk_next w" "wk_listeners (pair_drop w) = wk_listeners w"
  "\<exists>es. wk_effects (pair_drop w) = wk_effects w @ es \<and> list_all starts_nothing es"
  by (simp_all add: pair_drop_def work_def split: option.splits)

lemma map_entries_id: "map (\<lambda>(i, r). (i, if False then f r else r)) m = m"
  by (induction m) auto

lemma channel_phase_done:
  assumes "channel_phase t w = (Inr False, w')"
  shows "message_done t w w'"
proof (cases "\<exists>hosts fds. wt_channel t = Incoming (Inr (Hosts hosts, fds))")
  case True
  then obtain hosts fds where c: "wt_channel t = Incoming (Inr (Hosts hosts, fds))" by blast
  with assms have w': "w' = stop_conns (\<lambda>i _. no_longer_paired hosts (wt_peers t) i) (w\<lparr>wk_hosts := hosts\<rparr>)"
    by (simp add: channel_phase_def worker_message_def)
  show ?thesis
    unfolding message_done_def w'
    using stop_conns_fields [of "\<lambda>i _. no_longer_paired hosts (wt_peers t) i" "w\<lparr>wk_hosts := hosts\<rparr>"] c
    by (intro conjI exI [of _ "no_longer_paired hosts (wt_peers t)"]) (auto simp: new_hosts_def)
next
  case False
  have same: "wk_conns w' = wk_conns w \<and> wk_hosts w' = wk_hosts w \<and> wk_next w' = wk_next w
      \<and> wk_listeners w' = wk_listeners w \<and> (\<exists>es. wk_effects w' = wk_effects w @ es \<and> list_all starts_nothing es)"
    using assms False pair_drop_fields(5) [of w]
      pair_drop_fields(5) [of "publish_pairing (wt_mdns_time t) p w" for p]
    by (auto simp: channel_phase_def worker_message_def pair_drop_fields publish_pairing_def work_def
        split: channel.splits sum.splits prod.splits message.splits if_splits)
  have "new_hosts t = None"
    using False by (auto simp: new_hosts_def split: channel.splits sum.splits prod.splits message.splits)
  with same show ?thesis
    unfolding message_done_def by (intro conjI exI [of _ "\<lambda>_. False"]) (auto simp: map_entries_id)
qed

lemma message_done_inv: "message_done t w w' \<Longrightarrow> worker_inv w \<Longrightarrow> worker_inv w'"
  by (auto simp: message_done_def worker_inv_def bt_ok_def bt_keys_def list.pred_map comp_def case_prod_unfold)

text \<open>A session that may start: with a new number, for the hosts of the moment.\<close>

definition session_of :: "worker \<Rightarrow> worker_effect \<Rightarrow> bool" where
  "session_of w e =
     (case e of SessionStarted i fps \<Rightarrow> wk_next w \<le> i \<and> fps = map h_fingerprint (wk_hosts w) | _ \<Rightarrow> False)"

text \<open>Two workers whose connections up to a number agree.\<close>

definition old_conns :: "u64 \<Rightarrow> worker \<Rightarrow> (u64, running) btree" where
  "old_conns n w = filter (\<lambda>(i, _). i < n) (wk_conns w)"

lemma bt_insert_last:
  "bt_ok m \<Longrightarrow> list_all (\<lambda>(i, _). i < k) m \<Longrightarrow> bt_insert k v m = m @ [(k, v)]"
  by (induction m) (auto simp: bt_ok_def bt_keys_def)

lemma next_word:
  assumes "(i :: u64) \<noteq> - 1"
  shows "j < i + 1 \<longleftrightarrow> j \<le> i"
proof -
  have "unat i \<noteq> 18446744073709551615"
  proof
    assume "unat i = 18446744073709551615"
    then have "of_nat (unat i) = (- 1 :: u64)" by (simp only:) simp
    then show False using assms by simp
  qed
  then have "unat i + 1 < 18446744073709551616" using unat_u64_less [of i] by linarith
  then have "unat (i + 1) = unat i + 1" by (simp add: unat_word_ariths)
  then show ?thesis by (simp add: word_less_nat_alt word_le_nat_alt less_Suc_eq_le)
qed

lemma accept_sessions_done:
  "accept_sessions t ls w = (Inr (), w') \<Longrightarrow> worker_inv w \<Longrightarrow>
     worker_inv w' \<and> wk_next w \<le> wk_next w' \<and> wk_hosts w' = wk_hosts w \<and> wk_pair w' = wk_pair w
       \<and> old_conns (wk_next w) w' = wk_conns w
       \<and> (\<exists>es. wk_effects w' = wk_effects w @ es \<and> list_all (session_of w) es)"
proof (induction ls arbitrary: w)
  case Nil
  then have "filter (\<lambda>(i, _). i < wk_next w) (wk_conns w) = wk_conns w"
    by (auto simp: worker_inv_def list_all_iff intro: filter_True)
  with Nil show ?case by (simp add: old_conns_def)
next
  case (Cons l ls)
  show ?case
  proof (cases "MAX_TRANSPORTS \<le> length (wk_conns w)")
    case True
    with Cons.prems(1) have "accept_sessions t [] w = (Inr (), w')" by simp
    have "filter (\<lambda>(i, _). i < wk_next w) (wk_conns w) = wk_conns w"
      using Cons.prems(2) by (auto simp: worker_inv_def list_all_iff intro: filter_True)
    with True Cons.prems show ?thesis by (simp add: old_conns_def)
  next
    case room: False
    show ?thesis
    proof (cases "wt_accept t l")
      case None
      with room Cons show ?thesis by simp
    next
      case (Some r)
      let ?i = "wk_next w" and ?r = "\<lparr>ru_cancel = False, ru_started = wt_accept_time t\<rparr>"
      define x where "x = work [SessionStarted ?i (map h_fingerprint (wk_hosts w))]
        (w\<lparr>wk_next := ?i + 1, wk_conns := bt_insert ?i ?r (wk_conns w)\<rparr>)"
      from Some room Cons.prems(1) have i: "?i \<noteq> - 1" and rec: "accept_sessions t ls x = (Inr (), w')"
        by (auto simp: x_def Let_def split: sum.splits if_splits)
      have ok: "bt_ok (wk_conns w)" "list_all (\<lambda>(j, _). j < ?i) (wk_conns w)"
        using Cons.prems(2) by (auto simp: worker_inv_def)
      then have conns: "wk_conns x = wk_conns w @ [(?i, ?r)]" by (simp add: x_def work_def bt_insert_last)
      have "bt_ok (wk_conns x)" using ok(1) by (simp add: x_def work_def)
      moreover have "list_all (\<lambda>(j, _). j < wk_next x) (wk_conns x)"
        using ok(2) next_word [OF i] unfolding conns by (auto simp: x_def work_def list_all_iff)
      ultimately have "worker_inv x" using room by (simp add: worker_inv_def conns)
      from Cons.IH [OF rec this] obtain es where w': "worker_inv w'" "wk_next x \<le> wk_next w'"
          "wk_hosts w' = wk_hosts x" "wk_pair w' = wk_pair x" "old_conns (wk_next x) w' = wk_conns x"
          "wk_effects w' = wk_effects x @ es" "list_all (session_of x) es" by blast
      have step: "wk_next x = ?i + 1" "?i \<le> ?i + 1" using next_word [OF i, of ?i] by (simp_all add: x_def work_def)
      have "old_conns ?i w' = filter (\<lambda>(j, _). j < ?i) (old_conns (?i + 1) w')"
        unfolding old_conns_def filter_filter by (rule filter_cong) (auto simp: next_word [OF i])
      also have "\<dots> = filter (\<lambda>(j, _). j < ?i) (wk_conns w @ [(?i, ?r)])" using w'(5) step conns by simp
      also have "\<dots> = wk_conns w" using ok(2) by (auto simp: list_all_iff intro: filter_True)
      finally have old: "old_conns ?i w' = wk_conns w" .
      have "session_of x e \<Longrightarrow> session_of w e" for e
        using step by (auto simp: session_of_def x_def work_def split: worker_effect.splits)
      then have "list_all (session_of w) (SessionStarted ?i (map h_fingerprint (wk_hosts w)) # es)"
        using w'(7) by (auto simp: list_all_iff session_of_def)
      moreover have "wk_effects w' = wk_effects w @ SessionStarted ?i (map h_fingerprint (wk_hosts w)) # es"
        using w'(6) by (simp add: x_def work_def)
      ultimately show ?thesis using w'(1-4) old step by (auto simp: x_def work_def)
    qed
  qed
qed

text \<open>The pairing phase touches no connection; it starts at most one session, for the open window.\<close>

definition pairing_of :: "worker \<Rightarrow> worker_effect \<Rightarrow> bool" where
  "pairing_of w e =
     (case e of
        PairingStarted epoch digits \<Rightarrow>
          (case wk_pair w of None \<Rightarrow> False
           | Some p \<Rightarrow> pw_epoch p = epoch \<and> pw_code p = digits \<and> pw_listeners p \<noteq> []
               \<and> pw_active p \<noteq> None)
      | SessionStarted _ _ \<Rightarrow> False | _ \<Rightarrow> True)"

lemma accept_pairing_done:
  "accept_pairing t ls p w = (Inr (), w') \<Longrightarrow> wk_pair w = Some p \<Longrightarrow> set ls \<subseteq> set (pw_listeners p) \<Longrightarrow>
     wk_conns w' = wk_conns w \<and> wk_next w' = wk_next w \<and> wk_hosts w' = wk_hosts w
       \<and> (\<exists>es. wk_effects w' = wk_effects w @ es \<and> list_all (pairing_of w') es \<and> length es \<le> 1)"
proof (induction ls)
  case (Cons l ls)
  show ?case
  proof (cases "wt_pair_accept t l")
    case None
    with Cons show ?thesis by simp
  next
    case (Some r)
    with Cons.prems have "w' = work [PairingStarted (pw_epoch p) (pw_code p)] (w\<lparr>wk_pair :=
        Some (p\<lparr>pw_active := Some \<lparr>ru_cancel = False, ru_started = wt_pair_accept_time t\<rparr>\<rparr>)\<rparr>)"
      by (auto split: sum.splits)
    with Cons.prems(3) show ?thesis by (auto simp: work_def pairing_of_def)
  qed
qed simp

lemma pairing_phase_done:
  assumes "pairing_phase t w = (Inr (), w')"
  shows "wk_conns w' = wk_conns w \<and> wk_next w' = wk_next w \<and> wk_hosts w' = wk_hosts w
    \<and> (\<exists>es. wk_effects w' = wk_effects w @ es \<and> list_all (pairing_of w') es)"
proof (cases "wk_pair w")
  case None
  with assms show ?thesis by (simp add: pairing_phase_def)
next
  case (Some p)
  define late where "late = (case pw_active p of None \<Rightarrow> False | Some r \<Rightarrow> secs 20 < wt_pair_time t - ru_started r)"
  define w1 where "w1 = (if late then work [PairingStopped (pw_epoch p)] w else w)"
  define p1 where "p1 = (if late then p\<lparr>pw_active := map_option running_stop (pw_active p)\<rparr> else p)"
  define p2 where "p2 = (if pw_active p1 \<noteq> None \<and> wt_pair_finished t then p1\<lparr>pw_active := None\<rparr> else p1)"
  define w2 where "w2 = w1\<lparr>wk_pair := Some p2\<rparr>"
  have eq: "pairing_phase t w = (if pw_active p2 = None then accept_pairing t (pw_listeners p2) p2 w2 else (Inr (), w2))"
    by (simp only: pairing_phase_def Some Let_def option.case late_def w1_def p1_def p2_def w2_def)
  have w2: "wk_conns w2 = wk_conns w" "wk_next w2 = wk_next w" "wk_hosts w2 = wk_hosts w"
      "wk_effects w2 = wk_effects w @ (if late then [PairingStopped (pw_epoch p)] else [])" "wk_pair w2 = Some p2"
    by (simp_all add: w2_def w1_def work_def)
  show ?thesis
  proof (cases "pw_active p2 = None")
    case True
    with assms eq have "accept_pairing t (pw_listeners p2) p2 w2 = (Inr (), w')" by simp
    from accept_pairing_done [OF this w2(5)] obtain es where
      "wk_conns w' = wk_conns w2" "wk_next w' = wk_next w2" "wk_hosts w' = wk_hosts w2"
      "wk_effects w' = wk_effects w2 @ es" "list_all (pairing_of w') es" by auto
    with w2 show ?thesis by (auto simp: pairing_of_def)
  next
    case False
    with assms eq w2 show ?thesis by (auto simp: pairing_of_def)
  qed
qed

text \<open>What a connection must be after a turn that began with the number \<open>n\<close>, if it is older.\<close>

definition watched :: "worker_turn \<Rightarrow> u64 \<Rightarrow> u64 \<times> running \<Rightarrow> bool" where
  "watched t n = (\<lambda>(i, r). n \<le> i \<or> ru_cancel r
     \<or> (wt_check_time t - ru_started r \<le> secs 10 \<or> bt_get (wt_registered t) i \<noteq> None)
       \<and> (case new_hosts t of Some hosts \<Rightarrow> \<not> no_longer_paired hosts (wt_peers t) i | None \<Rightarrow> True))"

lemma reap_stop_watched:
  assumes "message_done t w w1"
  shows "list_all (watched t n) (wk_conns (stop_conns (overdue t) (reap t w1)))"
proof -
  obtain P where P: "wk_conns w1 = map (\<lambda>(i, r). (i, if P i then running_stop r else r)) (wk_conns w)"
      "case new_hosts t of Some hosts \<Rightarrow> wk_hosts w1 = hosts \<and> P = no_longer_paired hosts (wt_peers t)
       | None \<Rightarrow> wk_hosts w1 = wk_hosts w"
    using assms unfolding message_done_def by blast
  have "watched t n (i, if overdue t i r then running_stop r else r)" if "(i, r) \<in> set (wk_conns w1)" for i r
    using that P by (auto simp: watched_def overdue_def running_stop_def split: option.splits if_splits)
  then show ?thesis
    by (auto simp: stop_conns_fields reap_def list_all_iff)
qed

lemma worker_step_done:
  assumes "worker_inv w" and "worker_step t w = (Inr False, w')"
  shows "worker_inv w' \<and> wk_next w \<le> wk_next w' \<and> list_all (watched t (wk_next w)) (wk_conns w')
    \<and> wk_hosts w' = (case new_hosts t of Some hosts \<Rightarrow> hosts | None \<Rightarrow> wk_hosts w)
    \<and> (\<exists>es. wk_effects w' = wk_effects w @ es \<and> list_all (\<lambda>e. starts_nothing e \<or> pairing_of w' e
          \<or> (\<exists>i. wk_next w \<le> i \<and> e = SessionStarted i (map h_fingerprint (wk_hosts w')))) es)"
proof -
  from assms(2) obtain w1 w3 w4 where c: "channel_phase t w = (Inr False, w1)"
    and a: "accept_sessions t (wk_listeners w1) (stop_conns (overdue t) (reap t w1)) = (Inr (), w3)"
    and p: "pairing_phase t w3 = (Inr (), w4)"
    and w': "w' = w4\<lparr>wk_mdns := mdns_tick (wt_tick_time t) (wt_datagrams t) (wk_mdns w4)\<rparr>"
    by (auto simp: worker_step_def sbind_eq_Inr_iff split: if_splits)
  define w2 where "w2 = stop_conns (overdue t) (reap t w1)"
  note m = channel_phase_done [OF c]
  have inv2: "worker_inv w2"
    using message_done_inv [OF m assms(1)] by (simp add: w2_def worker_inv_reap)
  have w2: "wk_next w2 = wk_next w" "wk_hosts w2 = wk_hosts w1" "list_all (watched t (wk_next w)) (wk_conns w2)"
    using m reap_stop_watched [OF m] by (simp_all add: w2_def stop_conns_fields reap_def message_done_def)
  obtain es1 where e1: "wk_effects w2 = wk_effects w @ es1" "list_all starts_nothing es1"
    using m stop_conns_fields(6) [of "overdue t" "reap t w1"]
    by (auto simp: message_done_def w2_def reap_def)
  from accept_sessions_done [OF a [folded w2_def] inv2] obtain es2 where w3: "worker_inv w3"
      "wk_next w2 \<le> wk_next w3" "wk_hosts w3 = wk_hosts w2" "old_conns (wk_next w2) w3 = wk_conns w2"
      "wk_effects w3 = wk_effects w2 @ es2" "list_all (session_of w2) es2" by blast
  from pairing_phase_done [OF p] obtain es3 where w4: "wk_conns w4 = wk_conns w3" "wk_next w4 = wk_next w3"
      "wk_hosts w4 = wk_hosts w3" "wk_effects w4 = wk_effects w3 @ es3" "list_all (pairing_of w4) es3" by blast
  have inv: "worker_inv w'" using w3(1) w4 by (simp add: w' worker_inv_def)
  have "watched t (wk_next w) (i, r)" if "(i, r) \<in> set (wk_conns w3)" for i r
  proof (cases "i < wk_next w")
    case True
    with that w2(1) have "(i, r) \<in> set (old_conns (wk_next w2) w3)" by (simp add: old_conns_def)
    then have "(i, r) \<in> set (wk_conns w2)" by (simp only: w3(4))
    with w2(3) show ?thesis by (auto simp: list_all_iff)
  next
    case False
    then have "wk_next w \<le> i" by (simp only: not_less)
    then show ?thesis by (simp add: watched_def)
  qed
  then have watched: "list_all (watched t (wk_next w)) (wk_conns w')" using w4(1) by (auto simp: w' list_all_iff)
  have hosts: "wk_hosts w' = (case new_hosts t of Some hosts \<Rightarrow> hosts | None \<Rightarrow> wk_hosts w)"
    using m w2(2) w3(3) w4(3) by (auto simp: w' message_done_def split: option.splits)
  have effects: "wk_effects w' = wk_effects w @ es1 @ es2 @ es3"
    using e1 w3(5) w4(4) by (simp add: w')
  have "pairing_of w' = pairing_of w4" by (simp add: w' pairing_of_def [abs_def])
  moreover have "session_of w2 e \<Longrightarrow>
      \<exists>i. wk_next w \<le> i \<and> e = SessionStarted i (map h_fingerprint (wk_hosts w'))" for e
    using w2(1) w3(3) w4(3) by (auto simp: session_of_def w' split: worker_effect.splits)
  ultimately have "list_all (\<lambda>e. starts_nothing e \<or> pairing_of w' e
      \<or> (\<exists>i. wk_next w \<le> i \<and> e = SessionStarted i (map h_fingerprint (wk_hosts w')))) (es1 @ es2 @ es3)"
    using e1(2) w3(6) w4(5) by (simp add: list_all_iff) blast
  with inv watched hosts effects w2(1) w3(2) w4(2) show ?thesis by (auto simp: w')
qed


text \<open>A worker with one connection of a host that is revoked while another host connects.\<close>

definition demo_worker :: worker where
  "demo_worker =
     \<lparr>wk_hosts = [], wk_listeners = [3], wk_conns = [(1, \<lparr>ru_cancel = False, ru_started = 0\<rparr>)], wk_next = 2,
      wk_pair = None, wk_mdns = mdns_new 0 [] [] ''g'', wk_effects = []\<rparr>"

definition demo_worker_turn :: worker_turn where
  "demo_worker_turn =
     \<lparr>wt_channel = Incoming (Inr (Hosts [], [])), wt_pending = [], wt_peers = [(1, ''f'')],
      wt_registered = [(1, ''f'')], wt_finished = (\<lambda>_. False), wt_pair_finished = False,
      wt_accept = (\<lambda>_. Some (Inr ())), wt_pair_accept = (\<lambda>_. None), wt_mdns_time = 0, wt_check_time = 0,
      wt_accept_time = 0, wt_pair_time = 0, wt_pair_accept_time = 0, wt_tick_time = 0, wt_datagrams = []\<rparr>"


end
