(* ===== verification/Command_Line.thy ===== *)
theory Command_Line
  imports Daemon
begin

text \<open>
  \<open>src/src/main.rs\<close> and \<open>control\<close> of \<open>src/src/unix/daemon.rs\<close>: what a command line asks for, the
  client side of the control socket, and the exit status. Base64 and JSON are parameters.
\<close>

datatype action =
    ShowHelp
  | ShowVersion
  | RunDaemon string bool
  | RunWorker
  | RunService
  | ProbeKsu
  | ProbeShellSu bool
  | DoctorSu
  | Doctor
  | Ctl control
  | TestCtl string control

definition DATA_DIR :: string where "DATA_DIR = ''/data/adb/altdb''"

text \<open>The request of \<open>ctl\<close>: encoded, or one of the operations without arguments.\<close>

definition ctl_request ::
    "(string \<Rightarrow> u8 list option) \<Rightarrow> (u8 list \<Rightarrow> control option) \<Rightarrow> string list \<Rightarrow> err + control" where
  "ctl_request base64 json args =
     (if 1 < length args \<and> args ! 1 = ''--request'' then
        rbind (ensure (length args = 3 \<and> length (args ! 2) \<le> 22000) (Msg ''invalid control payload'')) (\<lambda>_.
          case base64 (args ! 2) of
            None \<Rightarrow> Inl Base64Err
          | Some body \<Rightarrow> (case json body of None \<Rightarrow> Inl (Msg ''invalid JSON'') | Some c \<Rightarrow> Inr c))
      else
        rbind (ensure (length args = 2) (Msg ''one control operation required'')) (\<lambda>_.
          if args ! 1 = ''status'' then Inr CStatus
          else if args ! 1 = ''logs'' then Inr CLogs
          else if args ! 1 = ''pair-start'' then Inr CPairStart
          else if args ! 1 = ''pair-stop'' then Inr CPairStop
          else if args ! 1 = ''stop'' then Inr CStop
          else Inl (Msg ''unsupported control operation'')))"

text \<open>The arguments after the program's name; the last two operations do not exist on Android.\<close>

definition command_line ::
    "bool \<Rightarrow> (string \<Rightarrow> u8 list option) \<Rightarrow> (u8 list \<Rightarrow> control option) \<Rightarrow> string list \<Rightarrow> err + action" where
  "command_line android base64 json args =
     (case args of
        [] \<Rightarrow> Inr ShowHelp
      | op # rest \<Rightarrow>
          if op = ''--help'' then Inr ShowHelp
          else if op = ''--version'' then Inr ShowVersion
          else if op = ''daemon'' then
            rbind (ensure (rest = []) (Msg ''unexpected daemon options'')) (\<lambda>_. Inr (RunDaemon DATA_DIR False))
          else if op = ''worker'' then Inr RunWorker
          else if op = ''service'' then Inr RunService
          else if op = ''probe-ksu'' then Inr ProbeKsu
          else if op = ''probe-shell-su'' then
            rbind (ensure (length rest = 1) (Msg ''probe mode required'')) (\<lambda>_.
              Inr (ProbeShellSu (hd rest = ''allow'')))
          else if op = ''doctor'' then
            (if rest \<noteq> [] \<and> hd rest = ''--verify-su-isolation''
             then rbind (ensure (length rest = 1) (Msg ''unexpected doctor options'')) (\<lambda>_. Inr DoctorSu)
             else rbind (ensure (rest = []) (Msg ''unexpected doctor options'')) (\<lambda>_. Inr Doctor))
          else if op = ''ctl'' then rbind (ctl_request base64 json args) (\<lambda>c. Inr (Ctl c))
          else if \<not> android \<and> op = ''test-daemon'' then
            rbind (ensure (length rest = 1) (Msg ''test state path required'')) (\<lambda>_. Inr (RunDaemon (hd rest) True))
          else if \<not> android \<and> op = ''test-ctl'' then
            rbind (ensure (length rest = 2) (Msg ''test state path and JSON required'')) (\<lambda>_.
              case json (str_bytes (rest ! 1)) of
                None \<Rightarrow> Inl (Msg ''invalid JSON'') | Some c \<Rightarrow> Inr (TestCtl (hd rest) c))
          else Inl (Msg ''unsupported operation''))"

text \<open>
  One request over the control socket: \<open>connect\<close> is the outcome of connecting and setting the
  timeouts, \<open>write\<close> of writing some bytes, \<open>incoming\<close> what arrives in time.
\<close>

definition control_client ::
    "('r \<Rightarrow> u8 list) \<Rightarrow> (u8 list \<Rightarrow> 'v option) \<Rightarrow> err + unit \<Rightarrow> (u8 list \<Rightarrow> err + unit) \<Rightarrow> u8 list \<Rightarrow> 'r
       \<Rightarrow> err + 'v" where
  "control_client encode parse connect write incoming request =
     rbind connect (\<lambda>_.
     let body = encode request
     in rbind (ensure (length body \<le> 16384) (Msg ''control request too large'')) (\<lambda>_.
        rbind (write (to_le32 (of_nat (length body)))) (\<lambda>_.
        rbind (write body) (\<lambda>_.
        rbind (read_exact 4 incoming) (\<lambda>(h, rest).
        let len = unat (from_le32 h)
        in rbind (ensure (len \<le> 1024 * 1024) (Msg ''control response too large'')) (\<lambda>_.
           rbind (read_exact len rest) (\<lambda>(data, _).
             case parse data of None \<Rightarrow> Inl (Msg ''invalid JSON'') | Some v \<Rightarrow> Inr v)))))))"

text \<open>What a client of root writes is the request the supervisor reads.\<close>

lemma control_request_delivered:
  assumes "parse (encode r) = Some r" and "length (encode r) \<le> 16384"
  shows "control_body test parse \<lparr>cc_peer = Inr 0, cc_options = None,
     cc_bytes = to_le32 (of_nat (length (encode r))) @ encode r\<rparr> = Inr r"
  using assms by (simp add: control_body_def read_exact_def)

text \<open>
  What the supervisor writes back: the result of the request, or the error of reading or handling it,
  as JSON behind its length. \<open>enc\<close> is the JSON writer.
\<close>

datatype control_result = ControlOk control_reply | ControlFailed string

definition control_result_of :: "err + control_reply \<Rightarrow> control_result" where
  "control_result_of r = (case r of Inr v \<Rightarrow> ControlOk v | Inl x \<Rightarrow> ControlFailed (err_text x))"

definition control_answer ::
    "codec \<Rightarrow> (u8 list \<Rightarrow> control option) \<Rightarrow> env \<Rightarrow> control_call \<Rightarrow> daemon \<Rightarrow> err + control_reply" where
  "control_answer cd parse e c d =
     rbind (control_body (dm_test d) parse c) (\<lambda>request. fst (daemon_control cd e request d))"

definition control_response :: "(control_result \<Rightarrow> u8 list) \<Rightarrow> err + control_reply \<Rightarrow> u8 list" where
  "control_response enc r =
     (let body = enc (control_result_of r) in to_le32 (of_nat (length body)) @ body)"

text \<open>A request of root and its reply: the client gets exactly what the supervisor's handler answers.\<close>

lemma control_call_returns:
  assumes "parse (encode r) = Some r" and "length (encode r) \<le> 16384"
    and "c = \<lparr>cc_peer = Inr 0, cc_options = None, cc_bytes = to_le32 (of_nat (length (encode r))) @ encode r\<rparr>"
    and "x = fst (daemon_control cd e r d)"
    and "dec (enc (control_result_of x)) = Some (control_result_of x)" and "length (enc (control_result_of x)) \<le> 1024 * 1024"
  shows "control_client encode dec (Inr ()) (\<lambda>_. Inr ()) (control_response enc (control_answer cd parse e c d)) r
      = Inr (control_result_of x)"
proof -
  have "control_body (dm_test d) parse c = Inr r"
    unfolding assms(3) by (rule control_request_delivered) fact+
  then have "control_answer cd parse e c d = x" by (simp add: control_answer_def assms(4))
  with assms(2,5,6) show ?thesis
    by (simp add: control_client_def control_response_def read_exact_def Let_def unsigned_of_nat
        take_bit_nat_eq_self)
qed

text \<open>\<open>ctl\<close> succeeds when the reply says so; \<open>main\<close> reports failures by its exit status.\<close>

definition ctl_result :: "err + bool option \<Rightarrow> err + unit" where
  "ctl_result reply = rbind reply (\<lambda>ok. ensure (ok = Some True) (Msg ''control operation failed''))"

definition doctor_result :: "err + 'a \<Rightarrow> err + unit" where
  "doctor_result r = (case r of Inr _ \<Rightarrow> Inr () | Inl _ \<Rightarrow> Inl (Msg ''environment check failed''))"

definition exit_status :: "err + unit \<Rightarrow> nat" where
  "exit_status r = (case r of Inr _ \<Rightarrow> 0 | Inl x \<Rightarrow> if x = already_running then 73 else 1)"

end
