(* ===== verification/Probe.thy ===== *)
theory Probe
  imports Privileges
begin

text \<open>
  The diagnostics of \<open>src/src/unix/ksu.rs\<close> and \<open>src/src/main.rs\<close>: the disposable processes that try
  whether KernelSU's flag keeps su from giving root, the wait for them, reading a system property
  and the thread that watches the properties. What su does with the credentials of a process is a
  parameter; so are the clock and what \<open>try_wait\<close> and the pipe answer.
\<close>

section \<open>One probe\<close>

text \<open>
  \<open>probe_shell_su\<close>: \<open>su\<close> is the program that replaces the process, as its success and its output, or
  the error of \<open>exec\<close>.
\<close>

type_synonym su_program = "proc \<Rightarrow> io_error + bool \<times> u8 list"

definition probe_shell_su :: "bool \<Rightarrow> su_program \<Rightarrow> bool \<Rightarrow> proc \<Rightarrow> (bool \<times> u8 list, proc) outcome" where
  "probe_shell_su android su allow p =
     (case ensure (fst (snd (pr_uids p)) = 0) (Msg ''probe requires root'') of
        Inl e \<Rightarrow> (Inl e, p)
      | Inr _ \<Rightarrow>
          sbind (restrict_service android False allow False p) (\<lambda>_ p.
            (case su p of Inl e \<Rightarrow> Inl (Io e) | Inr r \<Rightarrow> Inr r, p)))"

text \<open>What the probe's process ends with: an error is reported on the error output only.\<close>

definition probe_process :: "bool \<Rightarrow> su_program \<Rightarrow> bool \<Rightarrow> proc \<Rightarrow> bool \<times> u8 list" where
  "probe_process android su allow p =
     (case fst (probe_shell_su android su allow p) of Inl _ \<Rightarrow> (False, []) | Inr r \<Rightarrow> r)"

section \<open>Waiting for a probe\<close>

text \<open>
  The loop over \<open>try_wait\<close>, which sleeps for 20 milliseconds: the clock after a round's answer, and
  the answer. The loop has not returned when the rounds are used up. \<open>TimedOut\<close>: the probe's process
  group was killed, and the probe waited for.
\<close>

datatype probe_end = Exited bool | WaitFailed io_error | TimedOut

fun probe_wait :: "instant \<Rightarrow> (instant \<times> (io_error + bool option)) list \<Rightarrow> probe_end option" where
  "probe_wait deadline [] = None"
| "probe_wait deadline ((now, answer) # rs) =
     (case answer of
        Inl e \<Rightarrow> Some (WaitFailed e)
      | Inr (Some success) \<Rightarrow> Some (Exited success)
      | Inr None \<Rightarrow> if deadline \<le> now then Some TimedOut else probe_wait deadline rs)"

text \<open>
  The thread that reads the probe's output: \<open>read_to_end\<close> of at most \<open>limit\<close> bytes, from a script of
  reads. It has not ended when the script is used up.
\<close>

fun probe_read :: "nat \<Rightarrow> (io_error + u8 list) list \<Rightarrow> u8 list \<Rightarrow> (io_error + u8 list) option" where
  "probe_read limit [] out = (if limit \<le> length out then Some (Inr out) else None)"
| "probe_read limit (r # rs) out =
     (if limit \<le> length out then Some (Inr out)
      else case r of
        Inl e \<Rightarrow> if io_kind_of e = Interrupted then probe_read limit rs out else Some (Inl e)
      | Inr b \<Rightarrow>
          if b = [] then Some (Inr out) else probe_read limit rs (out @ take (limit - length out) b))"

text \<open>
  One turn of the loop over the two modes. \<open>pc_spawn\<close> is the error of starting the probe, which
  includes its \<open>pre_exec\<close>; \<open>pc_start\<close> is the clock when the deadline is set.
\<close>

record probe_child =
  pc_spawn :: "io_error option"
  pc_start :: instant
  pc_rounds :: "(instant \<times> (io_error + bool option)) list"
  pc_reads :: "(io_error + u8 list) list"

definition verify_mode :: "probe_child \<Rightarrow> (err + bool) option" where
  "verify_mode c =
     (case pc_spawn c of
        Some e \<Rightarrow> Some (Inl (Io e))
      | None \<Rightarrow>
          (case probe_wait (pc_start c + secs 5) (pc_rounds c) of
             None \<Rightarrow> None
           | Some (WaitFailed e) \<Rightarrow> Some (Inl (Io e))
           | Some TimedOut \<Rightarrow>
               Some (Inl (Msg ''su probe timed out; pre-authorize shell in KernelSU before testing''))
           | Some (Exited success) \<Rightarrow>
               (case probe_read 1024 (pc_reads c) [] of
                  None \<Rightarrow> None
                | Some (Inl e) \<Rightarrow> Some (Inl (Io e))
                | Some (Inr b) \<Rightarrow> Some (Inr (success \<and> b = [48, 10])))))"

definition verify_su_isolation :: "probe_child \<Rightarrow> probe_child \<Rightarrow> (err + unit) option" where
  "verify_su_isolation allow block =
     (case verify_mode allow of
        None \<Rightarrow> None
      | Some (Inl e) \<Rightarrow> Some (Inl e)
      | Some (Inr allowed) \<Rightarrow>
          (case verify_mode block of
             None \<Rightarrow> None
           | Some (Inl e) \<Rightarrow> Some (Inl e)
           | Some (Inr blocked) \<Rightarrow>
               Some (rbind (ensure allowed
                   (Msg ''baseline su did not obtain root; authorize shell in KernelSU and repeat'')) (\<lambda>_.
                 ensure (\<not> blocked) (Msg ''KSU_NO_NEW_PRIVS failed to block su'')))))"

text \<open>
  \<open>doctor --verify-su-isolation\<close>: whether the report it prints says ok, if it prints one, and its
  result.
\<close>

definition doctor_su :: "err + ksu_info \<Rightarrow> err + unit \<Rightarrow> bool option \<times> (err + unit)" where
  "doctor_su check verify =
     (case check of Inl e \<Rightarrow> (None, Inl e) | Inr _ \<Rightarrow> (Some (is_ok verify), verify))"

section \<open>System properties\<close>

text \<open>
  \<open>property\<close>: \<open>get\<close> is the system's answer, a length and the buffer it filled. The name must be a C
  string, the value ends at the first zero byte.
\<close>

definition system_property :: "bool \<Rightarrow> (string \<Rightarrow> int \<times> u8 list) \<Rightarrow> string \<Rightarrow> err + string" where
  "system_property android get name =
     (if \<not> android then Inl (Msg ''Android properties unavailable'')
      else if NUL \<in> set name then Inl (Msg ''nul byte found in provided data'')
      else let (n, buf) = get name
           in rbind (ensure (0 \<le> n) (Msg ''property read failed'')) (\<lambda>_.
                from_utf8 (takeWhile (\<lambda>b. b \<noteq> 0) buf)))"

text \<open>
  \<open>watch_properties\<close>: the thread's serial number and the flag it shares with the supervisor. A turn
  is one wait of at most a second, which answers the area's new serial number if it changed.
\<close>

record watcher =
  wp_serial :: u32
  wp_flag :: bool

definition watch_start :: "u32 \<Rightarrow> watcher" where
  "watch_start serial = \<lparr>wp_serial = serial, wp_flag = False\<rparr>"

definition watch_turn :: "u32 option \<Rightarrow> watcher \<Rightarrow> watcher" where
  "watch_turn answer w =
     (case answer of None \<Rightarrow> w | Some serial \<Rightarrow> w\<lparr>wp_serial := serial, wp_flag := True\<rparr>)"

text \<open>The supervisor takes the flag with \<open>swap\<close>.\<close>

definition watch_take :: "watcher \<Rightarrow> bool \<times> watcher" where
  "watch_take w = (wp_flag w, w\<lparr>wp_flag := False\<rparr>)"

text \<open>A change of the area is noticed by the turn that sees it, and the supervisor takes it once.\<close>

lemma watch_turn_taken:
  "watch_take (watch_turn (Some serial) w) = (True, \<lparr>wp_serial = serial, wp_flag = False\<rparr>)"
  "watch_take (watch_turn None (watch_turn (Some serial) w)) = (True, \<lparr>wp_serial = serial, wp_flag = False\<rparr>)"
  "\<not> fst (watch_take (watch_turn None (snd (watch_take w))))"
  by (simp_all add: watch_take_def watch_turn_def)

section \<open>The diagnostics always end\<close>

text \<open>Between two rounds the loop sleeps, so the clock has advanced by at least 20 milliseconds.\<close>

fun paced :: "instant \<Rightarrow> (instant \<times> 'a) list \<Rightarrow> bool" where
  "paced t [] \<longleftrightarrow> True"
| "paced t ((now, _) # rs) \<longleftrightarrow> t \<le> now \<and> paced (now + millis 20) rs"

lemma probe_wait_ends:
  "paced t rs \<Longrightarrow> deadline \<le> t + n * millis 20 \<Longrightarrow> n < length rs \<Longrightarrow> probe_wait deadline rs \<noteq> None"
proof (induction rs arbitrary: t n)
  case (Cons r rs)
  obtain now answer where r: "r = (now, answer)" by fastforce
  show ?case
  proof (cases "answer = Inr None \<and> now < deadline")
    case False
    then show ?thesis using r by (auto split: sum.splits option.splits)
  next
    case True
    with Cons.prems r obtain m where m: "n = Suc m" by (cases n) auto
    have "deadline \<le> now + millis 20 + m * millis 20" using Cons.prems(1,2) r m by simp
    then show ?thesis using Cons.IH [of "now + millis 20" m] Cons.prems(1,3) r m True by simp
  qed
qed simp

text \<open>A probe's own part: the rounds it needs at most, and the end of its output once it has exited.\<close>

definition well_paced :: "probe_child \<Rightarrow> bool" where
  "well_paced c \<longleftrightarrow> paced (pc_start c) (pc_rounds c) \<and> 250 < length (pc_rounds c)"

lemma verify_mode_ends:
  assumes "well_paced c" and "probe_read 1024 (pc_reads c) [] \<noteq> None"
  shows "verify_mode c \<noteq> None"
proof -
  have "pc_start c + secs 5 \<le> pc_start c + 250 * millis 20" by (simp add: secs_def millis_def)
  with assms(1) have "probe_wait (pc_start c + secs 5) (pc_rounds c) \<noteq> None"
    using probe_wait_ends [of "pc_start c"] by (auto simp: well_paced_def)
  with assms(2) show ?thesis
    by (auto simp: verify_mode_def split: option.splits probe_end.splits sum.splits)
qed

text \<open>
  C9: the diagnosis of the su isolation ends. Each of its two probes is asked at most 251 times, five
  seconds at 20 milliseconds apart, whatever it does: then it has exited or its process group is
  killed. If the output of a probe that exits also ends, the diagnosis returns.
\<close>

theorem su_probes_end:
  assumes "well_paced a" and "well_paced b"
    and "probe_read 1024 (pc_reads a) [] \<noteq> None" and "probe_read 1024 (pc_reads b) [] \<noteq> None"
  shows "(\<exists>r. verify_su_isolation a b = Some r)
    \<and> probe_wait (pc_start a + secs 5) (take 251 (pc_rounds a)) \<noteq> None
    \<and> probe_wait (pc_start b + secs 5) (take 251 (pc_rounds b)) \<noteq> None"
proof (intro conjI)
  have paced_take: "paced t (take n rs)" if "paced t rs" for t n and rs :: "(instant \<times> (io_error + bool option)) list"
    using that by (induction t rs arbitrary: n rule: paced.induct) (case_tac n; simp)+
  have wait: "probe_wait (pc_start c + secs 5) (take 251 (pc_rounds c)) \<noteq> None" if "well_paced c" for c
    using that probe_wait_ends [of "pc_start c" "take 251 (pc_rounds c)" "pc_start c + secs 5" 250]
    by (simp add: well_paced_def paced_take secs_def millis_def)
  show "probe_wait (pc_start a + secs 5) (take 251 (pc_rounds a)) \<noteq> None"
    "probe_wait (pc_start b + secs 5) (take 251 (pc_rounds b)) \<noteq> None"
    using wait assms(1,2) by simp_all
  show "\<exists>r. verify_su_isolation a b = Some r"
    using verify_mode_ends [OF assms(1,3)] verify_mode_ends [OF assms(2,4)]
    by (auto simp: verify_su_isolation_def split: sum.splits)
qed

text \<open>A probe that never exits, and one that says at once that it is root.\<close>

definition hung_probe :: probe_child where
  "hung_probe =
     \<lparr>pc_spawn = None, pc_start = 0, pc_rounds = map (\<lambda>n. (n * millis 20, Inr None)) [0..<251],
      pc_reads = [Inr []]\<rparr>"

definition quick_probe :: "bool \<times> u8 list \<Rightarrow> probe_child" where
  "quick_probe r =
     \<lparr>pc_spawn = None, pc_start = 0, pc_rounds = map (\<lambda>n. (n * millis 20, Inr (Some (fst r)))) [0..<251],
      pc_reads = (if snd r = [] then [] else [Inr (snd r)]) @ [Inr []]\<rparr>"

lemma paced_demo: "paced (n * millis 20) (map (\<lambda>n. (n * millis 20, f)) [n..<m])"
proof (induction "m - n" arbitrary: n)
  case (Suc k)
  then have "[n..<m] = n # [Suc n..<m]" by (simp add: upt_conv_Cons)
  moreover have "paced (Suc n * millis 20) (map (\<lambda>n. (n * millis 20, f)) [Suc n..<m])"
    using Suc(2) by (intro Suc(1)) simp
  ultimately show ?case by (simp add: algebra_simps)
qed simp

lemma demo_well_paced: "well_paced hung_probe" "well_paced (quick_probe r)"
  using paced_demo [of 0] by (simp_all add: well_paced_def hung_probe_def quick_probe_def)

theorem su_probes_end_witness:
  "\<exists>r. verify_su_isolation (quick_probe (True, [48, 10])) hung_probe = Some r"
  using su_probes_end [OF demo_well_paced(2,1), of "(True, [48, 10])"]
  by (simp add: hung_probe_def quick_probe_def)

section \<open>What the diagnosis shows\<close>

text \<open>The probe's process ended with \<open>r\<close>: that is what \<open>try_wait\<close> and the pipe report of it.\<close>

definition answers :: "bool \<Rightarrow> (instant \<times> (io_error + bool option)) list \<Rightarrow> bool" where
  "answers x rs \<longleftrightarrow> list_all (\<lambda>(_, a). case a of Inr (Some success) \<Rightarrow> success = x | _ \<Rightarrow> True) rs"

definition reports :: "probe_child \<Rightarrow> bool \<times> u8 list \<Rightarrow> bool" where
  "reports c r \<longleftrightarrow>
     answers (fst r) (pc_rounds c) \<and> (case probe_read 1024 (pc_reads c) [] of Some (Inr b) \<Rightarrow> b = take 1024 (snd r) | _ \<Rightarrow> True)"

lemma probe_wait_reports:
  "probe_wait d rs = Some (Exited s) \<Longrightarrow> answers x rs \<Longrightarrow> s = x"
  by (induction d rs rule: probe_wait.induct) (auto simp: answers_def split: sum.splits option.splits if_splits)

lemma verify_mode_reports:
  assumes "verify_mode c = Some (Inr x)" and "reports c r"
  shows "x \<longleftrightarrow> r = (True, [48, 10])"
proof -
  have "take 1024 (snd r) = [48, 10] \<longleftrightarrow> snd r = [48, 10]"
    by (cases "snd r"; cases "tl (snd r)"; cases "tl (tl (snd r))") simp_all
  with assms show ?thesis
    by (cases r) (auto simp: verify_mode_def reports_def dest: probe_wait_reports
        split: option.splits probe_end.splits sum.splits)
qed

lemma probe_process_True:
  assumes "probe_process android su allow p = (True, out)"
  shows "fst (snd (pr_uids p)) = 0 \<and> (\<exists>p'. restrict_service android False allow False p = (Inr (), p')
    \<and> su p' = Inr (True, out))"
proof (cases "restrict_service android False allow False p")
  case (Pair x p')
  with assms show ?thesis
    by (cases x; cases "su p'") (auto simp: probe_process_def probe_shell_su_def ensure_def split: if_splits)
qed

lemma verify_su_isolation_ok:
  "verify_su_isolation a b = Some (Inr u) \<longleftrightarrow>
     verify_mode a = Some (Inr True) \<and> verify_mode b = Some (Inr False)"
  by (auto simp: verify_su_isolation_def rbind_def ensure_def split: option.splits sum.splits)

text \<open>
  C8: a diagnosis that succeeds is evidence about the kernel, if the second probe could be
  restricted: then there is a process with exactly the confinement of a service for which su gives
  root, and for which su does not give root once KernelSU's flag is set, everything else equal.
\<close>

theorem su_probe_sound:
  assumes "verify_su_isolation a b = Some (Inr ())"
    and "reports a (probe_process android su True p)" and "reports b (probe_process android su False q)"
    and "honest p" and "q = p\<lparr>pr_faults := fs\<rparr>" and "honest q"
    and "restrict_service android False False False q = (Inr (), q')"
    and "\<forall>p fs. su (p\<lparr>pr_faults := fs\<rparr>) = su p"
  shows "\<exists>r. shell_confined True r \<and> su r = Inr (True, [48, 10])
    \<and> shell_confined False (r\<lparr>pr_escape := False\<rparr>) \<and> su (r\<lparr>pr_escape := False\<rparr>) \<noteq> Inr (True, [48, 10])"
proof -
  note v = assms(1) [unfolded verify_su_isolation_ok]
  have p: "probe_process android su True p = (True, [48, 10])"
    and q: "probe_process android su False q \<noteq> (True, [48, 10])"
    using verify_mode_reports v assms(2,3) by blast+
  from probe_process_True [OF p] obtain p' where root: "fst (snd (pr_uids p)) = 0"
    and p': "restrict_service android False True False p = (Inr (), p')" and su: "su p' = Inr (True, [48, 10])"
    by blast
  have blocked: "su q' \<noteq> Inr (True, [48, 10])"
    using q root assms(5,7)
    by (auto simp: probe_process_def probe_shell_su_def sbind_def)
  obtain gs hs where
      "p' = (with_identity 2000 shell_groups p)\<lparr>pr_escape := pr_escape p, pr_context := ''u:r:shell:s0'', pr_faults := hs\<rparr>"
      "q' = (with_identity 2000 shell_groups q)\<lparr>pr_escape := False, pr_context := ''u:r:shell:s0'', pr_faults := gs\<rparr>"
    using restrict_service_exact [OF p' assms(4)] restrict_service_exact [OF assms(7,6)] by auto
  then have "q' = (p'\<lparr>pr_escape := False\<rparr>)\<lparr>pr_faults := gs\<rparr>"
    using assms(5) by (simp add: with_identity_def kept_signal_def)
  with blocked assms(8) have "su (p'\<lparr>pr_escape := False\<rparr>) \<noteq> Inr (True, [48, 10])" by metis
  moreover have "shell_confined True p'" using restrict_service_ok [OF p' assms(4)] by simp
  ultimately show ?thesis using su by (auto simp: shell_confined_def dropped_def)
qed

text \<open>A su that gives root to every process for which KernelSU still does.\<close>

definition demo_su :: su_program where
  "demo_su p = Inr (pr_escape p, [48, 10])"

lemmas run_restriction = restrict_service_def prevent_escalation_def driver_def set_identity_def
  drop_ids_def set_gids_def set_uids_def set_context_def sys_ensure_def sys_do_def cap_read_def
  root_proc_def EINVAL_def

lemma demo_restricted:
  "\<exists>q. restrict_service True False allow False (root_proc (replicate 20 None)) = (Inr (), q)"
  by (cases allow) (simp_all add: run_restriction eval_nat_numeral)

lemma reports_quick: "length (snd r) \<le> 1024 \<Longrightarrow> reports (quick_probe r) r"
  by (auto simp: reports_def answers_def quick_probe_def list_all_iff)

theorem su_probe_sound_witness:
  "\<exists>r. shell_confined True r \<and> demo_su r = Inr (True, [48, 10]) \<and> demo_su (r\<lparr>pr_escape := False\<rparr>) \<noteq> Inr (True, [48, 10])"
proof -
  let ?p = "root_proc (replicate 20 None)"
  have h: "honest ?p" "?p = ?p\<lparr>pr_faults := replicate 20 None\<rparr>" by (simp_all add: honest_def root_proc_def)
  obtain q where q: "restrict_service True False False False ?p = (Inr (), q)" using demo_restricted by blast
  obtain p where p: "restrict_service True False True False ?p = (Inr (), p)" using demo_restricted by blast
  have e: "pr_escape p" "\<not> pr_escape q"
    using restrict_service_exact [OF p h(1)] restrict_service_exact [OF q h(1)] by (auto simp: root_proc_def)
  have u: "fst (snd (pr_uids ?p)) = 0" by (simp add: root_proc_def)
  have a: "probe_process True demo_su True ?p = (True, [48, 10])"
    and b: "probe_process True demo_su False ?p = (False, [48, 10])"
    using p q u e by (simp_all add: probe_process_def probe_shell_su_def demo_su_def)
  have "verify_su_isolation (quick_probe (True, [48, 10])) (quick_probe (False, [48, 10])) = Some (Inr ())"
    by (simp add: verify_su_isolation_ok verify_mode_def quick_probe_def upt_conv_Cons)
  from su_probe_sound [OF this _ _ h(1,2,1) q, of demo_su] show ?thesis
    by (auto simp: a b reports_quick demo_su_def)
qed

text \<open>
  The diagnosis also succeeds when the flag was never tried. If the first probe gets root and the
  second one fails before it reaches su, for instance because the driver did not take the flag, the
  result is that the flag blocks su, whatever su would have done.
\<close>

theorem su_probe_failure_passes:
  assumes "verify_mode a = Some (Inr True)" and "verify_mode b = Some (Inr y)"
    and "reports b (probe_process android su False q)"
    and "restrict_service android False False False q = (Inl e, q')"
  shows "verify_su_isolation a b = Some (Inr ()) \<and> fst (doctor_su (Inr info) (Inr ())) = Some True"
proof -
  have "probe_process android su False q = (False, [])"
    using assms(4) by (simp add: probe_process_def probe_shell_su_def sbind_def ensure_def)
  with verify_mode_reports [OF assms(2,3)] assms(1,2) show ?thesis
    by (simp add: verify_su_isolation_ok doctor_su_def)
qed

theorem su_probe_failure_passes_witness:
  "verify_su_isolation (quick_probe (True, [48, 10]))
     (quick_probe (probe_process True (\<lambda>_. Inr (True, [48, 10])) False (root_proc [Some 19]))) = Some (Inr ())"
proof -
  let ?q = "root_proc [Some 19]" and ?su = "\<lambda>_. Inr (True, [48, 10])"
  obtain e q' where r: "restrict_service True False False False ?q = (Inl e, q')"
    by (simp add: run_restriction)
  then have p: "probe_process True ?su False ?q = (False, [])"
    by (simp add: probe_process_def probe_shell_su_def sbind_def ensure_def)
  have a: "verify_mode (quick_probe (True, [48, 10])) = Some (Inr True)"
    and b: "verify_mode (quick_probe (probe_process True ?su False ?q)) = Some (Inr False)"
    unfolding p by (simp_all add: verify_mode_def quick_probe_def upt_conv_Cons)
  have "reports (quick_probe (probe_process True ?su False ?q)) (probe_process True ?su False ?q)"
    unfolding p by (rule reports_quick) simp
  from su_probe_failure_passes [OF a b this r] show ?thesis by simp
qed

end
