(* ===== verification/Channel.thy ===== *)
theory Channel
  imports Daemon_Claims Worker
begin

text \<open>
  The types of the messages on the channel from the supervisor of \<open>Daemon\<close> to the network worker of
  \<open>Worker\<close>: which messages may be sent in which state of the channel, with how many descriptors. The
  supervisor only sends what the typing allows, over a whole run, and the worker takes every typed
  message without an error.
\<close>

section \<open>The typing of the channel\<close>

text \<open>
  A channel is created with its worker. The first message is the bootstrap, after a shutdown nothing
  is sent. \<open>Idle\<close>: there is no worker to send to.
\<close>

datatype chan = Idle | Fresh | Open

fun sent_typed :: "message \<Rightarrow> nat \<Rightarrow> bool" where
  "sent_typed (Reply _ _ _) n \<longleftrightarrow> True"
| "sent_typed (Hosts _) n \<longleftrightarrow> n = 0"
| "sent_typed (PairStart _ _ endpoints) n \<longleftrightarrow> n = length endpoints"
| "sent_typed PairStop n \<longleftrightarrow> n = 0"
| "sent_typed PairCommitted n \<longleftrightarrow> n = 0"
| "sent_typed _ n \<longleftrightarrow> False"

fun chan_step :: "effect \<Rightarrow> chan \<Rightarrow> chan option" where
  "chan_step (WorkerStarted _) c = Some Fresh"
| "chan_step (Sent (Boot _ _ endpoints specs _) n) c =
     (if c = Fresh \<and> n = length endpoints + length specs then Some Open else None)"
| "chan_step (Sent Shutdown n) c = (if c = Open \<and> n = 0 then Some Idle else None)"
| "chan_step (Sent m n) c = (if c = Open \<and> sent_typed m n then Some Open else None)"
| "chan_step _ c = Some c"

fun chan_run :: "effect list \<Rightarrow> chan \<Rightarrow> chan option" where
  "chan_run [] c = Some c"
| "chan_run (e # es) c = (case chan_step e c of None \<Rightarrow> None | Some c \<Rightarrow> chan_run es c)"

lemma chan_run_append:
  "chan_run (es @ fs) c = (case chan_run es c of None \<Rightarrow> None | Some c \<Rightarrow> chan_run fs c)"
  by (induction es arbitrary: c) (simp_all split: option.splits)

lemma chan_step_typed: "sent_typed m n \<Longrightarrow> chan_step (Sent m n) Open = Some Open"
  by (cases m) simp_all

text \<open>The effects that are not about the channel.\<close>

fun quiet :: "effect \<Rightarrow> bool" where
  "quiet (Sent _ _) = False"
| "quiet (WorkerStarted _) = False"
| "quiet _ = True"

lemma chan_run_quiet: "list_all quiet es \<Longrightarrow> chan_run es c = Some c"
proof (induction es)
  case (Cons e es)
  then show ?case by (cases e) simp_all
qed simp

section \<open>The supervisor keeps to it\<close>

text \<open>
  With a worker the channel is open; the descriptors of the bundle are as many as its addresses, so
  that a bootstrap is typed.
\<close>

definition channel_ok :: "daemon \<Rightarrow> bool" where
  "channel_ok d \<longleftrightarrow>
     (\<exists>c. chan_run (dm_effects d) Idle = Some c \<and> (dm_worker d \<noteq> None \<longrightarrow> c = Open))
       \<and> (\<forall>b. dm_bundle d = Some b \<longrightarrow>
             length (bu_tcp b) = length (bu_endpoints b) \<and> length (bu_mdns b) = length (bu_specs b))"

lemma channel_ok_frame:
  "channel_ok d \<Longrightarrow> dm_effects d' = dm_effects d \<Longrightarrow> dm_worker d' = dm_worker d \<Longrightarrow> dm_bundle d' = dm_bundle d
    \<Longrightarrow> channel_ok d'"
  by (simp add: channel_ok_def)

lemma channel_quiet: "channel_ok d \<Longrightarrow> list_all quiet es \<Longrightarrow> channel_ok (emit es d)"
  by (auto simp: channel_ok_def emit_def chan_run_append chan_run_quiet)

lemma channel_log [simp]: "channel_ok (daemon_log e m d) = channel_ok d"
  by (simp add: channel_ok_def daemon_log_def Let_def)

lemma channel_reason [simp]: "channel_ok (d\<lparr>dm_reason := t\<rparr>) = channel_ok d"
  by (simp add: channel_ok_def)

lemma channel_sbind:
  assumes "channel_ok (snd m)" and "\<And>x d. m = (Inr x, d) \<Longrightarrow> channel_ok d \<Longrightarrow> channel_ok (snd (f x d))"
  shows "channel_ok (snd (sbind m f))"
  using assms by (cases m; cases "fst m") auto

lemma channel_on_store [simp]: "channel_ok (snd (on_store f d)) = channel_ok d"
  by (simp add: channel_ok_def on_store_def case_prod_unfold Let_def)

lemma channel_send: "channel_ok d \<Longrightarrow> sent_typed m n \<Longrightarrow> channel_ok (snd (daemon_send e m n d))"
  by (auto simp: channel_ok_def daemon_send_def emit_def chan_run_append chan_step_typed split: sum.splits)

lemma service_stop_quiet: "list_all quiet (snd (service_stop e s))"
  by (simp add: service_stop_def Let_def)

lemma channel_stop_services: "channel_ok d \<Longrightarrow> channel_ok (stop_services e P d)"
  unfolding stop_services_def
  by (rule channel_quiet)
    (auto simp: list_all_iff channel_ok_def service_stop_quiet [unfolded list_all_iff, rule_format])

lemma channel_end_worker: "channel_ok d \<Longrightarrow> channel_ok (end_worker e d)"
  by (auto simp: channel_ok_def end_worker_def emit_def chan_run_append split: option.splits)

lemma channel_stop_worker: "channel_ok d \<Longrightarrow> channel_ok (stop_worker e d)"
proof -
  assume "channel_ok d"
  then have "channel_ok (d\<lparr>dm_window := None\<rparr>)" by (rule channel_ok_frame) simp_all
  then have ok: "channel_ok (stop_services e (\<lambda>_. True) (end_worker e (d\<lparr>dm_window := None\<rparr>)))"
    by (intro channel_stop_services channel_end_worker)
  have "list_all quiet (map (\<lambda>s. Killed (sv_pid s)) ss)" for ss by (simp add: list_all_iff)
  then show ?thesis
    unfolding stop_worker_def Let_def by (rule channel_ok_frame [OF channel_quiet [OF ok]]) simp_all
qed

lemma stop_worker_None: "dm_worker (stop_worker e d) = None"
  by (rule stop_worker_emits [of e d]) (simp add: emit_def)

lemma channel_daemon_stop: "channel_ok d \<Longrightarrow> channel_ok (daemon_stop e st reason d)"
proof -
  assume ok: "channel_ok d"
  define d1 where "d1 = (if st = ''error'' then d\<lparr>dm_failures := min (dm_failures d + 1) 6,
      dm_retry_at := en_now e + secs (2 ^ min (dm_failures d + 1) 6)\<rparr> else d)"
  define d2 where "d2 = (if dm_worker d1 \<noteq> None then stop_worker e d1 else d1)"
  have "channel_ok d1" using ok by (auto simp: d1_def channel_ok_def)
  then have "channel_ok d2" by (simp add: d2_def channel_stop_worker)
  moreover have "channel_ok (d2\<lparr>dm_bundle := None, dm_root := False, dm_rotate := None\<rparr>)"
    using calculation by (simp add: channel_ok_def)
  ultimately show ?thesis
    unfolding daemon_stop_def Let_def d1_def [symmetric] d2_def [symmetric]
    by (auto simp: channel_ok_def daemon_log_def Let_def)
qed

lemma listeners_length:
  "listeners mk addrs port test os = (Inr (eps, ls), os') \<Longrightarrow> length ls = length eps"
proof (induction addrs arbitrary: port os eps ls)
  case (Cons a addrs)
  from Cons.prems obtain q os1 eps1 ls1 where rest: "listeners mk addrs q test os1 = (Inr (eps1, ls1), os')"
    and len: "length eps = Suc (length eps1)" "length ls = Suc (length ls1)"
    by (auto simp: sbind_eq_Inr_iff Let_def)
  from Cons.IH [OF rest] len show ?case by simp
qed simp

lemma listeners_length_fst: "fst (listeners mk addrs port test os) = Inr (eps, ls) \<Longrightarrow> length ls = length eps"
  by (metis listeners_length prod.collapse)

lemma channel_start_worker: "channel_ok d \<Longrightarrow> dm_worker d = None \<Longrightarrow> channel_ok (snd (start_worker e d))"
  by (auto simp: start_worker_def channel_ok_def emit_def boot_message_def chan_run_append Let_def
      split: option.splits sum.splits)

lemma channel_daemon_start: "channel_ok d \<Longrightarrow> dm_worker d = None \<Longrightarrow> channel_ok (snd (daemon_start e addresses d))"
  unfolding daemon_start_def
  by (auto split: sum.splits prod.splits intro!: channel_start_worker)
    (auto simp: channel_ok_def dest!: listeners_length_fst)

lemma channel_pair_stop: "channel_ok d \<Longrightarrow> channel_ok (pair_stop e d)"
  unfolding pair_stop_def by (intro channel_send) (auto intro: channel_ok_frame)

lemma channel_disconnect: "channel_ok d \<Longrightarrow> channel_ok (disconnect e t d)"
  unfolding disconnect_def by (intro channel_stop_services) (auto intro: channel_ok_frame)

section \<open>Control requests and requests of the worker\<close>

lemma channel_pair_start: "channel_ok d \<Longrightarrow> channel_ok (snd (control_pair_start e d))"
proof -
  assume "channel_ok d"
  then have ok: "channel_ok (pair_stop e d)" by (rule channel_pair_stop)
  have "channel_ok ((pair_stop e d)\<lparr>dm_epoch := i\<rparr>)" for i
    using ok by (rule channel_ok_frame) simp_all
  then have sent: "channel_ok (snd (daemon_send e (PairStart i digits eps) (length tcp) ((pair_stop e d)\<lparr>dm_epoch := i\<rparr>)))"
    if "length tcp = length eps" for i digits eps and tcp :: "nat list"
    using that by (intro channel_send) simp_all
  have last: "channel_ok d' \<Longrightarrow> channel_ok (d'\<lparr>dm_window := w\<rparr>)" for d' w
    by (erule channel_ok_frame) simp_all
  show ?thesis
    using \<open>channel_ok d\<close> ok
    by (auto simp: control_pair_start_def Let_def split: option.splits sum.splits
        intro!: channel_sbind sent last dest: listeners_length_fst)
qed

lemma channel_configure: "channel_ok d \<Longrightarrow> channel_ok (snd (control_configure cd e config d))"
proof -
  have off: "channel_ok ((stop_worker e d)\<lparr>dm_root := False\<rparr>)" if "channel_ok d" for d
    using channel_ok_frame [OF channel_stop_worker [OF that]] by simp
  then have on: "channel_ok (snd (start_worker e ((stop_worker e d)\<lparr>dm_root := False\<rparr>)))" if "channel_ok d" for d
    using that by (intro channel_start_worker) (simp_all add: stop_worker_None)
  show "channel_ok d \<Longrightarrow> channel_ok (snd (control_configure cd e config d))"
    unfolding control_configure_def Let_def
    by (intro channel_sbind) (auto intro!: channel_sbind channel_daemon_stop on off)
qed

lemma channel_disconnects: "channel_ok d \<Longrightarrow> channel_ok (foldl (\<lambda>d i. disconnect e i d) d ids)"
  by (induction ids arbitrary: d) (simp_all add: channel_disconnect)

lemma channel_revoke: "channel_ok d \<Longrightarrow> channel_ok (snd (control_revoke cd e fp d))"
  unfolding control_revoke_def Let_def
  by (intro channel_sbind) (auto intro!: channel_sbind channel_send channel_disconnects)

lemma channel_control: "channel_ok d \<Longrightarrow> channel_ok (snd (daemon_control cd e request d))"
proof -
  assume ok: "channel_ok d"
  have "channel_ok (d\<lparr>dm_quit := True\<rparr>)" using ok by (rule channel_ok_frame) simp_all
  with ok have "channel_ok (snd (case request of
           CPairStart \<Rightarrow> control_pair_start e d
         | CPairStop \<Rightarrow> (Inr (), daemon_log e ''Pairing window closed'' (pair_stop e d))
         | CConfigure config \<Rightarrow> control_configure cd e config d
         | CRevoke fingerprint \<Rightarrow> control_revoke cd e fingerprint d
         | CStop \<Rightarrow> (Inr (), daemon_stop e ''disabled'' ''Service stopped'' (d\<lparr>dm_quit := True\<rparr>))
         | _ \<Rightarrow> (Inr (), d)))"
    by (cases request)
      (simp_all add: channel_pair_start channel_pair_stop channel_configure channel_revoke channel_daemon_stop)
  with ok show ?thesis unfolding daemon_control_def by (auto intro!: channel_sbind)
qed

lemma channel_push: "channel_ok (push_service s d) = channel_ok d"
  by (simp add: push_service_def channel_ok_def)

lemma channel_push_stopped: "channel_ok d \<Longrightarrow> channel_ok (push_stopped e s d)"
  using channel_quiet [OF _ service_stop_quiet, of d e s]
  by (simp add: push_stopped_def channel_push case_prod_unfold Let_def)

lemma channel_spawn: "channel_ok d \<Longrightarrow> channel_ok (snd (spawn_service e t name bind d))"
  using channel_quiet [of d "[ServiceStarted (service_message d name bind) pid]" for pid]
  by (auto simp: spawn_service_def Let_def channel_push split: sum.splits option.splits
      intro!: channel_push_stopped)

lemma channel_pair_failure: "channel_ok d \<Longrightarrow> channel_ok (pair_failure e w d)"
proof -
  assume "channel_ok d"
  then have "channel_ok (d\<lparr>dm_window := w\<rparr>)" for w by (rule channel_ok_frame) simp_all
  then show ?thesis by (simp add: pair_failure_def Let_def channel_pair_stop)
qed

lemma channel_pair_result: "channel_ok d \<Longrightarrow> channel_ok (snd (request_pair_result cd kc e epoch key d))"
proof -
  have closed: "channel_ok d \<Longrightarrow> channel_ok (d\<lparr>dm_window := None\<rparr>)" for d
    by (rule channel_ok_frame) simp_all
  show "channel_ok d \<Longrightarrow> ?thesis"
    by (auto simp: request_pair_result_def split: option.splits
        intro!: channel_sbind channel_send channel_pair_failure closed)
qed

lemma channel_request: "channel_ok d \<Longrightarrow> channel_ok (snd (daemon_request cd kc e r d))"
proof -
  assume ok: "channel_ok d"
  have auth: "channel_ok (snd (request_authenticated cd e t fp d))" for t fp
    unfolding request_authenticated_def using ok
    by (auto intro!: channel_sbind) (simp add: channel_ok_def)
  have root: "channel_ok (snd (request_root e t enable d))" for t enable
    using ok by (simp add: request_root_def channel_ok_def)
  have close: "channel_ok (request_close e t s d)" for t s
    using ok by (simp add: request_close_def channel_ok_def)
  have fin: "channel_ok (snd r) \<Longrightarrow> channel_ok (snd (done_reply r))" for r
    unfolding done_reply_def by (rule channel_sbind) simp_all
  show ?thesis
    by (cases r) (simp_all add: daemon_request_def auth root close fin ok channel_disconnect channel_spawn
        channel_stop_services channel_pair_result)
qed

section \<open>The main loop\<close>

lemma channel_control_phase: "channel_ok d \<Longrightarrow> channel_ok (control_phase cd parse e call d)"
  by (simp add: control_phase_def channel_control split: option.splits sum.splits)

lemma channel_window_phase: "channel_ok d \<Longrightarrow> channel_ok (window_phase e d)"
  by (simp add: window_phase_def channel_pair_stop)

lemma channel_rotate_phase: "channel_ok d \<Longrightarrow> channel_ok (rotate_phase e d)"
proof -
  assume "channel_ok d"
  then have "channel_ok (d\<lparr>dm_rotate := None\<rparr>)" by (rule channel_ok_frame) simp_all
  then have "channel_ok (stop_worker e (d\<lparr>dm_rotate := None\<rparr>))" by (rule channel_stop_worker)
  then have "channel_ok (snd (start_worker e (stop_worker e (d\<lparr>dm_rotate := None\<rparr>))))"
    by (rule channel_start_worker) (rule stop_worker_None)
  with \<open>channel_ok d\<close> show ?thesis
    by (auto simp: rotate_phase_def channel_daemon_stop split: prod.splits sum.splits)
qed

lemma channel_worker_phase: "channel_ok d \<Longrightarrow> channel_ok (worker_phase cd kc e w d)"
proof -
  assume ok: "channel_ok d"
  have run: "channel_ok (d\<lparr>dm_state := s, dm_reason := t\<rparr>)" for s t
    using ok by (rule channel_ok_frame) simp_all
  have reply: "channel_ok (case daemon_request cd kc e r d of
      (Inr (message, fds), d) \<Rightarrow> snd (daemon_send e (Reply i True message) fds d)
    | (Inl x, d) \<Rightarrow> snd (daemon_send e (Reply i False (err_text x)) 0 d))" for r i
    using channel_request [OF ok, of cd kc e r]
    by (auto split: prod.splits sum.splits intro!: channel_send)
  show ?thesis
  proof (cases "\<exists>i r. w = Arrived (Inr (Request i r, 0))")
    case True
    with ok reply show ?thesis by (auto simp: worker_phase_def)
  next
    case False
    with ok run show ?thesis
      by (auto simp: worker_phase_def channel_daemon_stop split: worker_event.splits sum.splits prod.splits
          message.splits nat.splits)
  qed
qed

lemma channel_services_phase: "channel_ok d \<Longrightarrow> channel_ok (services_phase e d)"
  unfolding services_phase_def Let_def
  by (rule channel_ok_frame [OF channel_stop_services]) simp_all

lemma channel_network_phase: "channel_ok d \<Longrightarrow> channel_ok (network_phase e c d)"
proof -
  assume ok: "channel_ok d"
  let ?d = "daemon_stop e ''starting'' ''Network changed; starting service'' d"
  have "channel_ok (snd (daemon_start e addresses ?d))" for addresses
    using ok by (intro channel_daemon_start channel_daemon_stop) (simp_all add: daemon_stop_worker)
  then have "daemon_start e addresses ?d = (r, d') \<Longrightarrow> channel_ok d'" for addresses r d'
    by (metis snd_conv)
  with ok show ?thesis
    unfolding network_phase_def
    by (auto simp: channel_daemon_stop split: sum.splits prod.splits)
qed

lemma channel_check_phase:
  "channel_ok (lp_daemon l) \<Longrightarrow> channel_ok (lp_daemon (check_phase e c l))"
proof -
  assume ok: "channel_ok (lp_daemon l)"
  have kept: "channel_ok (settings_back e (lp_daemon l))"
    using ok by (simp add: settings_back_def)
  with ok kept show ?thesis
    by (auto simp: check_phase_def Let_def channel_daemon_stop channel_network_phase
        split: prod.splits option.splits bool.splits)
qed

lemma channel_turn: "channel_ok (lp_daemon l) \<Longrightarrow> channel_ok (lp_daemon (daemon_turn cd kc parse t l))"
proof -
  assume "channel_ok (lp_daemon l)"
  then have "channel_ok (control_phase cd parse (tn_control_env t) (tn_control t) (lp_daemon l))" (is "channel_ok ?d")
    by (rule channel_control_phase)
  moreover from this have "channel_ok (turn_events cd kc t ?d)"
    unfolding turn_events_def
    by (intro channel_services_phase channel_worker_phase channel_rotate_phase channel_window_phase)
  ultimately show ?thesis
    by (auto simp: daemon_turn_def Let_def intro!: channel_check_phase)
qed

text \<open>The whole loop.\<close>

interpretation channel: machine "\<lambda>l. channel_ok (lp_daemon l)" "loop_step cd kc parse" for cd kc parse
  by unfold_locales (simp add: loop_step_def channel_turn)

lemma channel_run: "channel_ok (daemon_run cd kc parse e e' test ts s)"
proof -
  have "channel_ok (lp_daemon (loop_new e test s))"
    by (simp add: channel_ok_def loop_new_def daemon_new_def)
  then have "channel_ok (lp_daemon (daemon_loop cd kc parse ts (loop_new e test s)))"
    unfolding daemon_loop_fold by (rule channel.run_inv)
  then show ?thesis by (simp add: daemon_run_def daemon_drop_def channel_daemon_stop channel_stop_worker)
qed

section \<open>The worker takes what is typed\<close>

fun message_typed :: "message \<Rightarrow> nat \<Rightarrow> bool" where
  "message_typed (Boot _ _ endpoints specs _) n \<longleftrightarrow> n = length endpoints + length specs"
| "message_typed Shutdown n \<longleftrightarrow> n = 0"
| "message_typed m n \<longleftrightarrow> sent_typed m n"

lemma chan_run_typed: "chan_run es c = Some c' \<Longrightarrow> Sent m n \<in> set es \<Longrightarrow> message_typed m n"
proof (induction es arbitrary: c)
  case (Cons e es)
  then show ?case by (cases m) (auto split: option.splits if_splits)
qed simp

lemma worker_takes:
  assumes "message_typed m (length fds)"
  shows "case m of
      Boot identity hosts endpoints specs test \<Rightarrow>
        child_setup p = (Inr (), q) \<longrightarrow> restrict_network android test q = (Inr (), r) \<longrightarrow>
        is_ok (fst (worker_boot android now (Inr (m, fds)) p))
    | Ready \<Rightarrow> False
    | Request _ _ \<Rightarrow> False
    | _ \<Rightarrow> is_ok (fst (worker_message t m fds w))"
  using assms by (cases m) (auto simp: worker_boot_def worker_message_def)

text \<open>
  C5: the channel between the supervisor and the worker is well typed. In any run of the supervisor,
  whatever is asked of it and whatever fails, each worker is sent the bootstrap first and once,
  nothing after a shutdown, and every message with the number of descriptors that belongs to it; and
  each message that was sent is one that the worker takes without an error: no bootstrap is refused
  for its descriptors, and no later message as unexpected or mismatched, in any state of the worker.
\<close>

theorem channel_typed:
  assumes "Sent m (length fds) \<in> set (dm_effects (daemon_run cd kc parse e e' test ts s))"
  shows "chan_run (dm_effects (daemon_run cd kc parse e e' test ts s)) Idle \<noteq> None
    \<and> (case m of
        Boot identity hosts endpoints specs mode \<Rightarrow>
          child_setup p = (Inr (), q) \<longrightarrow> restrict_network android mode q = (Inr (), r) \<longrightarrow>
          is_ok (fst (worker_boot android now (Inr (m, fds)) p))
      | Ready \<Rightarrow> False
      | Request _ _ \<Rightarrow> False
      | _ \<Rightarrow> is_ok (fst (worker_message t m fds w)))"
proof -
  obtain c where "chan_run (dm_effects (daemon_run cd kc parse e e' test ts s)) Idle = Some c"
    using channel_run [of cd kc parse e e' test ts s] unfolding channel_ok_def by blast
  with chan_run_typed [OF this assms] show ?thesis by (auto intro: worker_takes)
qed

text \<open>A run in which the worker is started on one interface, and stopped at the end.\<close>

definition start_turn :: turn where
  "start_turn =
     demo_turn\<lparr>tn_worker := Quiet,
       tn_conditions := demo_conditions\<lparr>co_discover := Inr [Endpoint ''wlan0'' 3 1 0]\<rparr>\<rparr>"

definition start_run :: daemon where
  "start_run =
     daemon_run demo_codec (\<lambda>_. Inl Base64Err) (\<lambda>_. None) (demo_env 0) (demo_env 0) True [start_turn] (demo_store [])"

lemma start_run_boot:
  "\<exists>identity hosts endpoints specs. length endpoints + length specs = 1
     \<and> Sent (Boot identity hosts endpoints specs True) 1 \<in> set (dm_effects start_run)"
  by (simp add: start_run_def daemon_run_def start_turn_def demo_turn_def demo_conditions_def demo_env_def
      loop_new_def daemon_new_def daemon_turn_def control_phase_def turn_events_def services_phase_def
      worker_phase_def rotate_phase_def window_phase_def check_phase_def demo_store_def default_config_def
      pause_reason_def settings_back_def network_phase_def network_changed_def daemon_stop_def daemon_start_def
      start_worker_def emit_def boot_message_def stop_services_def daemon_log_def Let_def secs_def millis_def
      SETTINGS_UNAVAILABLE_def mdns_sockets_def stop_worker_def daemon_drop_def end_worker_def config_port_def)

theorem channel_typed_witness:
  "\<exists>m q r. Sent m 1 \<in> set (dm_effects start_run) \<and> chan_run (dm_effects start_run) Idle \<noteq> None
     \<and> child_setup (root_proc (replicate 9 None)) = (Inr (), q) \<and> restrict_network False True q = (Inr (), r)
     \<and> is_ok (fst (worker_boot False 0 (Inr (m, [3])) (root_proc (replicate 9 None))))"
proof -
  obtain identity hosts endpoints specs where
      b: "Sent (Boot identity hosts endpoints specs True) (length [3 :: nat]) \<in> set (dm_effects start_run)"
    using start_run_boot by auto
  obtain q where q: "child_setup (root_proc (replicate 9 None)) = (Inr (), q)"
    by (simp add: child_setup_def sys_ensure_def sys_do_def eval_nat_numeral root_proc_def)
  have r: "restrict_network False True q = (Inr (), q)" by (simp add: restrict_network_def)
  from channel_typed [OF b [unfolded start_run_def], folded start_run_def] b q r show ?thesis by force
qed

end
