(* ===== verification/Stream_Flow.thy ===== *)
theory Stream_Flow
  imports Transport_Invariant
begin

text \<open>
  The data of a connection from end to end: what the services of its streams have received and what
  the host has been sent, as functions of the packets the host wrote and of what the services
  deliver. The connection runs over a recorded TLS object, a history variable: \<open>taped sk\<close> does what
  \<open>sk\<close> does and keeps the bytes read and the bytes of every completed write.
\<close>

section \<open>The recorded TLS object\<close>

record 'o tape =
  tp_tls :: 'o
  tp_in :: "u8 list"
  tp_out :: "u8 list"

definition taped :: "'o sink \<Rightarrow> 'o tape sink" where
  "taped sk =
     \<lparr>sk_put = (\<lambda>b x. let (r, o') = sk_put sk b (tp_tls x)
          in (r, x\<lparr>tp_tls := o', tp_out := (if is_ok r then tp_out x @ b else tp_out x)\<rparr>)),
      sk_flush = (\<lambda>x. let (r, o') = sk_flush sk (tp_tls x) in (r, x\<lparr>tp_tls := o'\<rparr>)),
      sk_queued = (\<lambda>x. sk_queued sk (tp_tls x)), sk_plain = (\<lambda>x. sk_plain sk (tp_tls x)),
      sk_read = (\<lambda>n x. map_option (\<lambda>(r, o'). (r, x\<lparr>tp_tls := o',
          tp_in := (case r of Inr b \<Rightarrow> tp_in x @ b | Inl _ \<Rightarrow> tp_in x)\<rparr>)) (sk_read sk n (tp_tls x)))\<rparr>"

definition tape :: "'o \<Rightarrow> 'o tape" where
  "tape o1 = \<lparr>tp_tls = o1, tp_in = [], tp_out = []\<rparr>"

lemma taped_simps [simp]:
  "sk_put (taped sk) b x = (let (r, o') = sk_put sk b (tp_tls x)
     in (r, x\<lparr>tp_tls := o', tp_out := (if is_ok r then tp_out x @ b else tp_out x)\<rparr>))"
  "sk_flush (taped sk) x = (let (r, o') = sk_flush sk (tp_tls x) in (r, x\<lparr>tp_tls := o'\<rparr>))"
  "sk_queued (taped sk) x = sk_queued sk (tp_tls x)"
  "sk_read (taped sk) n x = map_option (\<lambda>(r, o'). (r, x\<lparr>tp_tls := o',
     tp_in := (case r of Inr b \<Rightarrow> tp_in x @ b | Inl _ \<Rightarrow> tp_in x)\<rparr>)) (sk_read sk n (tp_tls x))"
  by (simp_all add: taped_def)

text \<open>The packets in the bytes of the host, and what is left of them.\<close>

function host_packets :: "nat \<Rightarrow> u8 list \<Rightarrow> packet list \<times> u8 list" where
  "host_packets limit input =
     (case next_packet limit input of
        Got p rest \<Rightarrow> (let (ps, r) = host_packets limit rest in (p # ps, r))
      | _ \<Rightarrow> ([], input))"
  by pat_completeness auto
termination
  by (relation "measure (\<lambda>(limit, input). length input)") (auto dest: next_packet_progress)

declare host_packets.simps [simp del]

lemma host_packets_append:
  "host_packets limit a = (ps, r) \<Longrightarrow>
    host_packets limit (a @ b) = (ps @ fst (host_packets limit (r @ b)), snd (host_packets limit (r @ b)))"
proof (induction limit a arbitrary: ps rule: host_packets.induct)
  case (1 limit a)
  show ?case
  proof (cases "next_packet limit a")
    case (Got p rest)
    with 1 obtain qs where qs: "host_packets limit rest = (qs, r)" "ps = p # qs"
      by (auto simp: host_packets.simps [of limit a] split: prod.splits)
    from "1.IH" [OF Got qs(1)] qs(2) next_packet_append [OF Got, of b] show ?thesis
      by (simp add: host_packets.simps [of limit "a @ b"])
  qed (use "1.prems" in \<open>auto simp: host_packets.simps [of limit a]\<close>)
qed

section \<open>The data of one stream\<close>

definition packet_bytes :: "packet \<Rightarrow> u8 list" where
  "packet_bytes p = (case packet_write p False of Inr b \<Rightarrow> b | Inl _ \<Rightarrow> [])"

text \<open>What the host writes to stream \<open>i\<close>, and what it is sent from stream \<open>i\<close>.\<close>

definition data_to :: "u32 \<Rightarrow> packet list \<Rightarrow> u8 list" where
  "data_to i ps = concat (map p_data (filter (\<lambda>p. p_command p = WRTE \<and> p_arg1 p = i) ps))"

definition data_from :: "u32 \<Rightarrow> packet list \<Rightarrow> u8 list" where
  "data_from i ps = concat (map p_data (filter (\<lambda>p. p_command p = WRTE \<and> p_arg0 p = i) ps))"

lemma data_simps [simp]:
  "data_to i [] = []" "data_to i (ps @ qs) = data_to i ps @ data_to i qs"
  "data_to i (p # ps) = (if p_command p = WRTE \<and> p_arg1 p = i then p_data p else []) @ data_to i ps"
  "data_from i [] = []" "data_from i (ps @ qs) = data_from i ps @ data_from i qs"
  "data_from i (p # ps) = (if p_command p = WRTE \<and> p_arg0 p = i then p_data p else []) @ data_from i ps"
  by (simp_all add: data_to_def data_from_def)

text \<open>The host's acknowledgements for stream \<open>i\<close>, and our packets of data from it.\<close>

definition acks :: "u32 \<Rightarrow> packet list \<Rightarrow> nat" where
  "acks i ps = length (filter (\<lambda>p. p_command p = OKAY \<and> p_arg1 p = i) ps)"

definition sends :: "u32 \<Rightarrow> packet list \<Rightarrow> nat" where
  "sends i ps = length (filter (\<lambda>p. p_command p = WRTE \<and> p_arg0 p = i) ps)"

lemma count_simps [simp]:
  "acks i [] = 0" "acks i (ps @ qs) = acks i ps + acks i qs"
  "acks i (p # ps) = of_bool (p_command p = OKAY \<and> p_arg1 p = i) + acks i ps"
  "sends i [] = 0" "sends i (ps @ qs) = sends i ps + sends i qs"
  "sends i (p # ps) = of_bool (p_command p = WRTE \<and> p_arg0 p = i) + sends i ps"
  by (simp_all add: acks_def sends_def)

text \<open>The bytes \<open>b\<close> are the packets \<open>qs\<close>, each of which can be written.\<close>

definition written :: "u8 list \<Rightarrow> packet list \<Rightarrow> bool" where
  "written b qs \<longleftrightarrow> b = concat (map packet_bytes qs) \<and> (\<forall>q \<in> set qs. is_ok (packet_write q False))"

text \<open>The host's packets after its last \<open>OPEN\<close> with the number \<open>r\<close>.\<close>

definition opens :: "u32 \<Rightarrow> packet \<Rightarrow> bool" where
  "opens r p \<longleftrightarrow> p_command p = OPEN \<and> p_arg0 p = r"

definition since_open :: "u32 \<Rightarrow> packet list \<Rightarrow> packet list" where
  "since_open r ps = rev (takeWhile (\<lambda>p. \<not> opens r p) (rev ps))"

lemma since_open_split:
  assumes "opens r p" and "\<forall>q \<in> set post. \<not> opens r q"
  shows "since_open r (pre @ p # post) = post"
proof -
  have "takeWhile (\<lambda>q. \<not> opens r q) (rev post @ p # rev pre) = rev post"
    using assms by (subst takeWhile_append2) simp_all
  then show ?thesis by (simp add: since_open_def)
qed

lemma sends_other: "(\<And>p. p \<in> set ps \<Longrightarrow> p_command p = WRTE \<Longrightarrow> p_arg0 p \<noteq> i) \<Longrightarrow> sends i ps = 0"
  by (induction ps) auto

lemma data_from_other: "(\<And>p. p \<in> set ps \<Longrightarrow> p_command p = WRTE \<Longrightarrow> p_arg0 p \<noteq> i) \<Longrightarrow> data_from i ps = []"
  by (induction ps) auto

text \<open>
  What a source has still to deliver, and who owns its socket, if it has one; \<open>forwarded\<close> is the socket
  of a reverse connection.
\<close>

definition unread :: "source \<Rightarrow> u8 list" where
  "unread src =
     (case src of
        SSocket k _ \<Rightarrow> concat (map (\<lambda>e. case e of RData b \<Rightarrow> b | RErr _ \<Rightarrow> []) (s_rx k))
      | SBytes b \<Rightarrow> b)"

fun owner_of :: "source \<Rightarrow> (u64 \<times> u32) option option" where
  "owner_of (SSocket _ owner) = Some owner"
| "owner_of (SBytes _) = None"

definition forwarded :: "source \<Rightarrow> bool" where
  "forwarded src \<longleftrightarrow> owner_of src = Some None"

lemma source_read_unread:
  "source_read n src = (r, src') \<Longrightarrow>
     unread src = (case r of Inr b \<Rightarrow> b | Inl _ \<Rightarrow> []) @ unread src' \<and> owner_of src' = owner_of src"
  by (auto simp: source_read_def sock_read_def unread_def
      split: source.splits prod.splits list.splits rx_event.splits if_splits option.splits)

lemma source_write_unread:
  "source_write b src = (r, src') \<Longrightarrow> unread src' = unread src \<and> owner_of src' = owner_of src"
  by (auto simp: source_write_def sock_write_def unread_def
      split: source.splits prod.splits list.splits tx_event.splits if_splits option.splits)

text \<open>
  The sockets the supervisor hands over: those in its answers, and the connections that the
  listeners among them will accept.
\<close>

definition desc_socks :: "desc \<Rightarrow> sock set" where
  "desc_socks d = insert (fd_sock d) {k. Some k \<in> set (fd_accept d)}"

fun answer_socks :: "answer \<Rightarrow> sock set" where
  "answer_socks (Answered ok m fds) = \<Union> (desc_socks ` set fds)"
| "answer_socks _ = {}"

definition handed :: "answer set \<Rightarrow> sock set" where
  "handed A = \<Union> (answer_socks ` A)"

definition answers :: "'o connection \<Rightarrow> answer set" where
  "answers c = set (br_answers (cn_broker c))"

definition listener_socks :: "(string, reverse) btree \<Rightarrow> sock set" where
  "listener_socks m = \<Union> (desc_socks ` rv_listener ` set (bt_values m))"

lemma listener_socks_Cons [simp]: "listener_socks ((k, r) # m) = desc_socks (rv_listener r) \<union> listener_socks m"
  by (simp add: listener_socks_def bt_values_def)

lemma listener_socks_mono: "set m \<subseteq> set m' \<Longrightarrow> listener_socks m \<subseteq> listener_socks m'"
  by (auto simp: listener_socks_def bt_values_def)

text \<open>A connection that has only answers of \<open>A\<close> to come, and listeners out of them.\<close>

definition within :: "answer set \<Rightarrow> 'o connection \<Rightarrow> bool" where
  "within A c \<longleftrightarrow> answers c \<subseteq> A \<and> listener_socks (cn_reverse c) \<subseteq> handed A"

definition given :: "answer set \<Rightarrow> source \<Rightarrow> bool" where
  "given A src = (case src of SSocket k _ \<Rightarrow> k \<in> handed A | SBytes _ \<Rightarrow> True)"

text \<open>\<open>conn_open\<close> answers a service name with a source; the TLS object plays no part in it.\<close>

definition opened_with :: "answer set \<Rightarrow> u8 list \<Rightarrow> source \<Rightarrow> bool" where
  "opened_with A name src \<longleftrightarrow> (\<exists>c d. within A (c :: unit connection) \<and> conn_open name c = (Inr src, d))"

text \<open>
  The two pipes of stream \<open>i\<close> after the host's packets \<open>pre @ post\<close> and our packets \<open>qs\<close>. The stream
  began with a source \<open>src\<close> of the same owner after \<open>pre\<close>: the last packet of \<open>pre\<close> is the host's last
  \<open>OPEN\<close> under the stream's number, and \<open>src\<close> is what \<open>conn_open\<close> made of its data; or, for a reverse
  connection, the host's \<open>OKAY\<close> to the stream, while one that still opens has got nothing. Since then the
  host has acknowledged every packet of data we sent from the stream but the one waited for, which fixes
  the \<open>OKAY\<close>. What the service has received and what is queued for it are the data of the \<open>WRTE\<close>
  packets of \<open>post\<close>; what the host was sent and what is left in the source are what the source had
  at the beginning.
\<close>

definition began :: "answer set \<Rightarrow> packet list \<Rightarrow> packet list \<Rightarrow> u32 \<Rightarrow> stream \<Rightarrow> source \<Rightarrow> bool" where
  "began A pre post i s src \<longleftrightarrow>
     (if \<not> forwarded (st_source s) then
        st_opening s = None \<and> pre \<noteq> [] \<and> opens (st_remote s) (last pre)
          \<and> (\<forall>p \<in> set post. \<not> opens (st_remote s) p) \<and> opened_with A (p_data (last pre)) src
      else if st_opening s = None then
        pre \<noteq> [] \<and> p_command (last pre) = OKAY \<and> p_arg0 (last pre) = st_remote s \<and> p_arg1 (last pre) = i
      else post = [] \<and> \<not> st_waiting s)"

definition piped :: "answer set \<Rightarrow> packet list \<Rightarrow> packet list \<Rightarrow> u32 \<Rightarrow> stream \<Rightarrow> bool" where
  "piped A ps qs i s \<longleftrightarrow>
     (\<exists>pre post src. ps = pre @ post \<and> given A src \<and> owner_of src = owner_of (st_source s)
       \<and> began A pre post i s src \<and> acks i post + of_bool (st_waiting s) = sends i qs
       \<and> stream_delivered s @ stream_todo s = source_sent src @ data_to i post
       \<and> unread src = data_from i qs @ unread (st_source s))"

text \<open>The packets fix where the stream began: no two divisions of them meet the condition.\<close>

lemma began_after:
  assumes "began A (pre @ us) post i s src" and "began A pre (us @ post) i s src'"
    and "acks i post = acks i (us @ post)"
  shows "us = []"
proof (rule ccontr)
  assume "us \<noteq> []"
  then obtain vs p where us: "us = vs @ [p]" by (metis rev_exhaust)
  show False using assms unfolding us by (auto simp: began_def split: if_splits)
qed

theorem began_unique:
  assumes "pre @ post = pre' @ post'" and "began A pre post i s src" and "began A pre' post' i s src'"
    and "acks i post = acks i post'"
  shows "pre = pre' \<and> post = post'"
proof -
  from assms(1) obtain us where "pre = pre' @ us \<and> us @ post = post' \<or> pre @ us = pre' \<and> post = us @ post'"
    by (auto simp: append_eq_append_conv2)
  then show ?thesis using assms(2-4) began_after by (elim disjE conjE) (auto dest: began_after)
qed

text \<open>\<open>E\<close> are packets of our side about to be sent; \<open>g\<close> are the bytes read so far, those of them
  that are not parsed yet, and the payload limit.\<close>

definition flows :: "u8 list \<times> u8 list \<times> nat \<Rightarrow> u64 \<Rightarrow> answer set \<Rightarrow> packet list \<Rightarrow> packet list \<Rightarrow> 'o tape connection \<Rightarrow> bool" where
  "flows g t S ps E c \<longleftrightarrow>
     (tp_in (cn_tls c), cn_input c, cn_max c) = g \<and> conn_inv t c \<and> within S c
       \<and> (\<exists>qs. written (tp_out (cn_tls c)) qs
            \<and> (\<forall>q \<in> set (qs @ E). p_command q = WRTE \<longrightarrow> p_arg0 q < cn_next c)
            \<and> (\<forall>(i, s) \<in> set (cn_streams c). piped S ps (qs @ E) i s))"

section \<open>Steps that send and deliver nothing\<close>

definition keeps :: "'o connection \<Rightarrow> 'o connection \<Rightarrow> bool" where
  "keeps c c' \<longleftrightarrow>
     (\<forall>A. within A c \<longrightarrow> within A c') \<and> cn_streams c' = cn_streams c \<and> cn_next c' = cn_next c \<and> cn_tls c' = cn_tls c
       \<and> cn_input c' = cn_input c \<and> cn_max c' = cn_max c"

lemma within_update [simp]:
  "within A (c\<lparr>cn_tls := x\<rparr>) = within A c" "within A (c\<lparr>cn_streams := m\<rparr>) = within A c"
  "within A (c\<lparr>cn_next := n\<rparr>) = within A c" "within A (c\<lparr>cn_input := b\<rparr>) = within A c"
  "within A (insert_stream i s c) = within A c" "within A (update_stream i s c) = within A c"
  by (simp_all add: within_def answers_def insert_stream_def update_stream_def)

lemma keeps_refl [simp]: "keeps c c"
  by (simp add: keeps_def)

lemma keeps_trans: "keeps a b \<Longrightarrow> keeps b c \<Longrightarrow> keeps a c"
  by (simp add: keeps_def)

lemma keeps_within: "keeps c c' \<Longrightarrow> within A c \<Longrightarrow> within A c'"
  by (simp add: keeps_def)

lemma keeps_sbind:
  "keeps c (snd m) \<Longrightarrow> (\<And>x d. m = (Inr x, d) \<Longrightarrow> keeps d (snd (f x d))) \<Longrightarrow> keeps c (snd (sbind m f))"
  by (cases m; cases "fst m") (auto intro: keeps_trans)

lemma broker_call_answers:
  "broker_call r b = (x, b') \<Longrightarrow>
    set (br_answers b') \<subseteq> set (br_answers b)
      \<and> (\<forall>m fds. x = Inr (m, fds) \<longrightarrow> Answered True m fds \<in> set (br_answers b))"
  by (cases "br_answers b")
    (auto simp: broker_call_eq broker_exchange_def Let_def split: prod.splits answer.splits if_splits)

lemma conn_call_keeps: "keeps c (snd (conn_call r c))"
  by (cases "broker_call r (cn_broker c)")
    (auto simp: keeps_def within_def answers_def conn_call_def dest!: broker_call_answers)

lemma conn_call_answer:
  assumes "conn_call r c = (Inr (m, fds), d)" and "within A c"
  shows "Answered True m fds \<in> A"
proof -
  from assms(1) have "broker_call r (cn_broker c) = (Inr (m, fds), cn_broker d)"
    by (auto simp: conn_call_def split: prod.splits)
  from broker_call_answers [OF this] assms(2) show ?thesis by (auto simp: within_def answers_def)
qed

lemma conn_call_given:
  assumes "conn_call r c = (Inr (m, fds), d)" and "within A c" and "fd \<in> set fds"
  shows "desc_socks fd \<subseteq> handed A"
  using conn_call_answer [OF assms(1,2)] assms(3) by (force simp: handed_def)

lemma keeps_remove: "keeps c (c\<lparr>cn_reverse := bt_remove k (cn_reverse c)\<rparr>)"
  using listener_socks_mono [of "bt_remove k (cn_reverse c)" "cn_reverse c"]
  by (auto simp: keeps_def within_def answers_def bt_remove_def)

lemma remove_reverse_keeps: "keeps c (snd (remove_reverse spec c))"
  by (auto simp: remove_reverse_def intro!: keeps_sbind intro: keeps_trans [OF keeps_remove conn_call_keeps])

lemma remove_reverses_keeps: "keeps c (snd (remove_reverses ks c))"
  by (induction ks arbitrary: c) (auto intro: keeps_sbind remove_reverse_keeps)

lemma set_bt_insert_subset: "set (bt_insert k v m) \<subseteq> insert (k, v) (set m)"
  by (induction k v m rule: bt_insert.induct) auto

lemma bind_reverse_keeps: "keeps c (snd (bind_reverse local remote c))"
proof (cases "conn_call (BindReverse (cn_transport c) local) c")
  case (Pair x d)
  have k: "keeps c d" using conn_call_keeps [of c "BindReverse (cn_transport c) local"] Pair by simp
  have "keeps c (d\<lparr>cn_reverse := bt_insert actual \<lparr>rv_listener = fd, rv_target = remote\<rparr> (cn_reverse d)\<rparr>)"
    if "x = Inr (actual, [fd])" for actual fd
  proof -
    have fd: "desc_socks fd \<subseteq> handed A" if "within A c" for A
      using conn_call_given [of _ c actual "[fd]" d A fd] Pair that \<open>x = Inr (actual, [fd])\<close> by auto
    have new: "listener_socks (bt_insert actual \<lparr>rv_listener = fd, rv_target = remote\<rparr> (cn_reverse d))
        \<subseteq> desc_socks fd \<union> listener_socks (cn_reverse d)"
      using listener_socks_mono [of "bt_insert actual \<lparr>rv_listener = fd, rv_target = remote\<rparr> (cn_reverse d)"
          "(actual, \<lparr>rv_listener = fd, rv_target = remote\<rparr>) # cn_reverse d"]
        set_bt_insert_subset [of actual "\<lparr>rv_listener = fd, rv_target = remote\<rparr>" "cn_reverse d"]
      by simp
    have "within A (d\<lparr>cn_reverse := bt_insert actual \<lparr>rv_listener = fd, rv_target = remote\<rparr> (cn_reverse d)\<rparr>)"
      if "within A c" for A
      using fd [OF that] keeps_within [OF k that] new by (auto simp: within_def answers_def)
    with k show ?thesis by (simp add: keeps_def)
  qed
  with Pair k show ?thesis
    by (cases x) (auto simp: bind_reverse_def split: list.splits option.splits)
qed

lemma reverse_forward_keeps: "keeps c (snd (reverse_forward command c))"
  unfolding reverse_forward_def
  by (auto simp: Let_def split: option.splits prod.splits sum.splits
      intro!: keeps_sbind bind_reverse_keeps remove_reverse_keeps)

lemma reverse_command_keeps: "keeps c (snd (reverse_command command c))"
  by (auto simp: reverse_command_def Let_def split: option.splits
      intro!: keeps_sbind remove_reverse_keeps remove_reverses_keeps reverse_forward_keeps)

lemma conn_open_keeps: "keeps c (snd (conn_open name c))"
  unfolding conn_open_def using reverse_command_keeps [of c] conn_call_keeps [of c]
  by (auto simp: Let_def split: sum.splits option.splits prod.splits list.splits
      intro!: keeps_sbind conn_call_keeps) (metis conn_call_keeps snd_conv)+

text \<open>The service behind a socket: the supervisor's answer has its number and its socket.\<close>

lemma conn_open_answer:
  assumes "conn_open name c = (Inr (SSocket k own), d)" and "within A c"
  shows "\<exists>m fd t n. Answered True m [fd] \<in> A \<and> fd_sock fd = k \<and> own = Some (t, n) \<and> parse_u32 m = Inr n"
proof -
  from assms(1) obtain q m fds e where call: "conn_call q c = (Inr (m, fds), e)"
    and s: "service_socket (cn_transport e) m fds = Inr (SSocket k own)"
    by (auto simp: conn_open_def Let_def sbind_eq_Inr_iff
        split: sum.splits option.splits prod.splits if_splits)
  from s obtain fd n where "fds = [fd]" "k = fd_sock fd" "own = Some (cn_transport e, n)" "parse_u32 m = Inr n"
    by (auto simp: service_socket_def split: list.splits option.splits)
  with conn_call_answer [OF call assms(2)] show ?thesis by blast
qed

lemma conn_open_given:
  assumes "conn_open name c = (Inr src, d)" and "within A c"
  shows "given A src \<and> \<not> forwarded src"
proof (cases src)
  case (SBytes b)
  then show ?thesis by (simp add: given_def forwarded_def)
next
  case (SSocket k own)
  from conn_open_answer [OF assms(1) [unfolded SSocket] assms(2)] obtain m fd where
    "Answered True m [fd] \<in> A" "fd_sock fd = k" "own \<noteq> None" by blast
  with SSocket show ?thesis by (force simp: given_def forwarded_def handed_def desc_socks_def)
qed

lemma drop_in_keeps: "keeps c (drop_in src c)"
proof (cases "\<exists>k t n. src = SSocket k (Some (t, n))")
  case True
  then obtain k t n where "src = SSocket k (Some (t, n))" by blast
  then show ?thesis
    using broker_call_answers [of "CloseService t n" "cn_broker c"]
    by (cases "broker_call (CloseService t n) (cn_broker c)")
      (auto simp: drop_in_def drop_source_def keeps_def within_def answers_def)
qed (auto simp: drop_in_def drop_source_def split: source.splits option.splits)

section \<open>The TLS object plays no part in the requests\<close>

definition retls :: "'p \<Rightarrow> 'o connection \<Rightarrow> 'p connection" where
  "retls x c =
     \<lparr>cn_tls = x, cn_broker = cn_broker c, cn_transport = cn_transport c, cn_max = cn_max c,
      cn_streams = cn_streams c, cn_reverse = cn_reverse c, cn_next = cn_next c, cn_input = cn_input c\<rparr>"

lemma retls_simps [simp]:
  "cn_tls (retls x c) = x" "cn_broker (retls x c) = cn_broker c" "cn_transport (retls x c) = cn_transport c"
  "cn_max (retls x c) = cn_max c" "cn_streams (retls x c) = cn_streams c" "cn_reverse (retls x c) = cn_reverse c"
  "cn_next (retls x c) = cn_next c" "cn_input (retls x c) = cn_input c"
  "(retls x c)\<lparr>cn_broker := b\<rparr> = retls x (c\<lparr>cn_broker := b\<rparr>)"
  "(retls x c)\<lparr>cn_reverse := r\<rparr> = retls x (c\<lparr>cn_reverse := r\<rparr>)"
  "within A (retls x c) = within A c"
  by (simp_all add: retls_def within_def answers_def)

lemma apsnd_sbind:
  assumes "m' = apsnd h m" and "\<And>x d. g x (h d) = apsnd h (f x d)"
  shows "sbind m' g = apsnd h (sbind m f)"
  using assms by (cases m; cases "fst m") auto

lemma conn_call_retls: "conn_call r (retls x c) = apsnd (retls x) (conn_call r c)"
  by (simp add: conn_call_def split: prod.splits)

lemma remove_reverse_retls: "remove_reverse spec (retls x c) = apsnd (retls x) (remove_reverse spec c)"
  by (auto simp: remove_reverse_def intro!: apsnd_sbind conn_call_retls)

lemma remove_reverses_retls: "remove_reverses ks (retls x c) = apsnd (retls x) (remove_reverses ks c)"
  by (induction ks arbitrary: c) (auto intro!: apsnd_sbind remove_reverse_retls)

lemma bind_reverse_retls: "bind_reverse local remote (retls x c) = apsnd (retls x) (bind_reverse local remote c)"
  by (auto simp: bind_reverse_def conn_call_retls intro!: apsnd_sbind split: list.splits option.splits prod.splits)

lemma reverse_forward_retls: "reverse_forward command (retls x c) = apsnd (retls x) (reverse_forward command c)"
  by (auto simp: reverse_forward_def Let_def intro!: apsnd_sbind remove_reverse_retls bind_reverse_retls
      split: option.splits prod.splits sum.splits)

lemma reverse_command_retls: "reverse_command command (retls x c) = apsnd (retls x) (reverse_command command c)"
  by (auto simp: reverse_command_def Let_def reverse_forward_retls
      intro!: apsnd_sbind remove_reverse_retls remove_reverses_retls split: option.splits)

lemma conn_open_retls: "conn_open name (retls x c) = apsnd (retls x) (conn_open name c)"
  by (auto simp: conn_open_def Let_def conn_call_retls reverse_command_retls intro!: apsnd_sbind
      split: option.splits prod.splits sum.splits)

lemma conn_open_opened:
  assumes "conn_open name c = (Inr src, d)" and "within A c"
  shows "opened_with A name src"
  unfolding opened_with_def using assms conn_open_retls [of name "()" c]
  by (intro exI [of _ "retls () c"] exI [of _ "retls () d"]) simp

section \<open>The pipes and the steps of a connection\<close>

lemma flows_keeps: "flows g t S ps E c \<Longrightarrow> keeps c c' \<Longrightarrow> conn_inv t c' \<Longrightarrow> flows g t S ps E c'"
  by (auto simp: flows_def keeps_def)

lemma flowsI:
  assumes "conn_inv t c" and "(tp_in (cn_tls c), cn_input c, cn_max c) = g" and "within S c" and "written (tp_out (cn_tls c)) qs"
    and "\<And>q. q \<in> set (qs @ E) \<Longrightarrow> p_command q = WRTE \<Longrightarrow> p_arg0 q < cn_next c"
    and "\<And>i s. (i, s) \<in> set (cn_streams c) \<Longrightarrow> piped S ps (qs @ E) i s"
  shows "flows g t S ps E c"
  unfolding flows_def using assms by blast

lemma flowsE:
  assumes "flows g t S ps E c"
  obtains qs where "conn_inv t c" and "(tp_in (cn_tls c), cn_input c, cn_max c) = g" and "within S c" and "written (tp_out (cn_tls c)) qs"
    and "\<And>q. q \<in> set (qs @ E) \<Longrightarrow> p_command q = WRTE \<Longrightarrow> p_arg0 q < cn_next c"
    and "\<And>i s. (i, s) \<in> set (cn_streams c) \<Longrightarrow> piped S ps (qs @ E) i s"
  using assms unfolding flows_def by blast

lemma flows_inv: "flows g t S ps E c \<Longrightarrow> conn_inv t c"
  by (simp add: flows_def)

lemma conn_step_inv: "conn_step t c c' \<Longrightarrow> conn_inv t c \<Longrightarrow> conn_inv t c'"
  by (simp add: conn_step_def)

lemma flows_write:
  assumes "flows g t S ps (q # E) c" and "write_packet (taped sk) q c = (Inr u, c')"
  shows "flows g t S ps E c'"
proof -
  from assms(2) obtain x where x: "c' = c\<lparr>cn_tls := x\<rparr>" "tp_out x = tp_out (cn_tls c) @ packet_bytes q"
      "tp_in x = tp_in (cn_tls c)" "is_ok (packet_write q False)"
    by (auto simp: write_packet_def packet_bytes_def Let_def split: sum.splits prod.splits)
  from assms(1) obtain qs where qs: "conn_inv t c" "(tp_in (cn_tls c), cn_input c, cn_max c) = g"
    "within S c"
    "written (tp_out (cn_tls c)) qs"
    "\<And>r. r \<in> set (qs @ q # E) \<Longrightarrow> p_command r = WRTE \<Longrightarrow> p_arg0 r < cn_next c"
    "\<And>i s. (i, s) \<in> set (cn_streams c) \<Longrightarrow> piped S ps (qs @ q # E) i s" by (rule flowsE) blast
  from qs x show ?thesis by (intro flowsI [where qs = "qs @ [q]"]) (auto simp: written_def)
qed

lemma flows_writes:
  "flows g t S ps E c \<Longrightarrow> write_packets (taped sk) E c = (Inr u, c') \<Longrightarrow> flows g t S ps [] c'"
proof (induction E arbitrary: c)
  case (Cons q E)
  from Cons.prems(2) obtain d where "write_packet (taped sk) q c = (Inr (), d)"
    "write_packets (taped sk) E d = (Inr u, c')" by (auto simp: sbind_eq_Inr_iff)
  with Cons.IH flows_write [OF Cons.prems(1)] show ?case by blast
qed simp

lemma pipedI:
  assumes "ps = pre @ post" and "given S src" and "owner_of src = owner_of (st_source s)"
    and "began S pre post i s src" and "acks i post + of_bool (st_waiting s) = sends i qs"
    and "stream_delivered s @ stream_todo s = source_sent src @ data_to i post"
    and "unread src = data_from i qs @ unread (st_source s)"
  shows "piped S ps qs i s"
  unfolding piped_def using assms by blast

lemma pipedE:
  assumes "piped S ps qs i s"
  obtains pre post src where "ps = pre @ post" and "given S src" and "owner_of src = owner_of (st_source s)"
    and "began S pre post i s src" and "acks i post + of_bool (st_waiting s) = sends i qs"
    and "stream_delivered s @ stream_todo s = source_sent src @ data_to i post"
    and "unread src = data_from i qs @ unread (st_source s)"
  using assms unfolding piped_def by blast

text \<open>A stream that differs in what the pipes do not depend on.\<close>

lemma piped_same:
  assumes "piped S ps qs i s" and "st_source s' = st_source s" and "st_pending s' = st_pending s"
    and "st_offset s' = st_offset s" and "st_opening s' = st_opening s" and "st_remote s' = st_remote s"
    and "st_waiting s' = st_waiting s"
  shows "piped S ps qs i s'"
  using assms(1)
  by (rule pipedE) (rule pipedI, assumption+, use assms(2-7) in
    \<open>simp_all add: began_def stream_delivered_def stream_todo_def\<close>)

lemma piped_reply: "p_command q \<noteq> WRTE \<Longrightarrow> piped S ps (qs @ [q]) i s = piped S ps qs i s"
  by (simp add: piped_def)

text \<open>Another packet that is no concern of the stream, and one that is.\<close>

definition passes :: "packet \<Rightarrow> u32 \<Rightarrow> stream \<Rightarrow> bool" where
  "passes p i s \<longleftrightarrow>
     \<not> (p_command p = WRTE \<and> p_arg1 p = i \<and> p_data p \<noteq> []) \<and> \<not> (p_command p = OKAY \<and> p_arg1 p = i)
       \<and> \<not> opens (st_remote s) p"

lemma piped_take:
  assumes "piped S ps qs i s" and "passes p i s"
  shows "piped S (ps @ [p]) qs i s"
proof -
  from assms(1) obtain pre post src where a: "ps = pre @ post" "given S src" "owner_of src = owner_of (st_source s)"
    "began S pre post i s src" "acks i post + of_bool (st_waiting s) = sends i qs"
    "stream_delivered s @ stream_todo s = source_sent src @ data_to i post"
    "unread src = data_from i qs @ unread (st_source s)" by (rule pipedE)
  show ?thesis
  proof (cases "forwarded (st_source s) \<and> st_opening s \<noteq> None")
    case True
    with a show ?thesis by (intro pipedI [of _ "ps @ [p]" "[]" S src]) (auto simp: began_def)
  next
    case False
    with a assms(2) show ?thesis
      by (intro pipedI [of _ pre "post @ [p]" S src]) (auto simp: began_def passes_def)
  qed
qed

lemma piped_data:
  assumes "piped S ps qs i s" and "p_command p = WRTE" and "p_arg1 p = i" and "st_opening s = None"
    and "s' = s\<lparr>st_pending := st_pending s', st_offset := st_offset s'\<rparr>"
    and "stream_delivered s' @ stream_todo s' = stream_delivered s @ stream_todo s @ p_data p"
  shows "piped S (ps @ [p]) qs i s'"
proof -
  have same: "st_source s' = st_source s" "st_opening s' = st_opening s" "st_remote s' = st_remote s"
    "st_waiting s' = st_waiting s"
    by (subst assms(5), simp)+
  have cmd: "WRTE \<noteq> OPEN" "WRTE \<noteq> OKAY" by (simp_all add: command_values)
  from assms(1) obtain pre post src where a: "ps = pre @ post" "given S src" "owner_of src = owner_of (st_source s)"
    "began S pre post i s src" "acks i post + of_bool (st_waiting s) = sends i qs"
    "stream_delivered s @ stream_todo s = source_sent src @ data_to i post"
    "unread src = data_from i qs @ unread (st_source s)" by (rule pipedE)
  then show ?thesis
    using assms(2-4,6) cmd
    by (intro pipedI [of _ pre "post @ [p]" S src]) (auto simp: began_def same opens_def)
qed

lemma piped_acked:
  assumes "piped S ps qs i s" and "p_command p = OKAY" and "p_arg1 p = i" and "st_opening s = None" and "st_waiting s"
  shows "piped S (ps @ [p]) qs i (s\<lparr>st_waiting := False\<rparr>)"
proof -
  have cmd: "OKAY \<noteq> OPEN" "OKAY \<noteq> WRTE" by (simp_all add: command_values)
  from assms(1) obtain pre post src where a: "ps = pre @ post" "given S src" "owner_of src = owner_of (st_source s)"
    "began S pre post i s src" "acks i post + of_bool (st_waiting s) = sends i qs"
    "stream_delivered s @ stream_todo s = source_sent src @ data_to i post"
    "unread src = data_from i qs @ unread (st_source s)" by (rule pipedE)
  then show ?thesis
    using assms(2-5) cmd
    by (intro pipedI [of _ pre "post @ [p]" S src])
      (auto simp: began_def opens_def stream_delivered_def stream_todo_def)
qed

lemma piped_opened:
  assumes "piped S ps qs i s" and "p_command p = OKAY" and "p_arg1 p = i" and "st_opening s \<noteq> None"
  shows "piped S (ps @ [p]) qs i (s\<lparr>st_opening := None, st_remote := p_arg0 p\<rparr>)"
proof -
  from assms(1) obtain pre post src where a: "ps = pre @ post" "given S src" "owner_of src = owner_of (st_source s)"
    "began S pre post i s src" "acks i post + of_bool (st_waiting s) = sends i qs"
    "stream_delivered s @ stream_todo s = source_sent src @ data_to i post"
    "unread src = data_from i qs @ unread (st_source s)" by (rule pipedE)
  then show ?thesis
    using assms(2-4)
    by (intro pipedI [of _ "ps @ [p]" "[]" S src])
      (auto simp: began_def stream_delivered_def stream_todo_def split: if_splits)
qed

lemma flows_packet:
  assumes "flows g t S ps [] c" and "conn_packet (taped sk) cmd a b d c = (Inr u, c')" and "cmd \<noteq> WRTE"
  shows "flows g t S ps [] c'"
proof -
  let ?q = "packet_new cmd a b d"
  have "p_command ?q \<noteq> WRTE" using assms(3) by (simp add: packet_new_def)
  then have "flows g t S ps [?q] c"
    using assms(1) by (auto simp: flows_def piped_reply)
  from flows_write [OF this] assms(2) show ?thesis by (simp add: conn_packet_def)
qed

lemma flows_take:
  assumes "flows g t S ps E c"
    and "\<And>i s. (i, s) \<in> set (cn_streams c) \<Longrightarrow> passes p i s"
  shows "flows g t S (ps @ [p]) E c"
proof -
  from assms(1) obtain qs where "conn_inv t c" "(tp_in (cn_tls c), cn_input c, cn_max c) = g"
    "within S c"
    "written (tp_out (cn_tls c)) qs"
    "\<And>q. q \<in> set (qs @ E) \<Longrightarrow> p_command q = WRTE \<Longrightarrow> p_arg0 q < cn_next c"
    "\<And>i s. (i, s) \<in> set (cn_streams c) \<Longrightarrow> piped S ps (qs @ E) i s" by (rule flowsE) blast
  then show ?thesis by (intro flowsI [where qs = qs]) (auto intro: piped_take dest: assms(2))
qed

lemma flows_update:
  assumes "flows g t S ps E c" and "conn_inv t (update_stream i s' c)" and "bt_get (cn_streams c) i = Some s"
    and "\<And>qs. piped S ps qs i s \<Longrightarrow> piped S ps' qs i s'"
    and "\<And>qs j r. j \<noteq> i \<Longrightarrow> piped S ps qs j r \<Longrightarrow> piped S ps' qs j r"
  shows "flows g t S ps' E (update_stream i s' c)"
proof -
  from assms(1) obtain qs where qs: "(tp_in (cn_tls c), cn_input c, cn_max c) = g"
    "within S c" "written (tp_out (cn_tls c)) qs"
    "\<And>q. q \<in> set (qs @ E) \<Longrightarrow> p_command q = WRTE \<Longrightarrow> p_arg0 q < cn_next c"
    "\<And>i s. (i, s) \<in> set (cn_streams c) \<Longrightarrow> piped S ps (qs @ E) i s" by (rule flowsE) blast
  have "(i, s) \<in> set (cn_streams c)" using assms(3) by (rule bt_get_SomeD)
  then have new: "piped S ps' (qs @ E) i s'" using qs(5) assms(4) by blast
  have "piped S ps' (qs @ E) j r" if "(j, r) \<in> set (bt_update i s' (cn_streams c))" for j r
    using that qs(5) new assms(5) by (fastforce simp: bt_update_def split: if_splits)
  with assms(2) qs(1-4) show ?thesis
    by (intro flowsI [where qs = qs]) (auto simp: update_stream_def)
qed

lemma flows_insert:
  assumes "flows g t S ps E c" and "conn_allocate c = (Inr i, d)" and "given S src" and "owner_ok t src"
    and "if forwarded src then opening \<noteq> None
         else opening = None \<and> ps \<noteq> [] \<and> opens r (last ps) \<and> opened_with S (p_data (last ps)) src"
  shows "flows g t S ps E (insert_stream i (new_stream r src opening) d)"
proof -
  let ?s = "new_stream r src opening"
  from assms(1) obtain qs where qs: "(tp_in (cn_tls c), cn_input c, cn_max c) = g"
    "within S c" "written (tp_out (cn_tls c)) qs"
    "\<And>q. q \<in> set (qs @ E) \<Longrightarrow> p_command q = WRTE \<Longrightarrow> p_arg0 q < cn_next c"
    "\<And>i s. (i, s) \<in> set (cn_streams c) \<Longrightarrow> piped S ps (qs @ E) i s" by (rule flowsE) blast
  have d: "i = cn_next c" "d = c\<lparr>cn_next := cn_next c + 1\<rparr>" "cn_next c \<noteq> - 1"
    using assms(2) by (auto simp: conn_allocate_def split: if_splits)
  have "1 + cn_next c \<noteq> 0" using d(3) by (auto simp: add_eq_0_iff)
  then have lt: "cn_next c < cn_next c + 1" by (simp add: word_less_nat_alt unatSuc add.commute)
  have "p_arg0 q \<noteq> i" if "q \<in> set (qs @ E)" "p_command q = WRTE" for q
    using qs(4) [OF that] d(1) by auto
  then have "data_from i (qs @ E) = []" "sends i (qs @ E) = 0" by (auto intro: data_from_other sends_other)
  then have new: "piped S ps (qs @ E) i ?s"
    using assms(3,5)
    by (intro pipedI [of ps ps "[]" S src])
      (auto simp: new_stream_def stream_delivered_def stream_todo_def undelivered_def began_def split: if_splits)
  have "conn_inv t (insert_stream i ?s d)"
    using allocate_insert_step [OF assms(2,4)] flows_inv [OF assms(1)] by (auto intro: conn_step_inv)
  moreover have "piped S ps (qs @ E) j s" if "(j, s) \<in> set (bt_insert i ?s (cn_streams c))" for j s
    using that qs(5) new set_bt_insert_subset [of i ?s "cn_streams c"] by fastforce
  ultimately show ?thesis
    using qs(1-4) d(2) lt
    by (intro flowsI [where qs = qs]) (auto simp: insert_stream_def intro: less_trans)
qed

subsection \<open>Handling packets\<close>

lemma given_owner: "within S c \<Longrightarrow> conn_open name c = (Inr src, d) \<Longrightarrow> given S src \<and> \<not> forwarded src
    \<and> opened_with S name src"
  using conn_open_given conn_open_opened by blast

lemma handle_open_flows:
  assumes f: "flows g t S ps [] c" and h: "handle_open (taped sk) p c = (Inr u, c')" and p: "p_command p = OPEN"
  shows "flows g t S (ps @ [p]) [] c'"
proof -
  have cmds: "OPEN \<noteq> WRTE" "CLSE \<noteq> WRTE" "OKAY \<noteq> WRTE"
    by (simp_all add: command_values)
  from h have "\<not> list_ex (\<lambda>s. st_remote s = p_arg0 p) (bt_values (cn_streams c))"
    by (auto simp: handle_open_def split: if_splits)
  then have "passes p i s" if "(i, s) \<in> set (cn_streams c)" for i s
    using that p by (auto simp: passes_def opens_def command_values list_ex_iff bt_values_def)
  then have f1: "flows g t S (ps @ [p]) [] c" by (rule flows_take [OF f])
  obtain r c1 where o: "conn_open (p_data p) c = (r, c1)" by fastforce
  have "conn_inv t c1" using conn_open_step [of t c "p_data p"] o flows_inv [OF f] by (auto intro: conn_step_inv)
  then have f2: "flows g t S (ps @ [p]) [] c1" 
    using flows_keeps [OF f1, of c1] conn_open_keeps [of c "p_data p"] o by simp
  show ?thesis
  proof (cases "MAX_STREAMS \<le> length (cn_streams c)")
    case True
    with h have "conn_packet (taped sk) CLSE 0 (p_arg0 p) [] c = (Inr u, c')"
      by (auto simp: handle_open_def split: if_splits)
    from flows_packet [OF f1 this cmds(2)] show ?thesis .
  next
    case few: False
    show ?thesis
    proof (cases r)
      case (Inl e)
      with h o few have "conn_packet (taped sk) CLSE 0 (p_arg0 p) [] c1 = (Inr u, c')"
        by (auto simp: handle_open_def split: if_splits)
      from flows_packet [OF f2 this cmds(2)] show ?thesis .
    next
      case (Inr src)
      with h o few obtain i c2 where al: "conn_allocate c1 = (Inr i, c2)"
        and ok: "conn_packet (taped sk) OKAY i (p_arg0 p) []
            (insert_stream i (new_stream (p_arg0 p) src None) c2) = (Inr u, c')"
        by (auto simp: handle_open_def split: if_splits prod.splits sum.splits)
      have "within S c" "cn_transport c = t" using f by (auto simp: flows_def conn_inv_def)
      then have "given S src \<and> \<not> forwarded src \<and> opened_with S (p_data p) src" "owner_ok t src"
        using given_owner [of S c "p_data p" src c1] o Inr conn_open_owner [of "p_data p" c src c1] by auto
      then have "flows g t S (ps @ [p]) [] (insert_stream i (new_stream (p_arg0 p) src None) c2)"
        using p by (intro flows_insert [OF f2 al]) (auto simp: opens_def)
      from flows_packet [OF this ok cmds(3)] show ?thesis .
    qed
  qed
qed

lemma passes_other:
  "p_command p \<noteq> OPEN \<Longrightarrow> p_arg1 p \<noteq> i \<Longrightarrow> passes p i s"
  "p_command p = CLSE \<Longrightarrow> passes p i s"
  by (auto simp: passes_def opens_def command_values)

lemma not_a_key: "bt_get m i = None \<Longrightarrow> (j, s) \<in> set m \<Longrightarrow> i \<noteq> j"
  by (force simp: bt_get_def map_of_eq_None_iff)

lemma handle_okay_flows:
  assumes f: "flows g t S ps [] c" and h: "handle_okay p c = (Inr u, c')" and p: "p_command p = OKAY"
  shows "flows g t S (ps @ [p]) [] c'"
proof -
  have inv: "conn_inv t c'"
    using handle_okay_step [of t c p] h flows_inv [OF f] by (auto intro: conn_step_inv)
  have other: "p_command p \<noteq> OPEN" using p by (simp add: command_values)
  show ?thesis
  proof (cases "bt_get (cn_streams c) (p_arg1 p)")
    case None
    with h have "c' = c" by (simp add: handle_okay_def)
    with f not_a_key [OF None] show ?thesis by (auto intro!: flows_take passes_other(1) [OF other])
  next
    case (Some s)
    let ?o = "s\<lparr>st_opening := None, st_remote := p_arg0 p\<rparr>" and ?a = "s\<lparr>st_waiting := False\<rparr>"
    from h Some consider "c' = update_stream (p_arg1 p) ?o c" "st_opening s \<noteq> None"
      | "c' = update_stream (p_arg1 p) ?a c" "st_opening s = None" "st_waiting s"
      by (auto simp: handle_okay_def Let_def split: if_splits)
    then show ?thesis
    proof cases
      case 1
      show ?thesis
        unfolding 1(1)
        by (rule flows_update [OF f inv [unfolded 1(1)] Some])
          (use 1(2) p in \<open>auto intro: piped_opened piped_take passes_other(1) [OF other]\<close>)
    next
      case 2
      show ?thesis
        unfolding 2(1)
        by (rule flows_update [OF f inv [unfolded 2(1)] Some])
          (use 2(2,3) p in \<open>auto intro: piped_acked piped_take passes_other(1) [OF other]\<close>)
    qed
  qed
qed

lemma handle_close_flows:
  assumes f: "flows g t S ps [] c" and h: "handle_close now p c = (Inr u, c')" and p: "p_command p = CLSE"
  shows "flows g t S (ps @ [p]) [] c'"
proof -
  have inv: "conn_inv t c'"
    using handle_close_step [of t c now p] h flows_inv [OF f] by (auto intro: conn_step_inv)
  show ?thesis
  proof (cases "bt_get (cn_streams c) (p_arg1 p)")
    case None
    with h have "c' = c" by (simp add: handle_close_def)
    with f show ?thesis by (auto intro!: flows_take passes_other(2) [OF p])
  next
    case (Some s)
    with h have c': "c' = update_stream (p_arg1 p) (s\<lparr>st_closing := Some now\<rparr>) c"
      by (auto simp: handle_close_def split: if_splits)
    show ?thesis
      unfolding c'
      by (rule flows_update [OF f inv [unfolded c'] Some])
        (auto intro: piped_same [OF piped_take [OF _ passes_other(2) [OF p]]] piped_take passes_other(2) [OF p])
  qed
qed

lemma handle_write_flows:
  assumes f: "flows g t S ps [] c" and h: "handle_write (taped sk) p c = (Inr u, c')" and cmd: "p_command p = WRTE"
  shows "flows g t S (ps @ [p]) [] c'"
proof -
  have cmds: "CLSE \<noteq> WRTE" "OKAY \<noteq> WRTE"
    by (simp_all add: command_values)
  have inv: "conn_inv t c'"
    using handle_write_step [of t c "taped sk" p] h flows_inv [OF f] by (auto intro: conn_step_inv)
  have ok: "streams_ok t (cn_next c) (cn_streams c)" using flows_inv [OF f] by (simp add: conn_inv_def)
  have other: "p_command p \<noteq> OPEN" using cmd by (simp add: command_values)
  show ?thesis
  proof (cases "bt_get (cn_streams c) (p_arg1 p)")
    case None
    then have "flows g t S (ps @ [p]) [] c"
      by (intro flows_take [OF f] passes_other(1) [OF other] not_a_key)
    moreover have "conn_packet (taped sk) CLSE (p_arg1 p) (p_arg0 p) [] c = (Inr u, c')"
      using h None by (auto simp: handle_write_def split: if_splits)
    ultimately show ?thesis by (rule flows_packet [OF _ _ cmds(1)])
  next
    case (Some s)
    show ?thesis
    proof (cases "p_data p = []")
      case True
      then have "flows g t S (ps @ [p]) [] c"
        using cmd by (intro flows_take [OF f]) (simp add: passes_def opens_def command_values)
      moreover have "conn_packet (taped sk) OKAY (p_arg1 p) (p_arg0 p) [] c = (Inr u, c')"
        using h Some True by (auto simp: handle_write_def split: if_splits)
      ultimately show ?thesis by (rule flows_packet [OF _ _ cmds(2)])
    next
      case False
      with h Some obtain s' where e: "stream_enqueue (p_data p) s = (Inr (), s')"
        and c': "c' = update_stream (p_arg1 p) s' c" and opened: "st_opening s = None"
        by (auto simp: handle_write_def split: if_splits prod.splits)
      have "stream_ok s" using streams_ok_get [OF ok Some] by simp
      note enq = stream_enqueue_ok [OF e this False]
      have same: "s' = s\<lparr>st_pending := st_pending s', st_offset := st_offset s'\<rparr>"
        using e by (auto simp: stream_enqueue_def split: if_splits)
      have "piped S (ps @ [p]) qs (p_arg1 p) s'" if "piped S ps qs (p_arg1 p) s" for qs
        by (rule piped_data [OF that cmd refl opened same]) (use enq(3,4) in simp)
      then show ?thesis
        unfolding c'
        by (intro flows_update [OF f inv [unfolded c'] Some])
          (auto intro: piped_take passes_other(1) [OF other])
    qed
  qed
qed

lemma conn_handle_flows:
  "flows g t S ps [] c \<Longrightarrow> conn_handle (taped sk) now p c = (Inr u, c') \<Longrightarrow> flows g t S (ps @ [p]) [] c'"
  by (auto simp: conn_handle_def command_values split: if_splits
      intro: handle_open_flows handle_okay_flows handle_write_flows handle_close_flows)

lemma flows_input: "flows (b, x, l) t S ps E c \<Longrightarrow> flows (b, y, l) t S ps E (c\<lparr>cn_input := y\<rparr>)"
  by (simp add: flows_def)

lemma parse_loop_flows:
  "parse_loop (taped sk) now input c = (Inr u, c') \<Longrightarrow> flows (b, x, l) t S ps [] c \<Longrightarrow>
    flows (b, snd (host_packets l input), l) t S (ps @ fst (host_packets l input)) [] c'"
proof (induction "taped sk" now input c arbitrary: ps x rule: parse_loop.induct)
  case (1 now input c)
  have l: "cn_max c = l" using "1.prems"(2) by (simp add: flows_def)
  note hp = host_packets.simps [of l input]
  show ?case
  proof (cases "next_packet l input")
    case Wait
    with "1.prems"(1) l have "c' = c\<lparr>cn_input := input\<rparr>" by (simp add: parse_loop.simps [of _ _ input])
    with flows_input [OF "1.prems"(2), of input] Wait show ?thesis by (simp add: hp)
  next
    case (Bad e)
    with "1.prems"(1) l show ?thesis by (simp add: parse_loop.simps [of _ _ input])
  next
    case (Got p rest)
    with "1.prems"(1) l obtain d where d: "conn_handle (taped sk) now p (c\<lparr>cn_input := rest\<rparr>) = (Inr (), d)"
        and loop: "parse_loop (taped sk) now rest d = (Inr u, c')"
      by (auto simp: parse_loop.simps [of _ _ input] sbind_eq_Inr_iff)
    have "flows (b, rest, l) t S (ps @ [p]) [] d"
      using conn_handle_flows [OF flows_input d] "1.prems"(2) .
    from "1.hyps" [OF _ d loop this] Got l show ?thesis by (auto simp: hp split: prod.splits)
  qed
qed

subsection \<open>Serving the streams\<close>

lemma flush_pending_unread:
  assumes "flush_pending_loop w src ds off = (r, src', ds', off')"
  shows "unread src' = unread src \<and> owner_of src' = owner_of src"
  using flush_pending_loop_keeps [OF assms, of unread] flush_pending_loop_keeps [OF assms, of owner_of]
    source_write_unread by blast

lemma service_read_unread:
  assumes "service_read n i s = (s', ps, cl, w)"
  shows "unread (st_source s) = data_from i ps @ unread (st_source s')
    \<and> owner_of (st_source s') = owner_of (st_source s) \<and> (\<forall>p \<in> set ps. p_arg0 p = i)"
proof (cases "source_read n (st_source s)")
  case (Pair r src)
  from source_read_unread [OF Pair] assms Pair show ?thesis
    by (auto simp: service_read_def Let_def packet_new_def split: sum.splits list.splits)
qed

lemma service_stream_unread:
  assumes "service_stream mx q now i s = (s', ps, cl, w)"
  shows "unread (st_source s) = data_from i ps @ unread (st_source s')
    \<and> owner_of (st_source s') = owner_of (st_source s) \<and> (\<forall>p \<in> set ps. p_arg0 p = i)"
proof -
  obtain r s1 where f: "stream_flush_pending s = (r, s1)" by fastforce
  have u1: "unread (st_source s1) = unread (st_source s)" "owner_of (st_source s1) = owner_of (st_source s)"
    using f by (auto simp: stream_flush_pending_def split: prod.splits dest!: flush_pending_unread)
  obtain s2 ws c2 w2 where rd: "service_read (min mx CHUNK) i s1 = (s2, ws, c2, w2)"
    using prod_cases4 by blast
  have ack: "p_command (packet_new OKAY a b d) \<noteq> WRTE" "p_arg0 (packet_new x a b d) = a" for x a b d
    by (simp_all add: packet_new_def command_values)
  show ?thesis
    using assms f u1 service_read_unread [OF rd] rd ack
    by (auto simp: service_stream_def Let_def split: if_splits sum.splits option.splits)
qed

lemma piped_other:
  assumes "\<And>p. p \<in> set E \<Longrightarrow> p_arg0 p \<noteq> i"
  shows "piped S ps (qs @ E) i s = piped S ps qs i s"
proof -
  have "data_from i E = []" "sends i E = 0" using assms by (auto intro: data_from_other sends_other)
  then show ?thesis by (simp add: piped_def)
qed

lemma piped_stream:
  assumes "piped S ps qs i s" and "service_stream mx q now i s = (s', ev, cl, w)" and "stream_ok s"
  shows "piped S ps (qs @ ev) i s'"
proof -
  note ok = service_stream_ok [OF assms(2,3)] service_stream_unread [OF assms(2)]
  have cmd: "sends i [packet_new OKAY a b d] = 0" "sends i [packet_new WRTE i b d] = 1" for a b d
    by (simp_all add: packet_new_def command_values)
  from service_stream_sends [OF assms(3,2)] obtain as ws where
    ev: "ev = as @ ws" "as = [] \<or> as = [packet_new OKAY i (st_remote s) []]"
    and ws: "ws \<noteq> [] \<longrightarrow> (\<exists>d. ws = [packet_new WRTE i (st_remote s) d])
      \<and> \<not> st_waiting s \<and> st_waiting s' \<and> st_opening s = None"
    "ws = [] \<longrightarrow> st_waiting s' = st_waiting s" by (elim exE conjE) (rule that, assumption, auto split: if_splits)
  have "sends i as = 0" using ev(2) cmd(1) by (elim disjE) simp_all
  then have "sends i ev = of_bool (ws \<noteq> [])" using ev(1) ws(1) cmd(2) by (cases "ws = []") (auto simp del: count_simps(6))
  moreover have "st_waiting s' = (st_waiting s \<or> ws \<noteq> [])" "ws \<noteq> [] \<longrightarrow> \<not> st_waiting s \<and> st_opening s = None"
    using ws by auto
  moreover from assms(1) obtain pre post src where a: "ps = pre @ post" "given S src" "owner_of src = owner_of (st_source s)"
    "began S pre post i s src" "acks i post + of_bool (st_waiting s) = sends i qs"
    "stream_delivered s @ stream_todo s = source_sent src @ data_to i post"
    "unread src = data_from i qs @ unread (st_source s)" by (rule pipedE)
  ultimately show ?thesis
    using ok by (intro pipedI [of _ pre post S src]) (auto simp: began_def forwarded_def split: if_splits)
qed

lemma service_streams_piped:
  "service_streams mx q now m = (m', ev, ids, w) \<Longrightarrow> distinct (bt_keys m) \<Longrightarrow>
    (\<And>i s. (i, s) \<in> set m \<Longrightarrow> stream_ok s \<and> piped S ps qs i s) \<Longrightarrow>
    (\<forall>(i, s) \<in> set m'. piped S ps (qs @ ev) i s) \<and> (\<forall>p \<in> set ev. p_arg0 p \<in> set (bt_keys m))"
proof (induction mx q now m arbitrary: m' ev ids w qs rule: service_streams.induct)
  case (2 mx q now i s m)
  obtain s1 e1 cl1 w1 where s1: "service_stream mx q now i s = (s1, e1, cl1, w1)"
    using prod_cases4 by blast
  obtain m1 e2 ids2 w2 where m1: "service_streams mx q now m = (m1, e2, ids2, w2)"
    using prod_cases4 by blast
  have m': "m' = (i, s1) # m1" "ev = e1 @ e2" using "2.prems"(1) s1 m1 by auto
  have i: "i \<notin> set (bt_keys m)" "distinct (bt_keys m)" using "2.prems"(2) by (simp_all add: bt_keys_def)
  have a1: "p_arg0 p = i" if "p \<in> set e1" for p using service_stream_unread [OF s1] that by blast
  have p1: "piped S ps (qs @ e1) i s1" using "2.prems"(3) [of i s] by (auto intro: piped_stream [OF _ s1])
  have "stream_ok r \<and> piped S ps (qs @ e1) j r" if "(j, r) \<in> set m" for j r
  proof -
    have "j \<noteq> i" using that i(1) by (force simp: bt_keys_def)
    then show ?thesis using "2.prems"(3) [of j r] that a1 by (auto simp: piped_other)
  qed
  from "2.IH" [OF s1 [symmetric] refl refl refl m1 i(2) this]
  have rest: "\<forall>(j, r) \<in> set m1. piped S ps ((qs @ e1) @ e2) j r" "\<forall>p \<in> set e2. p_arg0 p \<in> set (bt_keys m)"
    by blast+
  have "piped S ps ((qs @ e1) @ e2) i s1" using rest(2) i(1) p1 by (subst piped_other) auto
  with rest a1 m' show ?case by (auto simp: bt_keys_def)
qed simp

lemma close_streams_flows:
  "close_streams (taped sk) ids w c = (Inr x, c') \<Longrightarrow> flows g t S ps [] c \<Longrightarrow> flows g t S ps [] c'"
proof (induction "taped sk" ids w c rule: close_streams.induct)
  case (2 i ids w c)
  show ?case
  proof (cases "bt_get (cn_streams c) i")
    case None
    with 2 show ?thesis by simp
  next
    case (Some s)
    let ?c = "c\<lparr>cn_streams := bt_remove i (cn_streams c)\<rparr>"
    obtain c1 where p: "conn_packet (taped sk) CLSE i (st_remote s) [] ?c = (Inr (), c1)"
      and rest: "close_streams (taped sk) ids True (drop_in (st_source s) c1) = (Inr x, c')"
      using "2.prems"(1) Some by (auto simp: Let_def split: prod.splits sum.splits)
    have inv: "conn_inv t ?c" "owner_ok t (st_source s)"
      using flows_inv [OF "2.prems"(2)] Some streams_ok_remove streams_ok_get
      by (auto simp: conn_inv_def)
    have "flows g t S ps [] ?c"
      using "2.prems"(2) by (rule flowsE) (rule flowsI [OF inv(1)], auto simp: bt_remove_def)
    then have f1: "flows g t S ps [] c1" by (rule flows_packet [OF _ p]) (simp add: command_values)
    then have "conn_inv t (drop_in (st_source s) c1)"
      using drop_in_step [OF inv(2)] flows_inv by (blast intro: conn_step_inv)
    with f1 have "flows g t S ps [] (drop_in (st_source s) c1)" by (rule flows_keeps [OF _ drop_in_keeps])
    with "2.hyps"(2) [OF Some p [symmetric] refl] rest show ?thesis by simp
  qed
qed simp

lemma conn_services_flows:
  assumes f: "flows g t S ps [] c" and h: "conn_services (taped sk) now c = (Inr w, c')"
  shows "flows g t S ps [] c'"
proof -
  obtain m ev ids w1 where s: "service_streams (cn_max c) (sk_queued (taped sk) (cn_tls c)) now (cn_streams c)
      = (m, ev, ids, w1)" using prod_cases4 by blast
  let ?c = "c\<lparr>cn_streams := m\<rparr>"
  from h s obtain d where d: "write_packets (taped sk) ev ?c = (Inr (), d)"
    and cl: "close_streams (taped sk) ids w1 d = (Inr w, c')"
    by (auto simp: conn_services_def sbind_eq_Inr_iff)
  from f obtain qs where qs: "conn_inv t c" "(tp_in (cn_tls c), cn_input c, cn_max c) = g"
    "within S c" "written (tp_out (cn_tls c)) qs"
    "\<And>q. q \<in> set (qs @ []) \<Longrightarrow> p_command q = WRTE \<Longrightarrow> p_arg0 q < cn_next c"
    "\<And>i s. (i, s) \<in> set (cn_streams c) \<Longrightarrow> piped S ps (qs @ []) i s" by (rule flowsE) blast
  have ok: "streams_ok t (cn_next c) (cn_streams c)" using qs(1) by (simp add: conn_inv_def)
  have "\<And>i s. (i, s) \<in> set (cn_streams c) \<Longrightarrow> stream_ok s \<and> piped S ps qs i s"
    using ok qs(6) by (auto simp: streams_ok_def)
  from service_streams_piped [OF s _ this] ok
  have new: "\<forall>(i, s) \<in> set m. piped S ps (qs @ ev) i s" "\<forall>p \<in> set ev. p_arg0 p \<in> set (bt_keys (cn_streams c))"
    by (auto simp: streams_ok_def bt_ok_distinct)
  have "p_arg0 p < cn_next c" if "p \<in> set ev" for p
    using new(2) that ok by (fastforce simp: streams_ok_def bt_keys_def)
  moreover have "conn_inv t ?c" using service_streams_ok [OF s ok] qs(1) by (simp add: conn_inv_def)
  ultimately have "flows g t S ps ev ?c"
    using qs(2-5) new(1) by (intro flowsI [where qs = qs]) auto
  from close_streams_flows [OF cl flows_writes [OF this d]] show ?thesis .
qed

subsection \<open>Reverse connections and the session\<close>

lemma accept_all_socks:
  "accept_all m = (m', ss) \<Longrightarrow>
    listener_socks m' \<subseteq> listener_socks m \<and> (\<forall>(k, target) \<in> set ss. k \<in> listener_socks m)"
proof (induction m arbitrary: m' ss)
  case (Cons e m)
  obtain k r where e: "e = (k, r)" by fastforce
  obtain a r' where a: "accept_one r = (a, r')" by fastforce
  obtain m1 ss1 where m1: "accept_all m = (m1, ss1)" by fastforce
  have "desc_socks (rv_listener r') \<subseteq> desc_socks (rv_listener r)"
    "\<forall>x. a = Some x \<longrightarrow> x \<in> desc_socks (rv_listener r)"
    using a by (auto simp: accept_one_def desc_socks_def split: list.splits)
  with Cons.IH [OF m1] Cons.prems e a m1 show ?case by (cases a) auto
qed simp

lemma open_reverses_flows:
  "open_reverses (taped sk) now ss c = (Inr u, c') \<Longrightarrow> flows g t S ps [] c \<Longrightarrow>
    (\<forall>(k, target) \<in> set ss. k \<in> handed S) \<Longrightarrow> flows g t S ps [] c'"
proof (induction "taped sk" now ss c rule: open_reverses.induct)
  case (2 now s target ss c)
  show ?case
  proof (cases "MAX_STREAMS \<le> length (cn_streams c)")
    case True
    with 2 show ?thesis by simp
  next
    case False
    let ?s = "new_stream 0 (SSocket s None) (Some now)"
    from "2.prems"(1) False obtain i d e where al: "conn_allocate c = (Inr i, d)"
      and p: "conn_packet (taped sk) OPEN i 0 (str_bytes (target @ [NUL])) (insert_stream i ?s d) = (Inr (), e)"
      and rest: "open_reverses (taped sk) now ss e = (Inr u, c')"
      by (auto simp: sbind_eq_Inr_iff)
    have "flows g t S ps [] (insert_stream i ?s d)"
      using "2.prems"(3) by (intro flows_insert [OF "2.prems"(2) al])
        (auto simp: given_def owner_ok_def forwarded_def)
    then have "flows g t S ps [] e" by (rule flows_packet [OF _ p]) (simp add: command_values)
    with "2.hyps" [OF False al p rest] "2.prems"(3) show ?thesis by simp
  qed
qed simp

lemma reverse_accept_flows:
  assumes f: "flows g t S ps [] c" and h: "reverse_accept (taped sk) now c = (Inr w, c')"
  shows "flows g t S ps [] c'"
proof (cases "MAX_STREAMS \<le> length (cn_streams c)")
  case True
  with assms show ?thesis by (simp add: reverse_accept_def)
next
  case False
  obtain rs ss where a: "accept_all (cn_reverse c) = (rs, ss)" by fastforce
  let ?c = "c\<lparr>cn_reverse := rs\<rparr>"
  from h a False have o: "open_reverses (taped sk) now ss ?c = (Inr (), c')"
    by (auto simp: reverse_accept_def sbind_eq_Inr_iff)
  note keys = accept_all_keys [OF a]
  then have "length rs = length (cn_reverse c)" by (metis length_bt_keys)
  with keys flows_inv [OF f] have inv: "conn_inv t ?c" by (simp add: conn_inv_def bt_ok_def)
  note acc = accept_all_socks [OF a]
  have "keeps c ?c" using acc by (auto simp: keeps_def within_def answers_def)
  then have "flows g t S ps [] ?c" by (rule flows_keeps [OF f _ inv])
  moreover have "within S c" using f by (simp add: flows_def)
  then have "\<forall>(k, target) \<in> set ss. k \<in> handed S" using acc unfolding within_def by blast
  ultimately show ?thesis by (rule open_reverses_flows [OF o])
qed

lemma flush_tolerant_flows:
  assumes "flows g t S ps [] c" and "flush_tolerant (taped sk) c = (Inr u, c')"
  shows "flows g t S ps [] c'"
proof -
  from assms(2) obtain o1 where c': "c' = c\<lparr>cn_tls := (cn_tls c)\<lparr>tp_tls := o1\<rparr>\<rparr>"
    by (auto simp: flush_tolerant_def split: prod.splits)
  from assms(1) show ?thesis unfolding c' by (simp add: flows_def)
qed

text \<open>Between two turns: everything read so far is parsed as far as it goes.\<close>

definition session_flows :: "nat \<Rightarrow> u64 \<Rightarrow> answer set \<Rightarrow> 'o tape connection \<Rightarrow> bool" where
  "session_flows l t S c \<longleftrightarrow>
     (let b = tp_in (cn_tls c); (ps, rest) = host_packets l b in flows (b, rest, l) t S ps [] c)"

lemma session_flowsI:
  "flows (b, rest, l) t S ps [] c \<Longrightarrow> host_packets l b = (ps, rest) \<Longrightarrow> session_flows l t S c"
  by (simp add: session_flows_def flows_def)

lemma session_flowsE:
  assumes "session_flows l t S c"
  obtains b ps rest where "flows (b, rest, l) t S ps [] c" and "host_packets l b = (ps, rest)"
    and "b = tp_in (cn_tls c)" and "rest = cn_input c"
proof -
  obtain ps rest where h: "host_packets l (tp_in (cn_tls c)) = (ps, rest)" by fastforce
  with assms have "flows (tp_in (cn_tls c), rest, l) t S ps [] c" by (simp add: session_flows_def)
  with h that show thesis by (auto simp: flows_def)
qed

lemma read_burst_flows:
  "read_burst (taped sk) now n w c = Some (Inr x, c') \<Longrightarrow> session_flows l t S c \<Longrightarrow> session_flows l t S c'"
proof (induction "taped sk" now n w c rule: read_burst.induct)
  case (1 now w c)
  then show ?case by simp
next
  case (2 now n w c)
  from "2.prems"(2) obtain b ps rest where f: "flows (b, rest, l) t S ps [] c"
    and hp: "host_packets l b = (ps, rest)" and b: "b = tp_in (cn_tls c)" "rest = cn_input c"
    by (rule session_flowsE)
  obtain r o1 where rd: "sk_read (taped sk) CHUNK (cn_tls c) = Some (r, o1)"
    using "2.prems"(1) by (cases "sk_read (taped sk) CHUNK (cn_tls c)") auto
  then have o1: "tp_out o1 = tp_out (cn_tls c)"
    "tp_in o1 = (case r of Inr a \<Rightarrow> b @ a | Inl _ \<Rightarrow> b)"
    using b by auto
  show ?case
  proof (cases r)
    case (Inl e)
    with o1 f have "flows (b, rest, l) t S ps [] (c\<lparr>cn_tls := o1\<rparr>)" by (simp add: flows_def)
    then have "session_flows l t S (c\<lparr>cn_tls := o1\<rparr>)" by (rule session_flowsI [OF _ hp])
    with Inl "2.prems"(1) rd show ?thesis by (auto split: if_splits)
  next
    case (Inr a)
    let ?c = "c\<lparr>cn_tls := o1, cn_input := cn_input c @ a\<rparr>"
    have f1: "flows (b @ a, rest @ a, l) t S ps [] ?c"
      using f o1 Inr b by (simp add: flows_def)
    show ?thesis
    proof (cases "a = []")
      case True
      with f o1 Inr have "flows (b, rest, l) t S ps [] (c\<lparr>cn_tls := o1\<rparr>)" by (simp add: flows_def)
      then have "session_flows l t S (c\<lparr>cn_tls := o1\<rparr>)" by (rule session_flowsI [OF _ hp])
      with True Inr "2.prems"(1) rd show ?thesis by (simp del: taped_simps)
    next
      case False
      with "2.prems"(1) rd Inr obtain d where
        short: "length (cn_input c @ a) \<le> MAX_PAYLOAD + 24 + CHUNK"
        and p: "conn_parse (taped sk) now ?c = (Inr (), d)"
        and go: "read_burst (taped sk) now n True d = Some (Inr x, c')"
        by (auto simp: Let_def split: if_splits prod.splits sum.splits)
      from p have "parse_loop (taped sk) now (rest @ a) ?c = (Inr (), d)" using b by (simp add: conn_parse_def)
      from parse_loop_flows [OF this f1] host_packets_append [OF hp, of a]
      have "session_flows l t S d" by (intro session_flowsI) auto
      then show ?thesis
        using "2.hyps" [OF rd refl Inr refl False refl] short p go by auto
    qed
  qed
qed

lemma session_flows_step:
  assumes "session_flows l t S c"
    and "\<And>g ps. flows g t S ps [] c \<Longrightarrow> flows g t S ps [] c'"
  shows "session_flows l t S c'"
  using assms(1) by (rule session_flowsE) (auto intro: session_flowsI dest: assms(2))

lemma conn_turn_flows:
  assumes "conn_turn (taped sk) now polled c = Some (Inr again, c')" and "session_flows l t S c"
  shows "session_flows l t S c'"
proof -
  from assms(1) obtain x c1 where b: "read_burst (taped sk) now 16 False c = Some (Inr x, c1)"
    by (auto simp: conn_turn_def split: option.splits sum.splits prod.splits)
  have s1: "session_flows l t S c1" by (rule read_burst_flows [OF b assms(2)])
  show ?thesis
  proof (cases x)
    case None
    with assms(1) b s1 show ?thesis by (simp add: conn_turn_def)
  next
    case (Some work)
    with assms(1) b obtain w1 c2 w2 c3 u where
      1: "conn_services (taped sk) now c1 = (Inr w1, c2)" and 2: "reverse_accept (taped sk) now c2 = (Inr w2, c3)"
      and 3: "flush_tolerant (taped sk) c3 = (Inr u, c')"
      by (auto simp: conn_turn_def sbind_eq_Inr_iff split: if_splits sum.splits)
    from s1 show ?thesis
      by (rule session_flows_step)
        (blast intro: conn_services_flows [OF _ 1] reverse_accept_flows [OF _ 2] flush_tolerant_flows [OF _ 3])
  qed
qed

lemma conn_loop_flows:
  "conn_loop (taped sk) turns c = Some (Inr u, c') \<Longrightarrow> session_flows l t S c \<Longrightarrow> session_flows l t S c'"
proof (induction "taped sk" turns c rule: conn_loop.induct)
  case (2 cancelled now polled turns c)
  show ?case
  proof (cases cancelled)
    case True
    with "2.prems" show ?thesis by simp
  next
    case False
    with "2.prems"(1) obtain again d where t: "conn_turn (taped sk) now polled c = Some (Inr again, d)"
      and go: "if again then conn_loop (taped sk) turns d = Some (Inr u, c') else c' = d"
      by (auto split: option.splits sum.splits prod.splits if_splits)
    have "session_flows l t S d" by (rule conn_turn_flows [OF t "2.prems"(2)])
    with "2.hyps" [OF False t refl refl] go show ?thesis by (cases again) auto
  qed
qed simp

section \<open>Recording changes nothing\<close>

definition untape :: "'o tape connection \<Rightarrow> 'o connection" where
  "untape c = retls (tp_tls (cn_tls c)) c"

lemma untape_simps [simp]:
  "cn_tls (untape c) = tp_tls (cn_tls c)" "cn_broker (untape c) = cn_broker c"
  "cn_transport (untape c) = cn_transport c" "cn_max (untape c) = cn_max c"
  "cn_streams (untape c) = cn_streams c" "cn_reverse (untape c) = cn_reverse c"
  "cn_next (untape c) = cn_next c" "cn_input (untape c) = cn_input c"
  "(untape c)\<lparr>cn_tls := tp_tls x\<rparr> = untape (c\<lparr>cn_tls := x\<rparr>)"
  "(untape c)\<lparr>cn_broker := b\<rparr> = untape (c\<lparr>cn_broker := b\<rparr>)"
  "(untape c)\<lparr>cn_streams := m\<rparr> = untape (c\<lparr>cn_streams := m\<rparr>)"
  "(untape c)\<lparr>cn_reverse := r\<rparr> = untape (c\<lparr>cn_reverse := r\<rparr>)"
  "(untape c)\<lparr>cn_next := n\<rparr> = untape (c\<lparr>cn_next := n\<rparr>)"
  "(untape c)\<lparr>cn_input := i\<rparr> = untape (c\<lparr>cn_input := i\<rparr>)"
  by (simp_all add: untape_def retls_def)

abbreviation seen :: "('a \<times> 'o tape connection) \<Rightarrow> 'a \<times> 'o connection" where
  "seen \<equiv> apsnd untape"

lemmas seen_sbind = apsnd_sbind [where h = untape]

lemma write_packet_seen: "write_packet sk p (untape c) = seen (write_packet (taped sk) p c)"
  by (auto simp: write_packet_def untape_def retls_def split: sum.splits prod.splits)

lemma conn_packet_seen: "conn_packet sk a b d e (untape c) = seen (conn_packet (taped sk) a b d e c)"
  by (simp add: conn_packet_def write_packet_seen)

lemma conn_open_seen: "conn_open name (untape c) = seen (conn_open name c)"
proof -
  have "untape (snd (conn_open name c)) = retls (tp_tls (cn_tls c)) (snd (conn_open name c))"
    using conn_open_keeps [of c name] by (simp add: untape_def keeps_def)
  then show ?thesis
    using conn_open_retls [of name "tp_tls (cn_tls c)" c] by (cases "conn_open name c") (simp add: untape_def)
qed

lemma frame_seen [simp]:
  "insert_stream i s (untape c) = untape (insert_stream i s c)"
  "update_stream i s (untape c) = untape (update_stream i s c)"
  "drop_in src (untape c) = untape (drop_in src c)"
  by (simp_all add: insert_stream_def update_stream_def drop_in_def)

lemma conn_allocate_seen: "conn_allocate (untape c) = seen (conn_allocate c)"
  by (simp add: conn_allocate_def)

lemma conn_handle_seen: "conn_handle sk now p (untape c) = seen (conn_handle (taped sk) now p c)"
proof -
  have "handle_open sk p (untape c) = seen (handle_open (taped sk) p c)"
    by (auto simp: handle_open_def conn_open_seen conn_allocate_seen conn_packet_seen
        split: sum.splits prod.splits)
  moreover have "handle_okay p (untape c) = seen (handle_okay p c)"
    by (simp add: handle_okay_def Let_def split: option.splits)
  moreover have "handle_write sk p (untape c) = seen (handle_write (taped sk) p c)"
    by (auto simp: handle_write_def conn_packet_seen split: option.splits prod.splits)
  moreover have "handle_close now p (untape c) = seen (handle_close now p c)"
    by (simp add: handle_close_def split: option.splits)
  ultimately show ?thesis by (simp add: conn_handle_def)
qed

lemma parse_loop_seen: "parse_loop sk now input (untape c) = seen (parse_loop (taped sk) now input c)"
proof (induction "taped sk" now input c rule: parse_loop.induct)
  case (1 now input c)
  show ?case
  proof (cases "next_packet (cn_max c) input")
    case (Got p rest)
    have "sbind (conn_handle sk now p (untape (c\<lparr>cn_input := rest\<rparr>))) (\<lambda>_ c. parse_loop sk now rest c)
        = seen (sbind (conn_handle (taped sk) now p (c\<lparr>cn_input := rest\<rparr>)) (\<lambda>_ c. parse_loop (taped sk) now rest c))"
    proof (cases "conn_handle (taped sk) now p (c\<lparr>cn_input := rest\<rparr>)")
      case (Pair r d)
      with "1.hyps" [OF Got] show ?thesis by (cases r) (auto simp: conn_handle_seen)
    qed
    with Got show ?thesis by (simp add: parse_loop.simps [of _ _ input])
  qed (simp_all add: parse_loop.simps [of _ _ input])
qed

lemma write_packets_seen: "write_packets sk ps (untape c) = seen (write_packets (taped sk) ps c)"
  by (induction ps arbitrary: c) (auto intro!: seen_sbind write_packet_seen)

lemma close_streams_seen: "close_streams sk ids w (untape c) = seen (close_streams (taped sk) ids w c)"
proof (induction ids arbitrary: w c)
  case (Cons i ids)
  then show ?case
    by (auto simp: Let_def conn_packet_seen split: option.splits prod.splits sum.splits)
qed simp

lemma conn_services_seen: "conn_services sk now (untape c) = seen (conn_services (taped sk) now c)"
  by (auto simp: conn_services_def intro!: seen_sbind write_packets_seen close_streams_seen split: prod.splits)

lemma open_reverses_seen: "open_reverses sk now socks (untape c) = seen (open_reverses (taped sk) now socks c)"
proof (induction socks arbitrary: c)
  case (Cons x socks)
  obtain k target where x: "x = (k, target)" by fastforce
  show ?case
  proof (cases "MAX_STREAMS \<le> length (cn_streams c)")
    case False
    let ?add = "\<lambda>i c. insert_stream i (new_stream 0 (SSocket k None) (Some now)) c"
    have "sbind (conn_allocate (untape c)) (\<lambda>i c. sbind (conn_packet sk OPEN i 0 (str_bytes (target @ [NUL])) (?add i c))
          (\<lambda>_ c. open_reverses sk now socks c))
        = seen (sbind (conn_allocate c) (\<lambda>i c. sbind (conn_packet (taped sk) OPEN i 0 (str_bytes (target @ [NUL])) (?add i c))
          (\<lambda>_ c. open_reverses (taped sk) now socks c)))"
      by (intro seen_sbind conn_allocate_seen) (simp_all add: conn_packet_seen Cons.IH)
    with False x show ?thesis by simp
  qed (simp add: x)
qed simp

lemma reverse_accept_seen: "reverse_accept sk now (untape c) = seen (reverse_accept (taped sk) now c)"
  by (auto simp: reverse_accept_def intro!: seen_sbind open_reverses_seen split: prod.splits)

lemma flush_tolerant_seen: "flush_tolerant sk (untape c) = seen (flush_tolerant (taped sk) c)"
  by (auto simp: flush_tolerant_def untape_def retls_def split: prod.splits)

lemma read_burst_seen:
  "read_burst sk now n w (untape c) = map_option seen (read_burst (taped sk) now n w c)"
proof (induction n arbitrary: w c)
  case (Suc n)
  show ?case
  proof (cases "sk_read sk CHUNK (tp_tls (cn_tls c))")
    case (Some p)
    obtain r o1 where p: "p = (r, o1)" by fastforce
    show ?thesis
    proof (cases r)
      case (Inl e)
      with Some p show ?thesis by (simp add: untape_def)
    next
      case (Inr a)
      let ?x = "(cn_tls c)\<lparr>tp_tls := o1, tp_in := tp_in (cn_tls c) @ a\<rparr>"
      have u: "(untape c)\<lparr>cn_tls := o1\<rparr> = untape (c\<lparr>cn_tls := ?x\<rparr>)" by (simp add: untape_def)
      show ?thesis
        using Some p Inr Suc.IH
        by (auto simp: Let_def u conn_parse_def parse_loop_seen split: sum.splits prod.splits)
    qed
  qed simp
qed simp

lemma conn_turn_seen:
  "conn_turn sk now polled (untape c) = map_option seen (conn_turn (taped sk) now polled c)"
  by (auto simp: conn_turn_def read_burst_seen conn_services_seen reverse_accept_seen flush_tolerant_seen
      intro!: seen_sbind split: option.splits sum.splits prod.splits)

lemma conn_loop_seen:
  "conn_loop sk turns (untape c) = map_option seen (conn_loop (taped sk) turns c)"
proof (induction turns arbitrary: c)
  case (Cons x turns)
  obtain cancelled now polled where x: "x = (cancelled, now, polled)" using prod_cases3 by blast
  show ?case
    using Cons.IH by (auto simp: x conn_turn_seen split: option.splits sum.splits prod.splits)
qed simp

section \<open>End to end\<close>

lemma session_pipes:
  assumes "conn_loop (taped sk) turns (new_connection (tape o1) b t limit) = Some (Inr u, c)"
  shows "conn_loop sk turns (new_connection o1 b t limit) = Some (Inr u, untape c)
    \<and> cn_input c = snd (host_packets limit (tp_in (cn_tls c)))
    \<and> (\<exists>qs. written (tp_out (cn_tls c)) qs
         \<and> (\<forall>(i, s) \<in> set (cn_streams c).
              piped (set (br_answers b)) (fst (host_packets limit (tp_in (cn_tls c)))) qs i s))"
proof -
  let ?c = "new_connection (tape o1) b t limit"
  have "untape ?c = new_connection o1 b t limit" by (simp add: untape_def new_connection_def tape_def)
  with conn_loop_seen [of sk turns ?c] assms
  have same: "conn_loop sk turns (new_connection o1 b t limit) = Some (Inr u, untape c)" by simp
  have empty: "host_packets limit [] = ([], [])" by (simp add: host_packets.simps [of _ "[]"] next_packet_def)
  have "flows ([], [], limit) t (set (br_answers b)) [] [] ?c"
    by (intro flowsI [where qs = "[]"] new_connection_inv)
      (simp_all add: new_connection_def tape_def within_def answers_def written_def listener_socks_def bt_values_def)
  then have "session_flows limit t (set (br_answers b)) ?c" by (rule session_flowsI [OF _ empty])
  from conn_loop_flows [OF assms this] obtain bs ps rest where
    f: "flows (bs, rest, limit) t (set (br_answers b)) ps [] c" and h: "host_packets limit bs = (ps, rest)"
    "bs = tp_in (cn_tls c)" "rest = cn_input c" by (rule session_flowsE)
  from f obtain qs where "written (tp_out (cn_tls c)) qs"
    "\<And>i s. (i, s) \<in> set (cn_streams c) \<Longrightarrow> piped (set (br_answers b)) ps (qs @ []) i s" by (rule flowsE) blast
  with same h show ?thesis by auto
qed

text \<open>A service stream: its socket is that of the supervisor's answer with its number.\<close>

lemma piped_service:
  assumes "piped A ps qs i s" and "owner_of (st_source s) = Some (Some (t, n))"
  obtains m fd where "Answered True m [fd] \<in> A" and "parse_u32 m = Inr n"
    and "stream_delivered s @ stream_todo s = s_sent (fd_sock fd) @ data_to i (since_open (st_remote s) ps)"
    and "unread (SSocket (fd_sock fd) None) = data_from i qs @ unread (st_source s)"
proof -
  have own: "\<not> forwarded (st_source s)" using assms(2) by (simp add: forwarded_def)
  from assms(1) obtain pre post src where a: "ps = pre @ post" "owner_of src = Some (Some (t, n))"
    "began A pre post i s src" "stream_delivered s @ stream_todo s = source_sent src @ data_to i post"
    "unread src = data_from i qs @ unread (st_source s)" using assms(2) by (auto elim: pipedE)
  then have b: "pre \<noteq> []" "opens (st_remote s) (last pre)" "\<forall>p \<in> set post. \<not> opens (st_remote s) p"
    "opened_with A (p_data (last pre)) src" using own by (simp_all add: began_def)
  have "pre = butlast pre @ [last pre]" using b(1) by simp
  then have "ps = butlast pre @ last pre # post" using a(1) by (metis append.assoc append_Cons append_Nil)
  then have "since_open (st_remote s) ps = post" using since_open_split [OF b(2,3)] by simp
  moreover obtain k where k: "src = SSocket k (Some (t, n))" using a(2) by (cases src) auto
  moreover obtain m fd where "Answered True m [fd] \<in> A" "fd_sock fd = k" "parse_u32 m = Inr n"
    using b(4) k conn_open_answer unfolding opened_with_def by (metis option.inject prod.inject)
  ultimately show thesis using a(4,5) by (intro that [of m fd]) (simp_all add: source_sent_def unread_def)
qed

text \<open>
  C10: the connection is a set of pipes. Take any run of the loop of a fresh connection that is
  at the end of a turn, over any TLS object, with the bytes read and written recorded. The bytes
  read split into the host's packets and an unparsed rest, the bytes written are whole packets. For
  every open stream there is a point in the host's packets where it began: the host's last \<open>OPEN\<close> under
  its number, answered with a reply or with a socket that the supervisor handed over (\<open>conn_open\<close>); or,
  for a reverse connection, the host's \<open>OKAY\<close> to it, which the number of acknowledged packets tells
  from the later ones (\<open>began_unique\<close>); a reverse connection that the host has not accepted has got
  nothing. The bytes its service has received followed by those queued are exactly the data of the
  host's \<open>WRTE\<close> packets to it since that point, in order. The data of our \<open>WRTE\<close> packets from it
  followed by what is unread in its source is what the source had to deliver when it was made, and the
  host has acknowledged all of these packets, but one if the stream waits. Recording does not change
  the run.
\<close>

theorem session_delivers:
  assumes "conn_loop (taped sk) turns (new_connection (tape o1) b t limit) = Some (Inr u, c)"
  shows "conn_loop sk turns (new_connection o1 b t limit) = Some (Inr u, untape c)
    \<and> cn_input c = snd (host_packets limit (tp_in (cn_tls c)))
    \<and> (\<exists>qs. written (tp_out (cn_tls c)) qs
         \<and> (\<forall>(i, s) \<in> set (cn_streams c).
              piped (set (br_answers b)) (fst (host_packets limit (tp_in (cn_tls c)))) qs i s))"
  by (rule session_pipes [OF assms])

text \<open>
  The host opens the file transfer service and writes \<open>d\<close> to it in one packet; the service answers \<open>r\<close>.
\<close>

lemma next_packet_bytes:
  assumes "length (p_data p) \<le> limit" and "length (p_data p) \<le> MAX_PAYLOAD"
  shows "next_packet limit (packet_bytes p @ r) = Got p r"
proof -
  have b: "packet_bytes p = packet_header p 0 @ p_data p"
    using assms(2) packet_write_eq [of p False "packet_header p 0 @ p_data p"] by (simp add: packet_bytes_def)
  have h: "length (packet_header p 0) = 24" by simp
  have "length (p_data p) < 2 ^ 32" using assms(2) by (simp add: MAX_PAYLOAD_def)
  then have len: "unat (from_le32 (take 4 (drop 12 (packet_header p 0)))) = length (p_data p)"
    using header_fields(4) [of p 0] by (simp add: header_field_def unsigned_of_nat take_bit_nat_eq_self)
  have "packet_read (packet_header p 0 @ p_data p) limit False = Inr (p, [])"
    using assms by (simp add: packet_read_general exI [of _ 0])
  with assms(1) b h len show ?thesis by (simp add: next_packet_def)
qed

definition flow_ok :: "u8 list \<Rightarrow> u8 list \<Rightarrow> bool" where
  "flow_ok d r \<longleftrightarrow> d \<noteq> [] \<and> length d \<le> 4096 \<and> r \<noteq> [] \<and> length r \<le> 4096"

definition flow_service :: "u8 list \<Rightarrow> u8 list \<Rightarrow> sock" where
  "flow_service d r = sock_new [RData r] [TAccept (length d)]"

definition flow_answers :: "u8 list \<Rightarrow> u8 list \<Rightarrow> answer list" where
  "flow_answers d r = [Answered True ''5'' [\<lparr>fd_sock = flow_service d r, fd_accept = [], fd_fcntl = None\<rparr>]]"

definition flow_name :: "u8 list" where
  "flow_name = str_bytes ''sync:'' @ [0]"

definition flow_host :: "u8 list \<Rightarrow> packet list" where
  "flow_host d = [packet_new OPEN 7 0 flow_name, packet_new WRTE 7 1 d]"

definition flow_input :: "u8 list \<Rightarrow> u8 list" where
  "flow_input d = concat (map packet_bytes (flow_host d))"

lemma flow_name_length [simp]: "length flow_name = 6"
  by (simp add: flow_name_def str_bytes_def)

lemma flow_packets: "flow_ok d r \<Longrightarrow> host_packets 4096 (flow_input d) = (flow_host d, [])"
proof -
  assume ok: "flow_ok d r"
  have e: "host_packets 4096 [] = ([], [])" by (simp add: host_packets.simps [of _ "[]"] next_packet_def)
  have n: "next_packet 4096 (packet_bytes p @ x) = Got p x" if "p \<in> set (flow_host d)" for p x
    using that ok by (intro next_packet_bytes) (auto simp: flow_host_def packet_new_def MAX_PAYLOAD_def flow_ok_def)
  have "host_packets 4096 (packet_bytes p @ x) = (case host_packets 4096 x of (ps, y) \<Rightarrow> (p # ps, y))"
    if "p \<in> set (flow_host d)" for p x
    using n [OF that] by (simp add: host_packets.simps [of _ "packet_bytes p @ x"])
  from this [of "packet_new WRTE 7 1 d" "[]"] this [of "packet_new OPEN 7 0 flow_name"] e
  show ?thesis by (simp add: flow_input_def flow_host_def)
qed

definition flow_stage :: "u8 list \<Rightarrow> u8 list \<Rightarrow> u8 list \<Rightarrow> (u8 list \<times> u8 list list) tape connection" where
  "flow_stage d r i = (new_connection (tape ([], [flow_input d])) (broker_new (flow_answers d r)) 1 4096)
     \<lparr>cn_tls := \<lparr>tp_tls = ([], []), tp_in = flow_input d, tp_out = []\<rparr>, cn_input := i\<rparr>"

lemma flow_service_name: "service_name flow_name = Inr ''sync:''"
  using from_utf8_ascii [of "''sync:''"]
  by (simp add: service_name_def flow_name_def str_bytes_def bytes_str_def is_ascii_def char_of_def)

lemma flow_socket:
  "service_socket 1 ''5'' [\<lparr>fd_sock = flow_service d r, fd_accept = [], fd_fcntl = None\<rparr>]
     = Inr (SSocket (flow_service d r) (Some (1, 5)))"
  by (simp add: service_socket_def parse_u32_def parse_uint_def parse_digits_def is_digit_def digit_val_def)

lemma flow_opened:
  "\<exists>c. conn_handle (taped demo_sink) 0 (packet_new OPEN 7 0 flow_name) (flow_stage d r i) = (Inr (), c)
     \<and> tp_in (cn_tls c) = flow_input d \<and> snd (tp_tls (cn_tls c)) = [] \<and> cn_max c = 4096
     \<and> cn_reverse c = [] \<and> cn_streams c = [(1, new_stream 7 (SSocket (flow_service d r) (Some (1, 5))) None)]"
  by (simp add: conn_handle_def handle_open_def packet_new_def flow_stage_def new_connection_def command_values
      MAX_STREAMS_def conn_open_def flow_service_name conn_call_def broker_new_def flow_answers_def broker_call_eq
      broker_exchange_def Let_def flow_socket conn_allocate_def insert_stream_def conn_packet_def write_packet_def
      packet_write_def MAX_PAYLOAD_def demo_sink_def)

lemma flow_written:
  assumes "flow_ok d r" and "cn_streams c = [(1, new_stream 7 (SSocket (flow_service d r) (Some (1, 5))) None)]"
  shows "conn_handle (taped demo_sink) 0 (packet_new WRTE 7 1 d) c
    = (Inr (), c\<lparr>cn_streams := [(1, (new_stream 7 (SSocket (flow_service d r) (Some (1, 5))) None)
        \<lparr>st_pending := [d]\<rparr>)]\<rparr>)"
  using assms
  by (simp add: conn_handle_def handle_write_def packet_new_def command_values pending_bytes_def bt_values_def
      stream_pending_bytes_def STREAM_INPUT_LIMIT_def bt_get_def bt_update_def stream_enqueue_def PENDING_LIMIT_def
      update_stream_def new_stream_def flow_ok_def)

text \<open>The stream when all has been delivered and read.\<close>

definition flow_over :: "u8 list \<Rightarrow> stream \<Rightarrow> bool" where
  "flow_over d s \<longleftrightarrow>
     st_remote s = 7 \<and> stream_delivered s = d \<and> stream_todo s = [] \<and> unread (st_source s) = []
       \<and> (\<exists>k owner. st_source s = SSocket k (Some owner))"

lemma flow_served:
  assumes "flow_ok d r" and "cn_streams c = [(1, (new_stream 7 (SSocket (flow_service d r) (Some (1, 5))) None)\<lparr>st_pending := [d]\<rparr>)]"
    and "cn_max c = 4096"
  shows "\<exists>z. conn_services (taped demo_sink) 0 c = (Inr True, z) \<and> tp_in (cn_tls z) = tp_in (cn_tls c)
    \<and> cn_reverse z = cn_reverse c \<and> (\<exists>s. cn_streams z = [(1, s)] \<and> flow_over d s)"
  using assms
  by (cases "tp_tls (cn_tls c)"; cases r) (simp_all add: conn_services_def service_stream_def stream_flush_pending_def new_stream_def source_write_def
      flow_service_def sock_new_def sock_write_def demo_sink_def service_read_def source_read_def sock_read_def
      SOFT_QUEUE_def CHUNK_def packet_new_def write_packet_def packet_write_def MAX_PAYLOAD_def Let_def
      stream_delivered_def stream_todo_def source_sent_def undelivered_def unread_def flow_ok_def flow_over_def)

lemma flow_parsed:
  assumes ok: "flow_ok d r"
  shows "\<exists>c. conn_parse (taped demo_sink) 0 (flow_stage d r (flow_input d)) = (Inr (), c)
     \<and> tp_in (cn_tls c) = flow_input d \<and> snd (tp_tls (cn_tls c)) = [] \<and> cn_max c = 4096 \<and> cn_reverse c = []
     \<and> cn_streams c = [(1, (new_stream 7 (SSocket (flow_service d r) (Some (1, 5))) None)\<lparr>st_pending := [d]\<rparr>)]"
proof -
  let ?o = "packet_new OPEN 7 0 flow_name" and ?w = "packet_new WRTE 7 1 d"
  have n1: "next_packet 4096 (flow_input d) = Got ?o (packet_bytes ?w)" "next_packet 4096 (packet_bytes ?w) = Got ?w []"
    using next_packet_bytes [of ?o 4096 "packet_bytes ?w"] next_packet_bytes [of ?w 4096 "[]"] ok
    by (simp_all add: flow_input_def flow_host_def packet_new_def MAX_PAYLOAD_def flow_ok_def)
  have n2: "next_packet 4096 [] = Wait" by (simp add: next_packet_def)
  obtain c where c: "conn_handle (taped demo_sink) 0 ?o (flow_stage d r (packet_bytes ?w)) = (Inr (), c)"
    "tp_in (cn_tls c) = flow_input d" "snd (tp_tls (cn_tls c)) = []" "cn_max c = 4096" "cn_reverse c = []"
    "cn_streams c = [(1, new_stream 7 (SSocket (flow_service d r) (Some (1, 5))) None)]"
    using flow_opened by blast
  have w: "conn_handle (taped demo_sink) 0 ?w (c\<lparr>cn_input := []\<rparr>)
      = (Inr (), c\<lparr>cn_input := [], cn_streams := [(1, (new_stream 7 (SSocket (flow_service d r) (Some (1, 5))) None)
        \<lparr>st_pending := [d]\<rparr>)]\<rparr>)"
    using flow_written [OF ok, of "c\<lparr>cn_input := []\<rparr>"] c(6) by simp
  have st: "(flow_stage d r (flow_input d))\<lparr>cn_input := x\<rparr> = flow_stage d r x" "cn_max (flow_stage d r x) = 4096"
    "cn_input (flow_stage d r x) = x" for x
    by (simp_all add: flow_stage_def new_connection_def)
  have "conn_parse (taped demo_sink) 0 (flow_stage d r (flow_input d))
      = sbind (conn_handle (taped demo_sink) 0 ?w (c\<lparr>cn_input := []\<rparr>)) (\<lambda>_ c. parse_loop (taped demo_sink) 0 [] c)"
    using n1 c(1,4) st
    by (simp add: conn_parse_def parse_loop.simps [of _ _ "flow_input d"] parse_loop.simps [of _ _ "packet_bytes ?w"])
  with w n2 c show ?thesis by (simp add: parse_loop.simps [of _ _ "[]"])
qed

lemma demo_flow_run:
  assumes ok: "flow_ok d r"
  shows "\<exists>c s. conn_loop (taped demo_sink) [(False, 0, None), (True, 1, None)]
        (new_connection (tape ([], [flow_input d])) (broker_new (flow_answers d r)) 1 4096) = Some (Inr (), c)
     \<and> tp_in (cn_tls c) = flow_input d \<and> cn_streams c = [(1, s)] \<and> flow_over d s"
proof -
  let ?c = "new_connection (tape ([], [flow_input d])) (broker_new (flow_answers d r)) 1 4096"
  have len: "length (flow_input d) = 54 + length d" "length d \<le> 4096"
    using ok by (simp_all add: flow_input_def flow_host_def packet_bytes_def packet_write_def packet_new_def MAX_PAYLOAD_def
        to_le32_def flow_ok_def)
  then have ne: "(flow_input d) \<noteq> []" "cn_input (flow_stage d r (flow_input d)) = flow_input d"
    by (auto simp: flow_stage_def)
  obtain c where c: "conn_parse (taped demo_sink) 0 (flow_stage d r (flow_input d)) = (Inr (), c)"
    "tp_in (cn_tls c) = flow_input d" "snd (tp_tls (cn_tls c)) = []" "cn_max c = 4096" "cn_reverse c = []"
    "cn_streams c = [(1, (new_stream 7 (SSocket (flow_service d r) (Some (1, 5))) None)\<lparr>st_pending := [d]\<rparr>)]"
    using flow_parsed [OF ok] by blast
  have rd: "sk_read (taped demo_sink) CHUNK (cn_tls ?c) = Some (Inr (flow_input d), cn_tls (flow_stage d r (flow_input d)))"
    by (simp add: demo_sink_def tape_def new_connection_def flow_stage_def)
  have st: "?c\<lparr>cn_tls := cn_tls (flow_stage d r (flow_input d)), cn_input := flow_input d\<rparr> = flow_stage d r (flow_input d)"
    by (simp add: flow_stage_def new_connection_def)
  obtain w where w: "tp_tls (cn_tls c) = (w, [])" using c(3) by (cases "tp_tls (cn_tls c)") simp
  have idle: "read_burst (taped demo_sink) 0 (Suc n) True c
      = Some (Inr (Some True), c\<lparr>cn_tls := (cn_tls c)\<lparr>tp_tls := (w, [])\<rparr>\<rparr>)" for n
    using w by (simp add: demo_sink_def)
  have "read_burst (taped demo_sink) 0 (Suc (Suc n)) False ?c = read_burst (taped demo_sink) 0 (Suc n) True c" for n
    unfolding read_burst.simps(2) [of _ _ "Suc n" False]
    using rd st c(1) len ne by (simp add: Let_def new_connection_def MAX_PAYLOAD_def del: taped_simps)
  from this [of 14] idle [of 14] have burst: "read_burst (taped demo_sink) 0 16 False ?c
      = Some (Inr (Some True), c\<lparr>cn_tls := (cn_tls c)\<lparr>tp_tls := (w, [])\<rparr>\<rparr>)" by (simp add: eval_nat_numeral)
  obtain z s where z: "conn_services (taped demo_sink) 0 (c\<lparr>cn_tls := (cn_tls c)\<lparr>tp_tls := (w, [])\<rparr>\<rparr>) = (Inr True, z)"
    "tp_in (cn_tls z) = flow_input d" "cn_reverse z = []" "cn_streams z = [(1, s)]"
    "flow_over d s"
    using flow_served [OF ok, of "c\<lparr>cn_tls := (cn_tls c)\<lparr>tp_tls := (w, [])\<rparr>\<rparr>"] c by auto
  have "reverse_accept (taped demo_sink) 0 z = (Inr False, z)"
    using z(3,4) by (simp add: reverse_accept_def MAX_STREAMS_def)
  moreover obtain e where "flush_tolerant (taped demo_sink) z = (Inr (), e)" "cn_streams e = [(1, s)]"
    "tp_in (cn_tls e) = flow_input d"
    using z(2,4) by (simp add: flush_tolerant_def demo_sink_def)
  ultimately have "conn_turn (taped demo_sink) 0 None ?c = Some (Inr True, e)"
    using burst z(1) by (simp add: conn_turn_def)
  then have "conn_loop (taped demo_sink) [(False, 0, None), (True, 1, None)] ?c = Some (Inr (), e)" by simp
  with \<open>cn_streams e = [(1, s)]\<close> \<open>tp_in (cn_tls e) = flow_input d\<close> z(5) show ?thesis by blast
qed

theorem session_delivers_witness:
  "\<exists>c s qs. conn_loop demo_sink [(False, 0, None), (True, 1, None)]
        (new_connection ([], [flow_input [104, 105]]) (broker_new (flow_answers [104, 105] [33])) 1 4096) = Some (Inr (), c)
     \<and> cn_streams c = [(1, s)] \<and> cn_input c = [] \<and> stream_delivered s = [104, 105]
     \<and> piped (set (flow_answers [104, 105] [33])) (flow_host [104, 105]) qs 1 s"
proof -
  obtain c s where run: "conn_loop (taped demo_sink) [(False, 0, None), (True, 1, None)]
        (new_connection (tape ([], [flow_input [104, 105]])) (broker_new (flow_answers [104, 105] [33])) 1 4096) = Some (Inr (), c)"
    and s: "tp_in (cn_tls c) = flow_input [104, 105]" "cn_streams c = [(1, s)]" "stream_delivered s = [104, 105]"
    using demo_flow_run [of "[104, 105]" "[33]"] by (auto simp: flow_ok_def flow_over_def)
  have "br_answers (broker_new (flow_answers [104, 105] [33])) = flow_answers [104, 105] [33]"
    by (simp add: broker_new_def)
  with session_delivers [OF run] s flow_packets [of "[104, 105]" "[33]"] show ?thesis
    by (auto simp: flow_ok_def intro!: exI [of _ "untape c"])
qed

end
