(* ===== verification/File_Transfer.thy ===== *)
theory File_Transfer
  imports Stream_Flow Sync_Safety
begin

text \<open>
  \<open>adb push\<close> and \<open>adb pull\<close> from end to end: what the host writes into a stream of its connection
  (\<open>Stream_Flow\<close>), the file transfer process behind that stream (\<open>Sync\<close>), its file system, and what
  the host is sent back.
\<close>

section \<open>What the client writes\<close>

text \<open>
  The second version of the requests: a path, the request again with its mode and flags, the file;
  a path, the request again with its flags; the end.
\<close>

definition client_push :: "bytes \<Rightarrow> u32 \<Rightarrow> bytes list \<Rightarrow> u32 \<Rightarrow> bytes" where
  "client_push raw mode cs mtime =
     to_le32 (cmd_id ''SND2'') @ to_le32 (of_nat (length raw)) @ raw
       @ to_le32 (cmd_id ''SND2'') @ to_le32 mode @ to_le32 0 @ file_frames cs mtime"

definition client_pull :: "bytes \<Rightarrow> bytes" where
  "client_pull raw =
     to_le32 (cmd_id ''RCV2'') @ to_le32 (of_nat (length raw)) @ raw @ to_le32 (cmd_id ''RCV2'') @ to_le32 0"

definition client_quit :: bytes where
  "client_quit = to_le32 (cmd_id ''QUIT'') @ to_le32 0"

definition client_session :: "bytes \<Rightarrow> u32 \<Rightarrow> bytes list \<Rightarrow> u32 \<Rightarrow> bytes" where
  "client_session raw mode cs mtime = client_push raw mode cs mtime @ client_pull raw @ client_quit"

definition path_valid :: "bytes \<Rightarrow> bool" where
  "path_valid raw \<longleftrightarrow> raw \<noteq> [] \<and> length raw \<le> 1024 \<and> 0 \<notin> set raw \<and> file_name (path_of raw) \<noteq> None"

section \<open>The process serves the session\<close>

lemma sync_ids [simp]:
  "cmd_id ''SND2'' \<notin> {cmd_id ''QUIT'', cmd_id ''STAT'', cmd_id ''STA2'', cmd_id ''LST2'', cmd_id ''LIST'',
     cmd_id ''LIS2'', cmd_id ''RECV'', cmd_id ''RCV2'', cmd_id ''SEND''}"
  "cmd_id ''RCV2'' \<notin> {cmd_id ''QUIT'', cmd_id ''STAT'', cmd_id ''STA2'', cmd_id ''LST2'', cmd_id ''LIST'',
     cmd_id ''LIS2''}"
  by (simp_all add: cmd_id_def from_le32_def str_bytes_def)

lemma serve_request_frame:
  assumes "sy_in s = to_le32 kind @ to_le32 (of_nat (length raw)) @ raw @ rest" and "path_valid raw"
    and "kind \<noteq> cmd_id ''QUIT''"
  shows "serve_request e s = (case handle e kind raw (s\<lparr>sy_in := rest\<rparr>) of
      (Inl x, s) \<Rightarrow> (Inl x, snd (fail (failure_text x) s)) | (Inr _, s) \<Rightarrow> (Inr False, s))"
proof -
  have len: "unat (of_nat (length raw) :: u32) = length raw" "of_nat (length raw) \<noteq> (0 :: u32)"
    using assms(2) by (auto simp: path_valid_def unsigned_of_nat take_bit_nat_eq_self unat_eq_zero [symmetric])
  have "number s = (Inr kind, s\<lparr>sy_in := to_le32 (of_nat (length raw)) @ raw @ rest\<rparr>)"
    using assms(1) by (rule number_frame)
  moreover have "number (s\<lparr>sy_in := to_le32 (of_nat (length raw)) @ raw @ rest\<rparr>)
      = (Inr (of_nat (length raw)), s\<lparr>sy_in := raw @ rest\<rparr>)" by (simp add: number_frame)
  moreover have "take_in (length raw) (s\<lparr>sy_in := raw @ rest\<rparr>) = (Inr raw, s\<lparr>sy_in := rest\<rparr>)"
    by (simp add: take_in_frame)
  ultimately show ?thesis using assms(2,3) len by (simp add: serve_request_def path_valid_def)
qed

lemma serve_push:
  assumes "sy_in s = client_push raw mode cs mtime @ rest" and "path_valid raw"
    and "send_file e (path_of raw) mode (s\<lparr>sy_in := file_frames cs mtime @ rest\<rparr>) = (Inr (), s')"
  shows "serve_request e s = (Inr False, s')"
proof -
  let ?k = "cmd_id ''SND2''" and ?in = "file_frames cs mtime @ rest"
  have "push_target ?k raw (s\<lparr>sy_in := to_le32 ?k @ to_le32 mode @ to_le32 0 @ ?in\<rparr>)
      = (Inr (path_of raw, mode), s\<lparr>sy_in := ?in\<rparr>)"
    using sync_ids(1) by (simp add: push_target_def number_frame)
  then have "handle e ?k raw (s\<lparr>sy_in := to_le32 ?k @ to_le32 mode @ to_le32 0 @ ?in\<rparr>) = (Inr (), s')"
    using sync_ids(1) assms(3) by (simp add: handle_def Let_def)
  moreover have "serve_request e s
      = (case handle e ?k raw (s\<lparr>sy_in := to_le32 ?k @ to_le32 mode @ to_le32 0 @ ?in\<rparr>) of
        (Inl x, s) \<Rightarrow> (Inl x, snd (fail (failure_text x) s)) | (Inr _, s) \<Rightarrow> (Inr False, s))"
    by (rule serve_request_frame) (use assms(1,2) sync_ids(1) in \<open>simp_all add: client_push_def\<close>)
  ultimately show ?thesis by simp
qed

lemma serve_pull:
  assumes "sy_in s = client_pull raw @ rest" and "path_valid raw"
    and "recv_file e (path_of raw) (s\<lparr>sy_in := rest\<rparr>) = (Inr (), s')"
  shows "serve_request e s = (Inr False, s')"
proof -
  let ?k = "cmd_id ''RCV2''"
  have "pull_setup ?k (s\<lparr>sy_in := to_le32 ?k @ to_le32 0 @ rest\<rparr>) = (Inr (), s\<lparr>sy_in := rest\<rparr>)"
    by (simp add: pull_setup_def number_frame)
  then have "handle e ?k raw (s\<lparr>sy_in := to_le32 ?k @ to_le32 0 @ rest\<rparr>) = (Inr (), s')"
    using sync_ids(2) assms(3) by (simp add: handle_def Let_def)
  moreover have "serve_request e s = (case handle e ?k raw (s\<lparr>sy_in := to_le32 ?k @ to_le32 0 @ rest\<rparr>) of
        (Inl x, s) \<Rightarrow> (Inl x, snd (fail (failure_text x) s)) | (Inr _, s) \<Rightarrow> (Inr False, s))"
    by (rule serve_request_frame) (use assms(1,2) sync_ids(2) in \<open>simp_all add: client_pull_def\<close>)
  ultimately show ?thesis by simp
qed

lemma serve_quit: "sy_in s = client_quit \<Longrightarrow> serve_request e s = (Inr True, s\<lparr>sy_in := []\<rparr>)"
proof -
  assume "sy_in s = client_quit"
  then have "number s = (Inr (cmd_id ''QUIT''), s\<lparr>sy_in := to_le32 0\<rparr>)"
    by (intro number_frame) (simp add: client_quit_def)
  moreover have "number (s\<lparr>sy_in := to_le32 0\<rparr>) = (Inr 0, s\<lparr>sy_in := []\<rparr>)"
    using number_frame [of "s\<lparr>sy_in := to_le32 0\<rparr>" 0 "[]"] by simp
  ultimately show ?thesis by (simp add: serve_request_def)
qed

text \<open>A file system and a client that work, with room for the file.\<close>

definition transfer_ready :: "(nat \<Rightarrow> sync_env) \<Rightarrow> sync \<Rightarrow> bytes \<Rightarrow> u32 \<Rightarrow> bytes list \<Rightarrow> bool" where
  "transfer_ready e s raw mode cs \<longleftrightarrow>
     path_valid raw \<and> (mode AND S_IFMT = 0 \<or> mode AND S_IFMT = S_IFREG)
       \<and> (case se_random (e 0) of None \<Rightarrow> False | Some x \<Rightarrow> push_room (path_of raw) (temp_of (path_of raw) x) (sy_files s))
       \<and> list_all (\<lambda>c. length c \<le> SYNC_MAX) cs \<and> list_all is_ok (se_reads (e 1))
       \<and> sy_calls s = replicate (length cs + 7) COk
       \<and> sy_writes s = replicate (4 + 3 * length (concat cs)) None"

lemma serve_session:
  assumes "transfer_ready e s raw mode cs" and "sy_in s = client_session raw mode cs mtime"
  shows "\<exists>s' ds. serve e 0 s = (Inr (), s')
    \<and> sy_files s' (path_of raw) = Some (Regular (concat cs) (mode AND 0x1FF) (Some mtime))
    \<and> sy_out s' = sy_out s @ to_le32 OKAY @ to_le32 0 @ file_frames ds 0
    \<and> concat ds = concat cs \<and> list_all (\<lambda>d. d \<noteq> [] \<and> length d \<le> SYNC_MAX) ds"
proof -
  let ?rest = "client_pull raw @ client_quit" and ?p = "path_of raw"
  obtain x where x: "se_random (e 0) = Some x" "push_room ?p (temp_of ?p x) (sy_files s)"
    using assms(1) by (auto simp: transfer_ready_def split: option.splits)
  have valid: "path_valid raw" and name: "file_name ?p \<noteq> None"
    and mode: "mode AND S_IFMT = 0 \<or> mode AND S_IFMT = S_IFREG" and reads: "list_all is_ok (se_reads (e 1))"
    and small: "list_all (\<lambda>c. length c \<le> SYNC_MAX) cs"
    using assms(1) by (simp_all add: transfer_ready_def path_valid_def)
  define s0 where "s0 = s\<lparr>sy_in := file_frames cs mtime @ ?rest\<rparr>"
  have s0: "push_room ?p (temp_of ?p x) (sy_files s0)" "sy_in s0 = file_frames cs mtime @ ?rest"
    "sy_calls s0 = replicate (length cs + 6 + 1) COk" "sy_writes s0 = replicate (2 + (3 * length (concat cs) + 2)) None"
    using x(2) assms(1) by (simp_all add: s0_def transfer_ready_def eval_nat_numeral)
  from send_file_healthy [OF name x(1) mode s0(1,2) small s0(3,4)] obtain s1 where
    s1: "send_file (e 0) ?p mode s0 = (Inr (), s1)" "sy_in s1 = ?rest"
      "sy_files s1 ?p = Some (Regular (concat cs) (mode AND 0x1FF) (Some mtime))"
      "sy_out s1 = sy_out s @ to_le32 OKAY @ to_le32 0" "sy_calls s1 = replicate 1 COk"
      "sy_writes s1 = replicate (3 * length (concat cs) + 2) None"
    by (auto simp: s0_def)
  have 1: "serve_request (e 0) s = (Inr False, s1)"
    using assms(2) valid s1(1) by (intro serve_push) (simp_all add: client_session_def s0_def)
  define t1 where "t1 = s1\<lparr>sy_in := client_quit\<rparr>"
  have t1: "sy_files t1 ?p = Some (Regular (concat cs) (mode AND 0x1FF) (Some mtime))"
    "sy_calls t1 = replicate (Suc 0) COk" "sy_writes t1 = replicate (3 * length (concat cs) + (2 + 0)) None"
    using s1 by (simp_all add: t1_def)
  from recv_file_healthy [OF t1 reads] obtain s2 ds where
    s2: "recv_file (e 1) ?p t1 = (Inr (), s2)" "sy_out s2 = sy_out t1 @ file_frames ds 0" "concat ds = concat cs"
      "list_all (\<lambda>d. d \<noteq> [] \<and> length d \<le> SYNC_MAX) ds" "sy_in s2 = client_quit" "sy_files s2 = sy_files t1"
    by (auto simp: t1_def)
  have 2: "serve_request (e 1) s1 = (Inr False, s2)"
    using s1(2) valid s2(1) unfolding t1_def by (rule serve_pull)
  have 3: "serve_request (e (Suc 1)) s2 = (Inr True, s2\<lparr>sy_in := []\<rparr>)" by (rule serve_quit [OF s2(5)])
  have "serve e (Suc 1) s2 = (Inr (), s2\<lparr>sy_in := []\<rparr>)" by (subst serve.simps, subst 3) simp
  then have "serve e 1 s1 = (Inr (), s2\<lparr>sy_in := []\<rparr>)" by (subst serve.simps, subst 2) simp
  then have "serve e 0 s = (Inr (), s2\<lparr>sy_in := []\<rparr>)" by (subst serve.simps, subst 1) simp
  with s1 s2 show ?thesis by (intro exI [of _ "s2\<lparr>sy_in := []\<rparr>"] exI [of _ ds]) (simp add: t1_def)
qed

section \<open>End to end\<close>

text \<open>
  C11: what the host pushes lies on the disk, and what it pulls is what it pushed. In any run of a
  connection take a stream to a service, numbered \<open>n\<close> by the supervisor. Suppose that the data of the
  host's \<open>WRTE\<close> packets to it since its \<open>OPEN\<close>, however they are cut, are the push of a file, its pull
  and the end; that the socket handed over for service \<open>n\<close> was unused and delivers what the file
  transfer process answers to such a session on a file system that works (\<open>transfer_ready\<close>); and that
  the stream is drained: all has been delivered and all been read. Then the process was given exactly
  this session; its file system holds the file with the permissions and the time asked for; and the
  data of the packets the host was sent are the confirmation and the frames of the same file.
\<close>

theorem push_pull_end_to_end:
  assumes "conn_loop (taped sk) turns (new_connection (tape o1) b t limit) = Some (Inr u, c)"
    and "(i, s) \<in> set (cn_streams c)" and "owner_of (st_source s) = Some (Some (t', n))"
    and "data_to i (since_open (st_remote s) (fst (host_packets limit (tp_in (cn_tls c)))))
      = client_session raw mode cs mtime"
    and "\<forall>m fd. Answered True m [fd] \<in> set (br_answers b) \<and> parse_u32 m = Inr n \<longrightarrow>
      s_sent (fd_sock fd) = [] \<and> unread (SSocket (fd_sock fd) None)
        = sy_out (snd (serve e 0 (sys\<lparr>sy_in := client_session raw mode cs mtime\<rparr>)))"
    and "stream_todo s = []" and "unread (st_source s) = []"
    and "transfer_ready e sys raw mode cs" and "sy_out sys = []"
  shows "stream_delivered s = client_session raw mode cs mtime
    \<and> sy_files (snd (serve e 0 (sys\<lparr>sy_in := stream_delivered s\<rparr>))) (path_of raw)
        = Some (Regular (concat cs) (mode AND 0x1FF) (Some mtime))
    \<and> (\<exists>qs ds. written (tp_out (cn_tls c)) qs
        \<and> data_from i qs = to_le32 OKAY @ to_le32 0 @ file_frames ds 0 \<and> concat ds = concat cs)"
proof -
  obtain qs where qs: "written (tp_out (cn_tls c)) qs"
    and piped: "piped (set (br_answers b)) (fst (host_packets limit (tp_in (cn_tls c)))) qs i s"
    using session_pipes [OF assms(1)] assms(2) by blast
  from piped_service [OF piped assms(3)] assms(4-7) have got: "stream_delivered s = client_session raw mode cs mtime"
    "sy_out (snd (serve e 0 (sys\<lparr>sy_in := client_session raw mode cs mtime\<rparr>))) = data_from i qs"
    by (metis append.left_neutral append.right_neutral)+
  have "transfer_ready e (sys\<lparr>sy_in := x\<rparr>) raw mode cs" for x
    using assms(8) unfolding transfer_ready_def by (cases "se_random (e 0)") simp_all
  from serve_session [OF this, of "client_session raw mode cs mtime" mtime] assms(9) obtain s' ds where
    "serve e 0 (sys\<lparr>sy_in := client_session raw mode cs mtime\<rparr>) = (Inr (), s')"
    "sy_files s' (path_of raw) = Some (Regular (concat cs) (mode AND 0x1FF) (Some mtime))"
    "sy_out s' = to_le32 OKAY @ to_le32 0 @ file_frames ds 0" "concat ds = concat cs"
    by auto
  with qs got show ?thesis by (intro conjI exI [of _ qs] exI [of _ ds]) simp_all
qed

text \<open>The host pushes the bytes 1, 2, 3 to \<open>/a\<close> and pulls them again.\<close>

definition demo_transfer :: bytes where
  "demo_transfer = client_session [47, 97] 420 [[1, 2], [3]] 5"

lemma demo_ready: "transfer_ready (\<lambda>_. demo_sync_env) (demo_sync\<lparr>sy_in := x\<rparr>) [47, 97] 420 [[1, 2], [3]]"
proof -
  have "push_room (path_of [47, 97]) (temp_of (path_of [47, 97]) [7]) Map.empty"
    using demo_paths(2) by (simp add: push_room_def demo_paths(1) path_parent_def prefixes_of_def)
  then show ?thesis
    by (simp add: transfer_ready_def path_valid_def demo_sync_env_def demo_sync_def demo_paths(1) file_name_def
        S_IFMT_def S_IFREG_def SYNC_MAX_def)
qed

definition demo_reply :: bytes where
  "demo_reply = sy_out (snd (serve (\<lambda>_. demo_sync_env) 0 (demo_sync\<lparr>sy_in := demo_transfer\<rparr>)))"

lemma demo_transfer_flows: "flow_ok demo_transfer demo_reply"
proof -
  obtain ds where ds: "demo_reply = to_le32 OKAY @ to_le32 0 @ file_frames ds 0" "concat ds = [1, 2, 3]"
      "list_all (\<lambda>d. d \<noteq> [] \<and> length d \<le> SYNC_MAX) ds"
    using serve_session [OF demo_ready, of demo_transfer 5]
    by (auto simp: demo_reply_def demo_transfer_def demo_sync_def)
  have "length (concat (map data_frame ds)) = 8 * length ds + length (concat ds)"
    by (induction ds) (simp_all add: data_frame_def)
  moreover have "length ds \<le> length (concat ds)" using ds(3)
  proof (induction ds)
    case (Cons d ds)
    then show ?case by (cases d) simp_all
  qed simp
  moreover have "length demo_reply = 16 + length (concat (map data_frame ds))"
    unfolding ds(1) by (simp add: file_frames_def)
  ultimately have "16 \<le> length demo_reply" "length demo_reply \<le> 4096" unfolding ds(2) by simp_all
  then have "length demo_reply \<le> 4096" "demo_reply \<noteq> []" by auto
  moreover have "length demo_transfer \<le> 4096" "demo_transfer \<noteq> []"
    by (simp_all add: demo_transfer_def client_session_def client_push_def client_pull_def client_quit_def
        file_frames_def data_frame_def)
  ultimately show ?thesis by (simp add: flow_ok_def)
qed

theorem push_pull_end_to_end_witness:
  "\<exists>c s qs ds. conn_loop (taped demo_sink) [(False, 0, None), (True, 1, None)]
      (new_connection (tape ([], [flow_input demo_transfer])) (broker_new (flow_answers demo_transfer demo_reply)) 1 4096)
        = Some (Inr (), c)
    \<and> cn_streams c = [(1, s)] \<and> stream_delivered s = demo_transfer
    \<and> sy_files (snd (serve (\<lambda>_. demo_sync_env) 0 (demo_sync\<lparr>sy_in := stream_delivered s\<rparr>))) (path_of [47, 97])
        = Some (Regular [1, 2, 3] 420 (Some 5))
    \<and> written (tp_out (cn_tls c)) qs
    \<and> data_from 1 qs = to_le32 OKAY @ to_le32 0 @ file_frames ds 0 \<and> concat ds = [1, 2, 3]"
proof -
  let ?b = "broker_new (flow_answers demo_transfer demo_reply)"
  obtain c s where run: "conn_loop (taped demo_sink) [(False, 0, None), (True, 1, None)]
        (new_connection (tape ([], [flow_input demo_transfer])) ?b 1 4096) = Some (Inr (), c)"
    and c: "tp_in (cn_tls c) = flow_input demo_transfer" "cn_streams c = [(1, s)]" "flow_over demo_transfer s"
    using demo_flow_run [OF demo_transfer_flows] by blast
  from c(3) obtain t n where owner: "owner_of (st_source s) = Some (Some (t, n))"
    and s: "st_remote s = 7" "stream_todo s = []" "unread (st_source s) = []"
    by (auto simp: flow_over_def)
  have str: "(1, s) \<in> set (cn_streams c)" using c(2) by simp
  have "opens 7 (packet_new OPEN 7 0 flow_name)" "\<not> opens 7 (packet_new WRTE 7 1 demo_transfer)"
    by (simp_all add: opens_def packet_new_def command_values)
  then have "since_open 7 (flow_host demo_transfer) = [packet_new WRTE 7 1 demo_transfer]"
    using since_open_split [of 7 "packet_new OPEN 7 0 flow_name" "[packet_new WRTE 7 1 demo_transfer]" "[]"]
    by (simp add: flow_host_def)
  then have sent: "data_to 1 (since_open (st_remote s) (fst (host_packets 4096 (tp_in (cn_tls c)))))
      = client_session [47, 97] 420 [[1, 2], [3]] 5"
    using flow_packets [OF demo_transfer_flows] c(1) s(1) by (simp add: packet_new_def demo_transfer_def)
  have service: "\<forall>m fd. Answered True m [fd] \<in> set (br_answers ?b) \<and> parse_u32 m = Inr n \<longrightarrow>
      s_sent (fd_sock fd) = [] \<and> unread (SSocket (fd_sock fd) None)
      = sy_out (snd (serve (\<lambda>_. demo_sync_env) 0 (demo_sync\<lparr>sy_in := client_session [47, 97] 420 [[1, 2], [3]] 5\<rparr>)))"
    by (simp add: broker_new_def flow_answers_def flow_service_def sock_new_def unread_def demo_reply_def
        demo_transfer_def)
  have out: "sy_out demo_sync = []" by (simp add: demo_sync_def)
  have ready: "transfer_ready (\<lambda>_. demo_sync_env) demo_sync [47, 97] 420 [[1, 2], [3]]"
    using demo_ready [of "sy_in demo_sync"] by simp
  have content: "concat [[1, 2], [3]] = [1, 2, 3 :: u8]" "420 AND 0x1FF = (420 :: u32)" by simp_all
  from push_pull_end_to_end [OF run str owner sent service s(2,3) ready out, unfolded content, folded demo_transfer_def]
    run c(2) show ?thesis by blast
qed

end
