(* ===== verification/Native_Crypto.thy ===== *)
theory Native_Crypto
  imports Pairing
begin

text \<open>
  \<open>src/native/crypto.c\<close> over BoringSSL: the identity it asks for, the TLS object with the verifier that
  pins the hosts' keys, and the set-up of SPAKE2. BoringSSL itself is a parameter, the records \<open>boring\<close>
  and \<open>spake\<close>; what it does out of memory is one of its failures. The results are the libraries
  \<open>ssl_ctx\<close>, \<open>ssl_lib\<close> and \<open>pake_lib\<close> of \<open>Tls\<close> and \<open>Pairing\<close>.
\<close>

section \<open>The identity\<close>

text \<open>What the certificate is made of; times are seconds from now.\<close>

record cert_spec =
  cs_bits :: nat
  cs_exponent :: nat
  cs_version :: nat
  cs_serial :: nat
  cs_not_before :: int
  cs_not_after :: int
  cs_subject :: "(string \<times> string) list"
  cs_issuer :: "(string \<times> string) list"

definition identity_spec :: cert_spec where
  "identity_spec =
     (let name = [(''CN'', ''altdb'')]
      in \<lparr>cs_bits = 2048, cs_exponent = 65537, cs_version = 2, cs_serial = 1, cs_not_before = - 86400,
          cs_not_after = 315360000, cs_subject = name, cs_issuer = name\<rparr>)"

text \<open>\<open>generate\<close> makes a key, has it sign the certificate, and renders both.\<close>

definition altdb_identity :: "(cert_spec \<Rightarrow> (u8 list \<times> u8 list) option) \<Rightarrow> int \<times> u8 list \<times> u8 list" where
  "altdb_identity generate =
     (case generate identity_spec of None \<Rightarrow> (0, [], []) | Some (k, c) \<Rightarrow> (1, k, c))"

section \<open>The TLS object\<close>

text \<open>The options of the context: the protocol versions, whether the peer is verified and must show
  a certificate, the session cache and tickets.\<close>

record tls_options =
  op_min_version :: nat
  op_max_version :: nat
  op_verify :: bool
  op_require_cert :: bool
  op_cache :: bool
  op_tickets :: bool

definition TLS1_3_VERSION :: nat where "TLS1_3_VERSION = 0x304"

definition tls_options :: tls_options where
  "tls_options =
     \<lparr>op_min_version = TLS1_3_VERSION, op_max_version = TLS1_3_VERSION, op_verify = True,
      op_require_cert = True, op_cache = False, op_tickets = False\<rparr>"

text \<open>
  BoringSSL. \<open>bo_new\<close> makes the session of a server from options, key and certificate. A call of
  \<open>bo_handshake\<close> may ask the verifier about the peer's certificate, if it has one; the verifier's
  answer decides how it goes on.
\<close>

record ('s, 'cert, 'key) boring =
  bo_new :: "tls_options \<Rightarrow> string \<Rightarrow> string \<Rightarrow> 's option"
  bo_handshake :: "'s \<Rightarrow> 'cert option option \<times> (bool \<Rightarrow> int \<times> 's)"
  bo_pubkey :: "'cert \<Rightarrow> 'key option"
  bo_der :: "'key \<Rightarrow> u8 list option"
  bo_sha256 :: "u8 list \<Rightarrow> u8 list"
  bo_push_ca :: "'s \<Rightarrow> (string \<times> string) list \<Rightarrow> bool \<times> 's"
  bo_export :: "'s \<Rightarrow> nat \<Rightarrow> u8 list \<Rightarrow> u8 list option"
  bo_error :: "'s \<Rightarrow> int \<Rightarrow> int"
  bo_read :: "'s \<Rightarrow> nat \<Rightarrow> (int \<times> u8 list) \<times> 's"
  bo_write :: "'s \<Rightarrow> u8 list \<Rightarrow> int \<times> 's"
  bo_feed :: "'s \<Rightarrow> u8 list \<Rightarrow> int \<times> 's"
  bo_drain :: "'s \<Rightarrow> nat \<Rightarrow> u8 list \<times> 's"

record 's altdb_tls =
  at_ssl :: 's
  at_allowed :: "u8 list"
  at_count :: nat
  at_pairing :: bool
  at_peer :: "u8 list"

definition key_fingerprint :: "('s, 'cert, 'key) boring \<Rightarrow> 'key \<Rightarrow> u8 list option" where
  "key_fingerprint bo key = map_option (bo_sha256 bo) (bo_der bo key)"

text \<open>
  \<open>verify_peer\<close>: the fingerprint of the certificate's key is kept, then compared with each of the
  allowed ones, of 32 bytes. When pairing, trust comes from SPAKE2.
\<close>

definition verify_peer ::
    "('s, 'cert, 'key) boring \<Rightarrow> 'cert option \<Rightarrow> 's altdb_tls \<Rightarrow> bool \<times> 's altdb_tls" where
  "verify_peer bo cert t =
     (case Option.bind (Option.bind cert (bo_pubkey bo)) (key_fingerprint bo) of
        None \<Rightarrow> (False, t)
      | Some fp \<Rightarrow>
          let t = t\<lparr>at_peer := fp\<rparr>
          in (at_pairing t \<or> list_ex (\<lambda>i. fp = take 32 (drop (32 * i) (at_allowed t))) [0..<at_count t], t))"

definition altdb_tls_new ::
    "('s, 'cert, 'key) boring \<Rightarrow> string \<Rightarrow> string \<Rightarrow> bool \<Rightarrow> u8 list \<Rightarrow> nat \<Rightarrow> 's altdb_tls option" where
  "altdb_tls_new bo key certificate pairing allowed count =
     (if I32_MAX < length key \<or> I32_MAX < length certificate \<or> 32 < count then None
      else map_option (\<lambda>s. \<lparr>at_ssl = s, at_allowed = take (32 * count) allowed, at_count = count,
          at_pairing = pairing, at_peer = replicate 32 0\<rparr>) (bo_new bo tls_options key certificate))"

definition altdb_tls_add_ca :: "('s, 'cert, 'key) boring \<Rightarrow> 's altdb_tls \<Rightarrow> string \<Rightarrow> int \<times> 's altdb_tls" where
  "altdb_tls_add_ca bo t fp =
     (let (ok, s) = bo_push_ca bo (at_ssl t) [(''O'', ''AdbKey-0''), (''CN'', fp)]
      in (if ok then 1 else 0, t\<lparr>at_ssl := s\<rparr>))"

definition altdb_tls_handshake :: "('s, 'cert, 'key) boring \<Rightarrow> 's altdb_tls \<Rightarrow> int \<times> 's altdb_tls" where
  "altdb_tls_handshake bo t =
     (let (asked, answer) = bo_handshake bo (at_ssl t);
          (ok, t) = (case asked of None \<Rightarrow> (True, t) | Some cert \<Rightarrow> verify_peer bo cert t);
          (n, s) = answer ok
      in (n, t\<lparr>at_ssl := s\<rparr>))"

text \<open>The label of the exporter includes its final zero.\<close>

definition altdb_tls_export :: "('s, 'cert, 'key) boring \<Rightarrow> 's altdb_tls \<Rightarrow> u8 list option" where
  "altdb_tls_export bo t = bo_export bo (at_ssl t) 64 (str_bytes (''adb-label'' @ [NUL]))"

text \<open>The two libraries that \<open>Tls\<close> uses; the remaining functions pass the session on.\<close>

definition on_ssl :: "('s \<Rightarrow> 'a \<times> 's) \<Rightarrow> 's altdb_tls \<Rightarrow> 'a \<times> 's altdb_tls" where
  "on_ssl f t = (let (r, s) = f (at_ssl t) in (r, t\<lparr>at_ssl := s\<rparr>))"

definition native_ctx :: "('s, 'cert, 'key) boring \<Rightarrow> 's altdb_tls ssl_ctx" where
  "native_ctx bo =
     \<lparr>sx_new = altdb_tls_new bo, sx_add_ca = altdb_tls_add_ca bo, sx_export = altdb_tls_export bo,
      sx_peer = at_peer\<rparr>"

definition native_ssl :: "('s, 'cert, 'key) boring \<Rightarrow> 's altdb_tls ssl_lib" where
  "native_ssl bo =
     \<lparr>ssl_handshake = altdb_tls_handshake bo, ssl_error = (\<lambda>t. bo_error bo (at_ssl t)),
      ssl_read = (\<lambda>t n. on_ssl (\<lambda>s. bo_read bo s n) t), ssl_write = (\<lambda>t b. on_ssl (\<lambda>s. bo_write bo s b) t),
      ssl_feed = (\<lambda>t b. on_ssl (\<lambda>s. bo_feed bo s b) t), ssl_drain = (\<lambda>t n. on_ssl (\<lambda>s. bo_drain bo s n) t)\<rparr>"

section \<open>Setting up SPAKE2\<close>

text \<open>
  The names include their final zeros. \<open>sp_message\<close> gives our message, \<open>sp_process\<close> the key material
  of the exchange; \<open>sp_hkdf\<close> derives so many bytes for a purpose, \<open>sp_aead\<close> makes an AES-GCM context.
\<close>

record ('ctx, 'key) spake =
  sp_new :: "bool \<Rightarrow> u8 list \<Rightarrow> u8 list \<Rightarrow> 'ctx option"
  sp_message :: "'ctx \<Rightarrow> u8 list \<Rightarrow> ('ctx \<times> u8 list) option"
  sp_process :: "'ctx \<Rightarrow> u8 list \<Rightarrow> u8 list option"
  sp_hkdf :: "u8 list \<Rightarrow> u8 list \<Rightarrow> nat \<Rightarrow> u8 list option"
  sp_aead :: "u8 list \<Rightarrow> 'key option"
  sp_seal :: "'key \<Rightarrow> u8 list \<Rightarrow> u8 list \<Rightarrow> u8 list option"
  sp_open :: "'key \<Rightarrow> u8 list \<Rightarrow> u8 list \<Rightarrow> u8 list option"

definition pake_name :: "bool \<Rightarrow> u8 list" where
  "pake_name server = str_bytes ((if server then ''adb pair server'' else ''adb pair client'') @ [NUL])"

definition altdb_pake_new :: "('ctx, 'key) spake \<Rightarrow> bool \<Rightarrow> u8 list \<Rightarrow> ('ctx \<times> u8 list) option" where
  "altdb_pake_new sp server secret =
     Option.bind (sp_new sp server (pake_name server) (pake_name (\<not> server))) (\<lambda>ctx. sp_message sp ctx secret)"

definition pake_info :: "u8 list" where
  "pake_info = str_bytes ''adb pairing_auth aes-128-gcm key''"

definition native_pake :: "('ctx, 'key) spake \<Rightarrow> ('ctx, 'key) pake_lib" where
  "native_pake sp =
     \<lparr>pk_start = altdb_pake_new sp, pk_process = sp_process sp,
      pk_derive = (\<lambda>material. Option.bind (sp_hkdf sp material pake_info 16) (sp_aead sp)),
      pk_seal = sp_seal sp, pk_open = sp_open sp\<rparr>"

end
