(* ===== verification/Host_Pinning.thy ===== *)
theory Host_Pinning
  imports Native_Crypto Transport_Invariant
begin

text \<open>
  From the verifier of \<open>src/native/crypto.c\<close> through \<open>Tls::accept\<close> to the requests of a connection: a
  host can only authenticate under a fingerprint that the connection was started with, and only with
  a certificate for that key.
\<close>

section \<open>What BoringSSL promises\<close>

text \<open>
  \<open>verified\<close> says of a session that the verifier has accepted the peer. A new session is not; only a
  handshake in which the verifier is asked and says yes makes it so, and then it is not asked again;
  with \<open>SSL_VERIFY_FAIL_IF_NO_PEER_CERT\<close> a handshake that succeeds is verified; moving bytes and
  naming authorities changes nothing. SHA-256 gives 32 bytes.
\<close>

definition verifies :: "('s, 'cert, 'key) boring \<Rightarrow> ('s \<Rightarrow> bool) \<Rightarrow> bool" where
  "verifies bo verified \<longleftrightarrow>
     (\<forall>k c s. bo_new bo tls_options k c = Some s \<longrightarrow> \<not> verified s)
       \<and> (\<forall>s ok. let (asked, answer) = bo_handshake bo s; (n, s') = answer ok
            in (verified s' \<longrightarrow> verified s \<or> asked \<noteq> None \<and> ok) \<and> (n = 1 \<longrightarrow> verified s')
              \<and> (verified s \<longrightarrow> asked = None))
       \<and> (\<forall>s x. verified (snd (bo_push_ca bo s x)) = verified s)
       \<and> (\<forall>s b. verified (snd (bo_feed bo s b)) = verified s)
       \<and> (\<forall>s n. verified (snd (bo_drain bo s n)) = verified s)
       \<and> (\<forall>b. length (bo_sha256 bo b) = 32)"

lemma verifies_handshake:
  assumes "verifies bo verified" and "bo_handshake bo s = (asked, answer)" and "answer ok = (n, s')"
  shows "verified s' \<Longrightarrow> verified s \<or> asked \<noteq> None \<and> ok" and "n = 1 \<Longrightarrow> verified s'"
    and "verified s \<Longrightarrow> asked = None"
proof -
  from assms(1) have "let (asked, answer) = bo_handshake bo s; (n, s') = answer ok
      in (verified s' \<longrightarrow> verified s \<or> asked \<noteq> None \<and> ok) \<and> (n = 1 \<longrightarrow> verified s') \<and> (verified s \<longrightarrow> asked = None)"
    unfolding verifies_def by blast
  with assms(2,3) show "verified s' \<Longrightarrow> verified s \<or> asked \<noteq> None \<and> ok" "n = 1 \<Longrightarrow> verified s'"
    "verified s \<Longrightarrow> asked = None" by (simp_all add: Let_def)
qed

lemma verifies_moves:
  assumes "verifies bo verified"
  shows "verified (snd (bo_push_ca bo s x)) = verified s" and "verified (snd (bo_feed bo s b)) = verified s"
    and "verified (snd (bo_drain bo s n)) = verified s"
    and "bo_new bo tls_options k c = Some s \<Longrightarrow> \<not> verified s" and "length (bo_sha256 bo b) = 32"
  using assms unfolding verifies_def by blast+

section \<open>The verifier pins the key\<close>

text \<open>A certificate for a key with the fingerprint \<open>fp\<close>.\<close>

definition shows_key :: "('s, 'cert, 'key) boring \<Rightarrow> 'cert \<Rightarrow> u8 list \<Rightarrow> bool" where
  "shows_key bo cert fp \<longleftrightarrow> Option.bind (bo_pubkey bo cert) (key_fingerprint bo) = Some fp"

text \<open>The TLS object of a connection that allows the keys \<open>fs\<close>: a verified peer has one of them.\<close>

definition pinned :: "('s, 'cert, 'key) boring \<Rightarrow> ('s \<Rightarrow> bool) \<Rightarrow> u8 list list \<Rightarrow> 's altdb_tls \<Rightarrow> bool" where
  "pinned bo verified fs t \<longleftrightarrow>
     at_allowed t = concat fs \<and> at_count t = length fs \<and> \<not> at_pairing t
       \<and> (verified (at_ssl t) \<longrightarrow> at_peer t \<in> set fs \<and> (\<exists>cert. shows_key bo cert (at_peer t)))"

lemma take_drop_concat:
  "list_all (\<lambda>f. length f = 32) fs \<Longrightarrow> i < length fs \<Longrightarrow> take 32 (drop (32 * i) (concat fs)) = fs ! i"
proof (induction fs arbitrary: i)
  case (Cons f fs)
  then show ?case by (cases i) simp_all
qed simp

lemma verify_peer_iff:
  assumes "verify_peer bo cert t = (ok, t')" and "at_allowed t = concat fs" and "at_count t = length fs"
    and "list_all (\<lambda>f. length f = 32) fs" and "\<not> at_pairing t"
  shows "ok \<longleftrightarrow> (\<exists>c fp. cert = Some c \<and> shows_key bo c fp \<and> fp \<in> set fs)"
    and "ok \<Longrightarrow> at_peer t' \<in> set fs \<and> (\<exists>c. cert = Some c \<and> shows_key bo c (at_peer t'))"
    and "t' = t\<lparr>at_peer := at_peer t'\<rparr>"
proof -
  have ex: "list_ex (\<lambda>i. fp = take 32 (drop (32 * i) (concat fs))) [0..<length fs] \<longleftrightarrow> fp \<in> set fs" for fp
    using assms(4) by (auto simp: list_ex_iff take_drop_concat in_set_conv_nth)
  show "t' = t\<lparr>at_peer := at_peer t'\<rparr>"
    using assms(1) by (auto simp: verify_peer_def Let_def split: option.splits)
  show "ok \<longleftrightarrow> (\<exists>c fp. cert = Some c \<and> shows_key bo c fp \<and> fp \<in> set fs)"
    using assms(1,2,3,5) by (cases cert) (auto simp: verify_peer_def shows_key_def ex split: option.splits)
  show "at_peer t' \<in> set fs \<and> (\<exists>c. cert = Some c \<and> shows_key bo c (at_peer t'))" if ok
    using assms(1,2,3,5) that by (cases cert) (auto simp: verify_peer_def shows_key_def ex split: option.splits)
qed

lemma handshake_pinned:
  assumes "verifies bo verified" and "list_all (\<lambda>f. length f = 32) fs" and "pinned bo verified fs t"
    and "altdb_tls_handshake bo t = (n, t')"
  shows "pinned bo verified fs t' \<and> (n = 1 \<longrightarrow> verified (at_ssl t'))"
proof -
  obtain asked answer where h: "bo_handshake bo (at_ssl t) = (asked, answer)" by (rule prod.exhaust)
  define v where "v = (case asked of None \<Rightarrow> (True, t) | Some cert \<Rightarrow> verify_peer bo cert t)"
  obtain ok u where v: "v = (ok, u)" by (rule prod.exhaust)
  obtain m s where a: "answer ok = (m, s)" by (rule prod.exhaust)
  have t': "n = m" "t' = u\<lparr>at_ssl := s\<rparr>"
    using assms(4) h v a by (auto simp: altdb_tls_handshake_def v_def)
  note law = verifies_handshake [OF assms(1) h a]
  show ?thesis
  proof (cases asked)
    case None
    then have "u = t" using v by (simp add: v_def)
    with None law t' assms(3) show ?thesis by (auto simp: pinned_def)
  next
    case (Some cert)
    then have vp: "verify_peer bo cert t = (ok, u)" using v by (simp add: v_def)
    have "\<not> verified (at_ssl t)" using law(3) Some by blast
    from assms(3) have "at_allowed t = concat fs" "at_count t = length fs" "\<not> at_pairing t"
      by (simp_all add: pinned_def)
    note facts = verify_peer_iff [OF vp this(1,2) assms(2) this(3)]
    have "t' = t\<lparr>at_peer := at_peer u, at_ssl := s\<rparr>" using t'(2) facts(3) by (metis altdb_tls.fold_congs(1))
    moreover have "verified s \<Longrightarrow> at_peer u \<in> set fs \<and> (\<exists>c. shows_key bo c (at_peer u))"
      using law(1) facts(2) \<open>\<not> verified (at_ssl t)\<close> by blast
    ultimately show ?thesis using law(2) assms(3) t'(1) by (auto simp: pinned_def)
  qed
qed

section \<open>The handshake of the connection\<close>

text \<open>What draining keeps of the library's object, flushing keeps.\<close>

lemma drain_loop_keeps:
  "(\<And>ssl n. P ssl \<Longrightarrow> P (snd (ssl_drain lib ssl n))) \<Longrightarrow> drain_loop lib ssl out = (r, ssl', out') \<Longrightarrow> P ssl \<Longrightarrow> P ssl'"
proof (induction lib ssl out rule: drain_loop.induct)
  case (1 lib ssl out)
  obtain b s where d: "ssl_drain lib ssl 65536 = (b, s)" by (rule prod.exhaust)
  have "P s" using "1.prems"(1) [OF "1.prems"(3), of 65536] d by simp
  with 1 d show ?case by (auto simp: drain_loop.simps [of lib ssl out] split: if_splits)
qed

lemma tls_flush_keeps:
  assumes "\<And>ssl n. P ssl \<Longrightarrow> P (snd (ssl_drain lib ssl n))" and "tls_flush lib t = (r, t')" and "P (t_ssl t)"
  shows "P (t_ssl t')"
proof -
  obtain x ssl out where d: "drain_loop lib (t_ssl t) (drop (t_off t) (t_out t)) = (x, ssl, out)"
    by (rule prod_cases3)
  have "P ssl" by (rule drain_loop_keeps [where P = P, OF assms(1) d assms(3)])
  with assms(2) d show ?thesis by (auto simp: tls_flush_def tls_drain_def split: sum.splits prod.splits)
qed

lemma tls_feed_keeps:
  assumes "\<And>ssl b. P ssl \<Longrightarrow> P (snd (ssl_feed lib ssl b))" and "tls_feed lib t = (r, t')" and "P (t_ssl t)"
  shows "P (t_ssl t')"
proof -
  obtain x sock where r: "sock_read 65536 (t_sock t) = (x, sock)" by (rule prod.exhaust)
  show ?thesis
  proof (cases x)
    case (Inr b)
    obtain n ssl where "ssl_feed lib (t_ssl t) b = (n, ssl)" by (rule prod.exhaust)
    with assms(2,3) r Inr assms(1) [OF assms(3), of b] show ?thesis
      by (auto simp: tls_feed_def Let_def split: if_splits)
  qed (use assms(2,3) r in \<open>auto simp: tls_feed_def\<close>)
qed

lemma on_ssl_pinned:
  assumes "pinned bo verified fs t" and "verified (snd (f (at_ssl t))) = verified (at_ssl t)"
  shows "pinned bo verified fs (snd (on_ssl f t))"
  using assms by (cases "f (at_ssl t)") (simp add: on_ssl_def pinned_def)

lemma on_ssl_at [simp]: "at_ssl (snd (on_ssl f t)) = snd (f (at_ssl t))"
  by (cases "f (at_ssl t)") (simp add: on_ssl_def)

lemma accept_loop_pinned:
  assumes "verifies bo verified" and "list_all (\<lambda>f. length f = 32) fs"
  shows "accept_loop (native_ssl bo) deadline clock t = Some (Inr u, t') \<Longrightarrow> pinned bo verified fs (t_ssl t) \<Longrightarrow>
    pinned bo verified fs (t_ssl t') \<and> verified (at_ssl (t_ssl t'))"
proof (induction clock arbitrary: t)
  case (Cons now clock)
  have drain: "pinned bo verified fs s \<and> (n = 1 \<longrightarrow> verified (at_ssl s)) \<Longrightarrow>
      pinned bo verified fs (snd (ssl_drain (native_ssl bo) s m)) \<and>
      (n = 1 \<longrightarrow> verified (at_ssl (snd (ssl_drain (native_ssl bo) s m))))" for s m and n :: int
    using on_ssl_pinned [of bo verified fs s "\<lambda>s. bo_drain bo s m"]
    by (simp add: native_ssl_def verifies_moves [OF assms(1)])
  have feed: "pinned bo verified fs s \<Longrightarrow> pinned bo verified fs (snd (ssl_feed (native_ssl bo) s b))" for s b
    by (simp add: native_ssl_def verifies_moves [OF assms(1)] on_ssl_pinned)
  obtain n s where h: "ssl_handshake (native_ssl bo) (t_ssl t) = (n, s)" by (rule prod.exhaust)
  have s: "pinned bo verified fs s \<and> (n = 1 \<longrightarrow> verified (at_ssl s))"
    using handshake_pinned [OF assms Cons.prems(2)] h by (simp add: native_ssl_def)
  obtain f t1 where f: "tls_flush (native_ssl bo) (t\<lparr>t_ssl := s\<rparr>) = (f, t1)" by (rule prod.exhaust)
  have t1: "pinned bo verified fs (t_ssl t1) \<and> (n = 1 \<longrightarrow> verified (at_ssl (t_ssl t1)))"
    by (rule tls_flush_keeps [where P = "\<lambda>s. pinned bo verified fs s \<and> (n = 1 \<longrightarrow> verified (at_ssl s))", OF drain f])
      (use s in simp_all)
  have fed: "pinned bo verified fs (t_ssl t2)" if "tls_feed (native_ssl bo) t1 = (x, t2)" for x t2
    by (rule tls_feed_keeps [where P = "pinned bo verified fs", OF feed that]) (use t1 in simp_all)
  have now: "now < deadline" and "n = 1 \<or> n \<noteq> 1" and ok: "f = Inr ()"
    using Cons.prems(1) h f by (auto simp: Let_def split: if_splits sum.splits)
  consider (finished) "n = 1" | (starved) "n \<noteq> 1" "ssl_error (native_ssl bo) s n = 2"
    | (again) "n \<noteq> 1" "ssl_error (native_ssl bo) s n = 3"
    using Cons.prems(1) h f ok now by (auto simp: Let_def split: if_splits)
  then show ?case
  proof cases
    case finished
    with Cons.prems(1) h f ok now t1 show ?thesis by simp
  next
    case starved
    then obtain t2 where t2: "tls_feed (native_ssl bo) t1 = (Inr (), t2)"
        and run: "accept_loop (native_ssl bo) deadline clock t2 = Some (Inr u, t')"
      using Cons.prems(1) h f ok now by (auto simp: Let_def split: sum.splits prod.splits)
    show ?thesis by (rule Cons.IH [OF run]) (rule fed [OF t2])
  next
    case again
    with Cons.prems(1) h f ok now have "accept_loop (native_ssl bo) deadline clock t1 = Some (Inr u, t')"
      by (simp add: Let_def)
    from Cons.IH [OF this] t1 show ?thesis by blast
  qed
qed simp

lemma allowed_keys_hex:
  "list_all (\<lambda>f. length f = 32) fs \<Longrightarrow> allowed_keys (map hex fs) = Inr (concat fs)"
  by (induction fs) (simp_all add: unhex_hex)

lemma add_cas_pinned:
  assumes "verifies bo verified"
  shows "add_cas (native_ctx bo) fps t = (r, t') \<Longrightarrow> pinned bo verified fs t \<Longrightarrow> pinned bo verified fs t'"
proof (induction fps arbitrary: t)
  case (Cons fp fps)
  obtain ok s where p: "bo_push_ca bo (at_ssl t) [(''O'', ''AdbKey-0''), (''CN'', map to_upper fp)] = (ok, s)"
    by (rule prod.exhaust)
  have "verified s = verified (at_ssl t)"
    using verifies_moves(1) [OF assms, of "at_ssl t" "[(''O'', ''AdbKey-0''), (''CN'', map to_upper fp)]"] p by simp
  then have "pinned bo verified fs (t\<lparr>at_ssl := s\<rparr>)" using Cons.prems(2) by (simp add: pinned_def)
  with Cons p show ?case by (auto simp: native_ctx_def altdb_tls_add_ca_def split: if_splits)
qed simp

lemma tls_accept_pinned:
  assumes "verifies bo verified" and "list_all (\<lambda>f. length f = 32) fs"
    and "tls_accept (native_ctx bo) (native_ssl bo) opt start clock k key cert (map hex fs) False = Some (Inr t)"
  shows "at_peer (t_ssl t) \<in> set fs \<and> (\<exists>c. shows_key bo c (at_peer (t_ssl t)))"
proof -
  obtain s0 where new: "altdb_tls_new bo key cert False (concat fs) (length fs) = Some s0"
    using assms(3) allowed_keys_hex [OF assms(2)]
    by (auto simp: tls_accept_def native_ctx_def split: option.splits sum.splits)
  obtain r s1 where add: "add_cas (native_ctx bo) (map hex fs) s0 = (r, s1)" by (rule prod.exhaust)
  have "length (concat fs) = 32 * length fs" using assms(2) by (induction fs) simp_all
  then have "pinned bo verified fs s0"
    using new by (auto simp: altdb_tls_new_def pinned_def split: if_splits dest: verifies_moves(4) [OF assms(1)])
  then have s1: "pinned bo verified fs s1" by (rule add_cas_pinned [OF assms(1) add])
  have "\<exists>u. accept_loop (native_ssl bo) (start + secs 10) clock
      \<lparr>t_ssl = s1, t_sock = k, t_out = [], t_off = 0, t_plain = []\<rparr> = Some (Inr u, t)"
    using assms(3) new add allowed_keys_hex [OF assms(2)]
    by (auto simp: tls_accept_def native_ctx_def Let_def split: option.splits sum.splits prod.splits)
  then obtain u where "accept_loop (native_ssl bo) (start + secs 10) clock
      \<lparr>t_ssl = s1, t_sock = k, t_out = [], t_off = 0, t_plain = []\<rparr> = Some (Inr u, t)" by blast
  from accept_loop_pinned [OF assms(1,2) this] s1 show ?thesis by (simp add: pinned_def)
qed

section \<open>Who can authenticate\<close>

text \<open>
  C12: a connection speaks for a paired host or not at all. The worker starts a connection with the
  fingerprints of the hosts paired at that moment, in their stored form. Whatever the peer sends, if
  BoringSSL keeps its promises, the connection makes no request to the supervisor, or its first one is
  the authentication under the fingerprint of a certificate's key, which is one of those it was
  started with; it authenticates under no other.
\<close>

theorem sessions_pin_hosts:
  assumes "verifies bo verified" and "list_all (\<lambda>f. length f = 32) fs" and "bt_ok (br_peers b)"
    and "transport_run sk opts send rx
        (\<lambda>rx. tls_accept (native_ctx bo) (native_ssl bo) opt start clock (socket rx) key cert (map hex fs) False)
        (tls_peer (native_ctx bo)) nb turns t b = Some (r, b')"
  shows "\<exists>rs. requests b' = requests b @ rs
    \<and> (rs = [] \<or> (\<exists>f \<in> set fs. \<exists>c. shows_key bo c f \<and> hd rs = Authenticated t (hex f)
          \<and> list_all (\<lambda>q. \<forall>i fp. q \<noteq> Authenticated i fp) (tl rs)))"
proof -
  have no: "list_all (\<lambda>q. \<forall>i fp. q \<noteq> Authenticated i fp) rs" if "list_all (own_request t) rs" for rs
    using that by (auto simp: list_all_iff)
  from session_requests [OF assms(4,3)] consider "requests b' = requests b"
    | tls rx' rs where "tls_accept (native_ctx bo) (native_ssl bo) opt start clock (socket rx') key cert (map hex fs) False
          = Some (Inr tls)" "requests b' = requests b @ Authenticated t (tls_peer (native_ctx bo) tls) # rs"
        "list_all (\<lambda>q. \<forall>i fp. q \<noteq> Authenticated i fp) rs"
    by (fastforce dest: no)
  then show ?thesis
  proof cases
    case (2 tls rx' rs)
    from tls_accept_pinned [OF assms(1,2) this(1)] 2 show ?thesis
      by (auto simp: tls_peer_def native_ctx_def)
  qed simp
qed

text \<open>A BoringSSL whose peer always shows the certificate \<open>[7]\<close>, the key of which is allowed.\<close>

definition demo_boring :: "(bool, u8 list, u8 list) boring" where
  "demo_boring =
     \<lparr>bo_new = (\<lambda>_ _ _. Some False),
      bo_handshake = (\<lambda>s. if s then (None, \<lambda>_. (1, True)) else (Some (Some [7]), \<lambda>ok. (if ok then 1 else - 1, ok))),
      bo_pubkey = Some, bo_der = Some, bo_sha256 = (\<lambda>b. take 32 (b @ replicate 32 0)),
      bo_push_ca = (\<lambda>s _. (True, s)), bo_export = (\<lambda>_ _ _. None), bo_error = (\<lambda>_ _. 1),
      bo_read = (\<lambda>s _. ((0, []), s)), bo_write = (\<lambda>s _. (0, s)), bo_feed = (\<lambda>s b. (int (length b), s)),
      bo_drain = (\<lambda>s _. ([], s))\<rparr>"

definition pin_key :: "u8 list" where
  "pin_key = 7 # replicate 31 0"

definition idle_sink :: "'o sink" where
  "idle_sink = \<lparr>sk_put = (\<lambda>_ o1. (Inr (), o1)), sk_flush = (\<lambda>o1. (Inr (), o1)), sk_queued = (\<lambda>_. 0),
     sk_plain = (\<lambda>_. []), sk_read = (\<lambda>_ _. None)\<rparr>"

definition pin_run :: "((err + unit) \<times> broker) option" where
  "pin_run = transport_run idle_sink None (\<lambda>_. Inr ()) demo_rx
     (\<lambda>rx. tls_accept (native_ctx demo_boring) (native_ssl demo_boring) (\<lambda>_. None) 0 [0] (sock_new [] []) [] []
        (map hex [pin_key]) False)
     (tls_peer (native_ctx demo_boring)) None [] 1 (broker_new [Answered False ''busy'' []])"

lemma demo_boring_verifies: "verifies demo_boring id"
  by (simp add: verifies_def demo_boring_def) arith

lemma pin_accept:
  "\<exists>t. tls_accept (native_ctx demo_boring) (native_ssl demo_boring) (\<lambda>_. None) 0 [0] (sock_new [] []) [] []
      (map hex [pin_key]) False = Some (Inr t)"
  by (simp add: tls_accept_def opt_result_def unhex_hex pin_key_def native_ctx_def native_ssl_def altdb_tls_new_def
      demo_boring_def altdb_tls_add_ca_def altdb_tls_handshake_def verify_peer_def key_fingerprint_def secs_def
      tls_flush_def tls_drain_def drain_loop.simps [of _ _ "[]"] flush_loop.simps [of _ "[]"] on_ssl_def Let_def)

lemma pin_run_asks: "\<exists>r b' f. pin_run = Some (r, b') \<and> requests b' = [Authenticated 1 f]"
  using pin_accept
  by (auto simp: pin_run_def transport_run_def opt_result_def demo_exchange broker_new_def broker_call_eq
      broker_exchange_def requests_def Let_def)

theorem sessions_pin_hosts_witness:
  "\<exists>r b' c. pin_run = Some (r, b') \<and> requests b' = [Authenticated 1 (hex pin_key)] \<and> shows_key demo_boring c pin_key"
proof -
  obtain r b' f where run: "pin_run = Some (r, b')" and asks: "requests b' = [Authenticated 1 f]"
    using pin_run_asks by blast
  have "\<exists>rs. requests b' = requests (broker_new [Answered False ''busy'' []]) @ rs
    \<and> (rs = [] \<or> (\<exists>f \<in> set [pin_key]. \<exists>c. shows_key demo_boring c f \<and> hd rs = Authenticated 1 (hex f)
          \<and> list_all (\<lambda>q. \<forall>i fp. q \<noteq> Authenticated i fp) (tl rs)))"
    by (rule sessions_pin_hosts [OF demo_boring_verifies _ _ run [unfolded pin_run_def]])
      (simp_all add: pin_key_def broker_new_def)
  then have "f = hex pin_key" and "\<exists>c. shows_key demo_boring c pin_key"
    using asks by (auto simp: requests_def broker_new_def)
  with run asks show ?thesis by blast
qed

end
