(* ===== verification/Build_Script.thy ===== *)
theory Build_Script
  imports Prelude
begin

text \<open>
  \<open>src/build.rs\<close>: the build script, which compiles the native library with cmake and tells cargo
  what to link. The environment variables, whether a file exists and the outcomes of the tools are
  parameters; a panic is an error. Paths are those of a Unix build host.
\<close>

section \<open>Paths\<close>

definition join :: "string \<Rightarrow> string \<Rightarrow> string" where
  "join p q =
     (if starts_with q ''/'' then q
      else if p = [] \<or> last p = CHR ''/'' then p @ q else p @ CHR ''/'' # q)"

text \<open>A path without trailing separators and trailing \<open>.\<close> components; the root stays.\<close>

function trim_back :: "string \<Rightarrow> string" where
  "trim_back s =
     (if 1 < length s \<and> (last s = CHR ''/'' \<or> (last s = CHR ''.'' \<and> last (butlast s) = CHR ''/''))
      then trim_back (butlast s) else s)"
  by pat_completeness auto
termination
  by (relation "measure length") auto

declare trim_back.simps [simp del]

definition parent :: "string \<Rightarrow> string option" where
  "parent s =
     (let t = trim_back s
      in if t = [] \<or> t = ''/'' then None
         else Some (trim_back (rev (dropWhile (\<lambda>c. c \<noteq> CHR ''/'') (rev t)))))"

fun ancestor :: "nat \<Rightarrow> string \<Rightarrow> string option" where
  "ancestor 0 s = Some s"
| "ancestor (Suc n) s = (case parent s of None \<Rightarrow> None | Some p \<Rightarrow> ancestor n p)"

definition slashes :: "string \<Rightarrow> string" where
  "slashes = map (\<lambda>c. if c = CHR 0x5C then CHR ''/'' else c)"

section \<open>The script\<close>

text \<open>\<open>Cargo k v\<close> is the line \<open>cargo:k=v\<close>; \<open>Ran\<close> is a command with the success of its exit status; a tool of the list \<open>bd_tools\<close> that is
  \<open>None\<close> cannot be executed.\<close>

datatype build_event = Cargo string string | Ran "string list" bool

record build =
  bd_events :: "build_event list"
  bd_tools :: "bool option list"

definition tell :: "(string \<times> string) list \<Rightarrow> build \<Rightarrow> (unit, build) outcome" where
  "tell ls b = (Inr (), b\<lparr>bd_events := bd_events b @ map (\<lambda>(k, v). Cargo k v) ls\<rparr>)"

definition run_tool :: "string list \<Rightarrow> build \<Rightarrow> (unit, build) outcome" where
  "run_tool cmd b =
     (case bd_tools b of
        Some ok # ts \<Rightarrow>
          (ensure ok (Msg ''native build failed''), b\<lparr>bd_events := bd_events b @ [Ran cmd ok], bd_tools := ts\<rparr>)
      | _ # ts \<Rightarrow> (Inl (Msg ''could not execute native build tool''), b\<lparr>bd_tools := ts\<rparr>)
      | [] \<Rightarrow> (Inl (Msg ''could not execute native build tool''), b))"

definition need :: "string \<Rightarrow> string option \<Rightarrow> build \<Rightarrow> (string, build) outcome" where
  "need message v b = ((case v of None \<Rightarrow> Inl (Msg message) | Some x \<Rightarrow> Inr x), b)"

text \<open>The arguments that select the Android toolchain, and the search paths it needs: those of the
  API level first.\<close>

definition android_setup :: "(string \<Rightarrow> string option) \<Rightarrow> build \<Rightarrow> (string list, build) outcome" where
  "android_setup env b =
     sbind (need ''build Android with cargo ndk -t arm64-v8a -P 30 build --locked --release'' (env ''CARGO_NDK_SYSROOT_PATH'') b) (\<lambda>sysroot b.
     sbind (need ''missing variable'' (env ''CARGO_NDK_SYSROOT_LIBS_PATH'') b) (\<lambda>libs b.
     sbind (need ''invalid cargo-ndk sysroot'' (ancestor 5 sysroot) b) (\<lambda>ndk b.
     sbind (tell [(''rustc-link-arg'', ''-Wl,-z,max-page-size=16384''),
         (''rustc-link-search'', ''native='' @ join libs ''30''),
         (''rustc-link-search'', ''native='' @ libs)] b) (\<lambda>_ b.
       (Inr [''-DCMAKE_ANDROID_NDK='' @ slashes ndk, ''-DCMAKE_SYSTEM_NAME=Android'',
             ''-DCMAKE_SYSTEM_VERSION=30'', ''-DCMAKE_ANDROID_ARCH_ABI=arm64-v8a'',
             ''-DCMAKE_ANDROID_STL_TYPE=c++_static''], b)))))"

definition configure_command :: "string \<Rightarrow> string \<Rightarrow> string \<Rightarrow> string list" where
  "configure_command root source out =
     [''cmake'', ''-S'', join root ''native'', ''-B'', out, ''-G'', ''Ninja'', ''-DCMAKE_BUILD_TYPE=Release'',
      ''-DCMAKE_POSITION_INDEPENDENT_CODE=ON'', ''-DBORINGSSL_SOURCE_DIR='' @ slashes source]"

definition build_command :: "(string \<Rightarrow> string option) \<Rightarrow> string \<Rightarrow> string list" where
  "build_command env out =
     [''cmake'', ''--build'', out, ''--target'', ''altdb_crypto'', ''--parallel'',
      (case env ''ALTDB_NATIVE_JOBS'' of None \<Rightarrow> ''4'' | Some n \<Rightarrow> n)]"

text \<open>Building the library and telling cargo what to link.\<close>

definition native_build ::
    "(string \<Rightarrow> string option) \<Rightarrow> (string \<Rightarrow> bool) \<Rightarrow> bool \<Rightarrow> build \<Rightarrow> (unit, build) outcome" where
  "native_build env is_file android b =
     sbind (need ''missing variable'' (env ''CARGO_MANIFEST_DIR'') b) (\<lambda>root b.
     let source = (case env ''ALTDB_BORINGSSL_DIR'' of None \<Rightarrow> join root ''vendor/boringssl'' | Some s \<Rightarrow> s)
     in sbind (ensure (is_file (join source ''CMakeLists.txt''))
          (Msg ''BoringSSL is missing; run python3 scripts/fetch-deps.py''), b) (\<lambda>_ b.
        sbind (need ''missing variable'' (env ''OUT_DIR'') b) (\<lambda>dir b.
        let out = join dir ''native-cargo-ndk''
        in sbind (if android then android_setup env b else (Inr [], b)) (\<lambda>args b.
           sbind (run_tool (configure_command root source out @ args) b) (\<lambda>_ b.
           sbind (run_tool (build_command env out) b) (\<lambda>_ b.
             tell ([(''rustc-link-search'', ''native='' @ join out ''lib''),
               (''rustc-link-lib'', ''static=altdb_crypto''), (''rustc-link-lib'', ''static=ssl''),
               (''rustc-link-lib'', ''static=crypto'')]
               @ (if android then [(''rustc-link-lib'', ''static=c++_static''), (''rustc-link-lib'', ''static=c++abi'')]
                  else [(''rustc-link-lib'', ''stdc++'')])) b))))))"

definition build_main :: "(string \<Rightarrow> string option) \<Rightarrow> (string \<Rightarrow> bool) \<Rightarrow> build \<Rightarrow> (unit, build) outcome" where
  "build_main env is_file b =
     sbind (need ''missing variable'' (env ''TARGET'') b) (\<lambda>target b.
     sbind (need ''missing variable'' (env ''CARGO_CFG_TARGET_OS'') b) (\<lambda>target_os b.
     sbind (ensure (target = ''aarch64-linux-android'' \<or> target_os = ''linux'')
         (Msg ''supported targets are aarch64-linux-android and native Linux''), b) (\<lambda>_ b.
     sbind (tell ([(''rerun-if-changed'', ''native''), (''rerun-if-changed'', ''vendor/boringssl.lock.json'')]
         @ map (Pair ''rerun-if-env-changed'')
             [''ALTDB_BORINGSSL_DIR'', ''ALTDB_NATIVE_JOBS'', ''CARGO_NDK_SYSROOT_PATH'',
              ''CARGO_NDK_SYSROOT_LIBS_PATH'']) b) (\<lambda>_ b.
       if target_os = ''android'' \<and> env ''CARGO_NDK_SYSROOT_PATH'' = None then
         tell [(''rustc-link-lib'', ''static=altdb_crypto''),
           (''warning'', ''Android metadata only; use cargo ndk -t arm64-v8a -P 30 build for native linking'')] b
       else native_build env is_file (target_os = ''android'') b))))"

section \<open>What a build that succeeded did\<close>

fun tools_run :: "build_event list \<Rightarrow> (string list \<times> bool) list" where
  "tools_run [] = []"
| "tools_run (Ran c ok # es) = (c, ok) # tools_run es"
| "tools_run (Cargo _ _ # es) = tools_run es"

fun link_search :: "build_event list \<Rightarrow> string list" where
  "link_search [] = []"
| "link_search (Ran _ _ # es) = link_search es"
| "link_search (Cargo k v # es) =
     (if k = ''rustc-link-search'' then case strip_prefix ''native='' v of Some d \<Rightarrow> [d] | None \<Rightarrow> [] else [])
     @ link_search es"

lemma tools_run_append [simp]: "tools_run (xs @ ys) = tools_run xs @ tools_run ys"
  by (induction xs rule: tools_run.induct) auto

lemma link_search_append [simp]: "link_search (xs @ ys) = link_search xs @ link_search ys"
  by (induction xs rule: link_search.induct) auto

lemma need_ok [simp]: "need m v b = (Inr x, b') \<longleftrightarrow> v = Some x \<and> b' = b"
  by (auto simp: need_def split: option.splits)

lemma run_tool_ok:
  "run_tool c b = (Inr u, b') \<Longrightarrow> bd_events b' = bd_events b @ [Ran c True]"
  by (auto simp: run_tool_def ensure_def split: list.splits option.splits if_splits)

lemma android_setup_ok:
  assumes "android_setup env b = (Inr args, b')"
  obtains libs es where "env ''CARGO_NDK_SYSROOT_LIBS_PATH'' = Some libs" and "bd_events b' = bd_events b @ es"
    and "tools_run es = []" and "link_search es = [join libs ''30'', libs]"
  using assms by (auto simp: android_setup_def tell_def sbind_eq_Inr_iff intro!: that)

lemma native_build_ok:
  assumes "native_build env is_file android b = (Inr u, b')"
  obtains root source args dir out es where
    "bd_events b' = bd_events b @ es"
    and "tools_run es = [(configure_command root source out @ args, True), (build_command env out, True)]"
    and "env ''OUT_DIR'' = Some dir" and "out = join dir ''native-cargo-ndk''"
    and "is_file (join source ''CMakeLists.txt'')" and "Cargo ''rustc-link-lib'' ''static=altdb_crypto'' \<in> set es"
    and "android \<Longrightarrow> \<exists>libs. env ''CARGO_NDK_SYSROOT_LIBS_PATH'' = Some libs
      \<and> link_search es = [join libs ''30'', libs, join out ''lib'']"
    and "\<not> android \<Longrightarrow> link_search es = [join out ''lib'']"
proof -
  from assms obtain root source dir b1 args b2 b3 where
    f: "is_file (join source ''CMakeLists.txt'')" and d: "env ''OUT_DIR'' = Some dir"
    and a: "(if android then android_setup env b else (Inr [], b)) = (Inr args, b1)"
    and c: "run_tool (configure_command root source (join dir ''native-cargo-ndk'') @ args) b1 = (Inr (), b2)"
    and n: "run_tool (build_command env (join dir ''native-cargo-ndk'')) b2 = (Inr (), b3)"
    and e: "b' = snd (tell ([(''rustc-link-search'', ''native='' @ join (join dir ''native-cargo-ndk'') ''lib''),
               (''rustc-link-lib'', ''static=altdb_crypto''), (''rustc-link-lib'', ''static=ssl''),
               (''rustc-link-lib'', ''static=crypto'')]
               @ (if android then [(''rustc-link-lib'', ''static=c++_static''), (''rustc-link-lib'', ''static=c++abi'')]
                  else [(''rustc-link-lib'', ''stdc++'')])) b3)"
    by (auto simp: native_build_def sbind_eq_Inr_iff Let_def)
  obtain es where es: "bd_events b1 = bd_events b @ es" "tools_run es = []"
    "android \<Longrightarrow> \<exists>libs. env ''CARGO_NDK_SYSROOT_LIBS_PATH'' = Some libs \<and> link_search es = [join libs ''30'', libs]"
    "\<not> android \<Longrightarrow> link_search es = []"
  proof (cases android)
    case True
    with a show thesis by (auto elim!: android_setup_ok intro!: that)
  next
    case False
    with a show thesis by (auto intro!: that [of "[]"])
  qed
  from run_tool_ok [OF c] run_tool_ok [OF n] e es f d show thesis
    by (intro that) (auto simp: tell_def)
qed

text \<open>
  A build that succeeds is complete. Either it is the metadata-only build for Android, which runs no
  tool and still requires the native library, so that linking cannot succeed without it; or cmake
  has configured and then built the library in one directory, both with success, cargo searches that
  directory, and for Android the libraries of the API level come before the common ones.
\<close>

theorem build_complete:
  assumes "build_main env is_file \<lparr>bd_events = [], bd_tools = tools\<rparr> = (Inr u, b)"
  shows "tools_run (bd_events b) = [] \<and> env ''CARGO_NDK_SYSROOT_PATH'' = None
      \<and> Cargo ''rustc-link-lib'' ''static=altdb_crypto'' \<in> set (bd_events b)
    \<or> (\<exists>root source args dir out.
         tools_run (bd_events b) = [(configure_command root source out @ args, True), (build_command env out, True)]
         \<and> env ''OUT_DIR'' = Some dir \<and> out = join dir ''native-cargo-ndk'' \<and> is_file (join source ''CMakeLists.txt'')
         \<and> Cargo ''rustc-link-lib'' ''static=altdb_crypto'' \<in> set (bd_events b)
         \<and> (env ''CARGO_CFG_TARGET_OS'' = Some ''android'' \<longrightarrow>
              (\<exists>libs. env ''CARGO_NDK_SYSROOT_LIBS_PATH'' = Some libs
                 \<and> link_search (bd_events b) = [join libs ''30'', libs, join out ''lib'']))
         \<and> (env ''CARGO_CFG_TARGET_OS'' \<noteq> Some ''android'' \<longrightarrow> link_search (bd_events b) = [join out ''lib'']))"
proof -
  let ?android = "env ''CARGO_CFG_TARGET_OS'' = Some ''android''"
  define b1 where "b1 = snd (tell ([(''rerun-if-changed'', ''native''), (''rerun-if-changed'', ''vendor/boringssl.lock.json'')]
      @ map (Pair ''rerun-if-env-changed'') [''ALTDB_BORINGSSL_DIR'', ''ALTDB_NATIVE_JOBS'',
          ''CARGO_NDK_SYSROOT_PATH'', ''CARGO_NDK_SYSROOT_LIBS_PATH'']) \<lparr>bd_events = [], bd_tools = tools\<rparr>)"
  have b1: "tools_run (bd_events b1) = []" "link_search (bd_events b1) = []"
    by (simp_all add: b1_def tell_def)
  have rest: "if ?android \<and> env ''CARGO_NDK_SYSROOT_PATH'' = None
      then b = snd (tell [(''rustc-link-lib'', ''static=altdb_crypto''),
        (''warning'', ''Android metadata only; use cargo ndk -t arm64-v8a -P 30 build for native linking'')] b1)
      else native_build env is_file ?android b1 = (Inr u, b)"
    using assms unfolding build_main_def b1_def
    by (auto simp: sbind_eq_Inr_iff tell_def simp del: append.simps split: if_splits)
  show ?thesis
  proof (cases "?android \<and> env ''CARGO_NDK_SYSROOT_PATH'' = None")
    case True
    with rest b1 show ?thesis by (simp add: tell_def)
  next
    case False
    with rest have "native_build env is_file ?android b1 = (Inr u, b)" by simp
    then show ?thesis by (rule native_build_ok) (use b1 in auto)
  qed
qed

end
