(* ===== verification/Processes.thy ===== *)
theory Processes
  imports Services
begin

text \<open>
  System calls that a script makes succeed or fail, and what the program builds of them: the helpers
  of \<open>src/src/unix/mod.rs\<close> and the start of a helper process in \<open>src/src/unix/ipc.rs\<close>.
\<close>

section \<open>Scripted calls\<close>

text \<open>
  A call takes the next entry of the script: it works, or fails with an error number and no effect.
  When the script is used up, calls fail with \<open>EPERM\<close> (1).
\<close>

record 's scripted =
  sc_state :: 's
  sc_faults :: "nat option list"

definition os_error :: "nat \<Rightarrow> err" where
  "os_error n = Io (IoError OtherIo (Some n) ''os error'')"

definition attempt :: "(nat \<Rightarrow> err) \<Rightarrow> ('s \<Rightarrow> 's) \<Rightarrow> 's scripted \<Rightarrow> (unit, 's scripted) outcome" where
  "attempt fail op s =
     (case sc_faults s of
        [] \<Rightarrow> (Inl (fail 1), s)
      | f # fs \<Rightarrow>
          (case f of
             None \<Rightarrow> (Inr (), \<lparr>sc_state = op (sc_state s), sc_faults = fs\<rparr>)
           | Some n \<Rightarrow> (Inl (fail n), s\<lparr>sc_faults := fs\<rparr>)))"

lemma attempt_ok: "attempt f op s = (Inr u, s') \<Longrightarrow> sc_state s' = op (sc_state s)"
  by (auto simp: attempt_def split: list.splits option.splits)

lemma attempt_fails: "attempt f op s = (Inl e, s') \<Longrightarrow> sc_state s' = sc_state s"
  by (auto simp: attempt_def split: list.splits option.splits)

lemma attempt_invariant:
  "P (sc_state s) \<Longrightarrow> (P (sc_state s) \<Longrightarrow> P (op (sc_state s))) \<Longrightarrow> P (sc_state (snd (attempt f op s)))"
  by (auto simp: attempt_def split: list.splits option.splits)

text \<open>A call that changes nothing that is modelled.\<close>

abbreviation attempt_only :: "(nat \<Rightarrow> err) \<Rightarrow> 's scripted \<Rightarrow> (unit, 's scripted) outcome" where
  "attempt_only fail \<equiv> attempt fail (\<lambda>s. s)"

section \<open>Descriptors and the clock\<close>

text \<open>The open descriptors of a process, each with its close-on-exec flag.\<close>

type_synonym descriptors = "(nat \<times> bool) list"

definition lowest_free :: "nat \<Rightarrow> descriptors \<Rightarrow> nat" where
  "lowest_free low t = hd (filter (\<lambda>n. n \<notin> fst ` set t) [low..<low + length t + 1])"

lemma lowest_free_fresh: "lowest_free low t \<notin> fst ` set t \<and> low \<le> lowest_free low t"
proof -
  let ?free = "filter (\<lambda>n. n \<notin> fst ` set t) [low..<low + length t + 1]"
  have "?free \<noteq> []"
  proof
    assume "?free = []"
    then have "set [low..<low + length t + 1] \<subseteq> fst ` set t" unfolding filter_empty_conv by blast
    then have "card (set [low..<low + length t + 1]) \<le> card (fst ` set t)" by (intro card_mono) simp_all
    also have "\<dots> \<le> length t" by (metis card_length length_map set_map)
    finally show False by simp
  qed
  then have "hd ?free \<in> set ?free" by (rule hd_in_set)
  then have "lowest_free low t \<in> {n \<in> {low..<low + length t + 1}. n \<notin> fst ` set t}"
    unfolding lowest_free_def [symmetric] set_filter set_upt .
  then show ?thesis by simp
qed

text \<open>\<open>duplicate\<close>: \<open>F_DUPFD_CLOEXEC\<close> from 3 up.\<close>

definition duplicate :: "descriptors scripted \<Rightarrow> (nat, descriptors scripted) outcome" where
  "duplicate s =
     (let n = lowest_free 3 (sc_state s)
      in sbind (attempt os_error (\<lambda>t. (n, True) # t) s) (\<lambda>_ s. (Inr n, s)))"

lemma duplicate_ok:
  "duplicate s = (Inr n, s') \<Longrightarrow>
     3 \<le> n \<and> n \<notin> fst ` set (sc_state s) \<and> sc_state s' = (n, True) # sc_state s"
  using lowest_free_fresh [of 3 "sc_state s"]
  by (auto simp: duplicate_def Let_def sbind_eq_Inr_iff dest!: attempt_ok)

definition O_NONBLOCK :: u32 where "O_NONBLOCK = 2048"

text \<open>\<open>nonblocking\<close>: the flags of the descriptor are read, then written back with one more.\<close>

definition nonblocking :: "u32 scripted \<Rightarrow> (unit, u32 scripted) outcome" where
  "nonblocking s =
     sbind (attempt_only os_error s) (\<lambda>_ s. attempt os_error (\<lambda>flags. or flags O_NONBLOCK) s)"

lemma nonblocking_ok: "nonblocking s = (Inr u, s') \<Longrightarrow> sc_state s' = or (sc_state s) O_NONBLOCK"
  by (auto simp: nonblocking_def sbind_eq_Inr_iff dest!: attempt_ok)

text \<open>\<open>now\<close>: seconds since the epoch of a clock in nanoseconds, 0 for a clock before it.\<close>

definition unix_now :: "int \<Rightarrow> u64" where
  "unix_now t = (if t < 0 then 0 else word_of_int (t div 1000000000))"

section \<open>Helper processes\<close>

text \<open>
  \<open>spawn\<close>: the program with its mode as only argument. Outside Android the error output is kept. The
  forked child makes the bootstrap socket its descriptor 3, lets it survive the exec, and leads a
  process group of its own.
\<close>

record helper =
  he_program :: string
  he_args :: "string list"
  he_env :: "(string \<times> string) list"
  he_stderr :: bool

definition helper_command :: "bool \<Rightarrow> string \<Rightarrow> string \<Rightarrow> helper" where
  "helper_command android exe mode =
     \<lparr>he_program = exe, he_args = [mode],
      he_env = [(''PATH'', ''/system/bin:/system/xbin:/bin:/usr/bin'')], he_stderr = \<not> android\<rparr>"

record forked =
  fk_open :: descriptors
  fk_leader :: bool

definition set_cloexec :: "nat \<Rightarrow> bool \<Rightarrow> descriptors \<Rightarrow> descriptors" where
  "set_cloexec n b t = map (\<lambda>(m, c). (m, if m = n then b else c)) t"

text \<open>\<open>dup2\<close> onto the same number changes nothing; otherwise the new one has no flag.\<close>

definition dup2 :: "nat \<Rightarrow> nat \<Rightarrow> descriptors \<Rightarrow> descriptors" where
  "dup2 old new t = (if old = new then t else (new, False) # filter (\<lambda>(m, _). m \<noteq> new) t)"

definition helper_pre_exec :: "nat \<Rightarrow> forked scripted \<Rightarrow> (unit, forked scripted) outcome" where
  "helper_pre_exec fd s =
     sbind (attempt os_error (\<lambda>c. c\<lparr>fk_open := dup2 fd 3 (fk_open c)\<rparr>) s) (\<lambda>_ s.
     sbind (attempt os_error (\<lambda>c. c\<lparr>fk_open := set_cloexec 3 False (fk_open c)\<rparr>) s) (\<lambda>_ s.
       attempt os_error (\<lambda>c. c\<lparr>fk_leader := True\<rparr>) s))"

text \<open>What an exec leaves open.\<close>

definition after_exec :: "descriptors \<Rightarrow> nat list" where
  "after_exec t = map fst (filter (\<lambda>(_, c). \<not> c) t)"

definition helper_spawn ::
    "bool \<Rightarrow> err + string \<Rightarrow> string \<Rightarrow> nat \<Rightarrow> forked scripted \<Rightarrow> (helper \<times> nat list, forked scripted) outcome" where
  "helper_spawn android exe mode fd s =
     (case exe of
        Inl e \<Rightarrow> (Inl e, s)
      | Inr exe \<Rightarrow>
          sbind (helper_pre_exec fd s) (\<lambda>_ s.
          sbind (attempt_only os_error s) (\<lambda>_ s.
            (Inr (helper_command android exe mode, after_exec (fk_open (sc_state s))), s))))"

text \<open>
  When all descriptors of the supervisor are close-on-exec, apart from the three standard ones, a
  helper inherits those and the bootstrap socket, whichever number that has.
\<close>

lemma helper_inherits:
  assumes "helper_spawn android exe mode fd s = (Inr (h, fds), s')"
    and "\<forall>(n, c) \<in> set (fk_open (sc_state s)). c \<or> n < 3"
    and "(fd, True) \<in> set (fk_open (sc_state s))"
  shows "3 \<in> set fds \<and> set fds \<subseteq> {0, 1, 2, 3} \<and> fk_leader (sc_state s') \<and> he_args h = [mode]"
proof -
  obtain u1 s1 u2 s2 u3 s3 u4 where
      1: "attempt os_error (\<lambda>c. c\<lparr>fk_open := dup2 fd 3 (fk_open c)\<rparr>) s = (Inr u1, s1)"
    and 2: "attempt os_error (\<lambda>c. c\<lparr>fk_open := set_cloexec 3 False (fk_open c)\<rparr>) s1 = (Inr u2, s2)"
    and 3: "attempt os_error (\<lambda>c. c\<lparr>fk_leader := True\<rparr>) s2 = (Inr u3, s3)"
    and 4: "attempt_only os_error s3 = (Inr u4, s')"
    and eq: "fds = after_exec (fk_open (sc_state s'))" "he_args h = [mode]"
    using assms(1)
    by (auto simp: helper_spawn_def helper_pre_exec_def helper_command_def sbind_eq_Inr_iff split: sum.splits)
  have st: "fk_open (sc_state s') = set_cloexec 3 False (dup2 fd 3 (fk_open (sc_state s)))"
      "fk_leader (sc_state s')"
    using 1 2 3 4 by (auto dest!: attempt_ok)
  have "(3, False) \<in> set (fk_open (sc_state s'))"
    using assms(3) by (force simp: st set_cloexec_def dup2_def)
  then have "3 \<in> set fds" by (force simp: eq after_exec_def)
  moreover have "set fds \<subseteq> {0, 1, 2, 3}"
    using assms(2) by (auto simp: eq st set_cloexec_def dup2_def after_exec_def split: if_splits)
  ultimately show ?thesis using st eq by simp
qed

end
