(* ===== verification/Shell_Process.thy ===== *)
theory Shell_Process
  imports Processes
begin

text \<open>
  \<open>shell\<close> of \<open>src/src/unix/services.rs\<close> as a whole: the terminal or the pipes, the process of the shell
  and its set-up between fork and exec, the threads, the end, and the signal handler that ends the
  shell's process group when the helper process is told to end. What the threads copy is in
  \<open>Services\<close>; every system call works or fails as a script says.
\<close>

section \<open>Starting the shell\<close>

text \<open>What the child does between fork and exec, on the facts that matter later.\<close>

record shell_child =
  hc_death_signal :: "nat option"
  hc_session :: bool
  hc_group :: bool
  hc_terminal :: bool

definition child_new :: shell_child where
  "child_new = \<lparr>hc_death_signal = None, hc_session = False, hc_group = False, hc_terminal = False\<rparr>"

definition shell_pre_exec :: "bool \<Rightarrow> shell_child scripted \<Rightarrow> (unit, shell_child scripted) outcome" where
  "shell_pre_exec pty s =
     sbind (attempt os_error (\<lambda>c. c\<lparr>hc_death_signal := Some 9\<rparr>) s) (\<lambda>_ s.
       if pty then
         sbind (attempt os_error (\<lambda>c. c\<lparr>hc_session := True, hc_group := True\<rparr>) s) (\<lambda>_ s.
           attempt os_error (\<lambda>c. c\<lparr>hc_terminal := True\<rparr>) s)
       else attempt os_error (\<lambda>c. c\<lparr>hc_group := True\<rparr>) s)"

text \<open>
  What the helper does, in order: the handlers for SIGTERM and SIGHUP, the started shell, writes of
  the static \<open>CHILD\<close>, the end of the socket, signals to process groups, its own exit.
\<close>

datatype shell_effect =
    HandlersSet
  | ShellStarted process nat shell_child
  | ChildStored nat
  | SocketShut
  | GroupKilled nat nat
  | HelperExited

type_synonym shell_sys = "shell_effect list scripted"

definition shell_emit :: "shell_effect list \<Rightarrow> shell_sys \<Rightarrow> shell_sys" where
  "shell_emit es s = s\<lparr>sc_state := sc_state s @ es\<rparr>"

text \<open>\<open>openpty\<close>, protecting both ends, and a copy of the slave for each standard stream.\<close>

definition open_pty :: "shell_sys \<Rightarrow> (unit, shell_sys) outcome" where
  "open_pty s =
     sbind (attempt_only (\<lambda>_. Msg ''PTY unavailable'') s) (\<lambda>_ s.
     sbind (attempt_only (\<lambda>_. Msg ''PTY descriptor protection failed'') s) (\<lambda>_ s.
     sbind (attempt_only (\<lambda>_. Msg ''PTY descriptor protection failed'') s) (\<lambda>_ s.
     sbind (attempt_only os_error s) (\<lambda>_ s.
     sbind (attempt_only os_error s) (\<lambda>_ s. attempt_only os_error s)))))"

text \<open>The child: its process number, the script of its calls, and the error of its exec.\<close>

record fork_result =
  fr_pid :: nat
  fr_faults :: "nat option list"
  fr_exec :: "nat option"

definition spawn_shell :: "process \<Rightarrow> bool \<Rightarrow> fork_result \<Rightarrow> shell_sys \<Rightarrow> (nat, shell_sys) outcome" where
  "spawn_shell p pty f s =
     sbind (attempt_only os_error s) (\<lambda>_ s.
       case shell_pre_exec pty \<lparr>sc_state = child_new, sc_faults = fr_faults f\<rparr> of
         (Inl e, _) \<Rightarrow> (Inl e, s)
       | (Inr _, c) \<Rightarrow>
           (case fr_exec f of
              Some n \<Rightarrow> (Inl (os_error n), s)
            | None \<Rightarrow> (Inr (fr_pid f), shell_emit [ShellStarted p (fr_pid f) (sc_state c)] s)))"

text \<open>
  \<open>shell\<close> up to its threads: after the spawn come the copies of the socket for the writer, of the
  master for the input, and of the socket for the input.
\<close>

definition shell_start ::
    "bool \<Rightarrow> u32 \<Rightarrow> shell_args \<Rightarrow> fork_result \<Rightarrow> shell_sys \<Rightarrow> (nat, shell_sys) outcome" where
  "shell_start test uid args f s =
     sbind (if sa_pty args then open_pty s else (Inr (), s)) (\<lambda>_ s.
     sbind (spawn_shell (shell_process test uid args) (sa_pty args) f (shell_emit [HandlersSet] s)) (\<lambda>pid s.
     sbind (attempt_only os_error (shell_emit [ChildStored pid] s)) (\<lambda>_ s.
     sbind (if sa_pty args then attempt_only os_error s else (Inr (), s)) (\<lambda>_ s.
     sbind (attempt_only os_error s) (\<lambda>_ s. (Inr pid, s))))))"

section \<open>The whole of it\<close>

text \<open>
  The threads run as \<open>schedule\<close> says; the shell ends with \<open>status\<close> or \<open>signal\<close>. Joining the output
  threads does not return while one of them has not ended. \<open>w\<close> is the socket.
\<close>

record shell_io =
  si_out :: reads
  si_err :: reads
  si_schedule :: "nat list"
  si_status :: "int option"
  si_signal :: "int option"

definition shell_run ::
    "bool \<Rightarrow> u32 \<Rightarrow> shell_args \<Rightarrow> fork_result \<Rightarrow> shell_io \<Rightarrow> (u8 list \<Rightarrow> 'w \<Rightarrow> (unit, 'w) outcome)
       \<Rightarrow> shell_sys \<Rightarrow> 'w \<Rightarrow> ((err + unit) \<times> shell_sys \<times> 'w) option" where
  "shell_run test uid args f io put s w =
     (case shell_start test uid args f s of
        (Inl e, s) \<Rightarrow> Some (Inl e, s, w)
      | (Inr pid, s) \<Rightarrow>
          let (ts, w) = writers_run (sa_v2 args) put (si_schedule io)
                (shell_writers (sa_pty args) (si_out io) (si_err io)) w
          in case attempt_only os_error s of
            (Inl e, s) \<Rightarrow> Some (Inl e, s, w)
          | (Inr _, s) \<Rightarrow>
              if list_ex (\<lambda>(_, r). r \<noteq> None) ts then None
              else (case shell_end (sa_v2 args) put (si_status io) (si_signal io) w of
                  (Inl e, w) \<Rightarrow> Some (Inl e, s, w)
                | (Inr _, w) \<Rightarrow>
                    Some (Inr (), shell_emit [SocketShut, GroupKilled pid 9, ChildStored 0] s, w)))"

text \<open>
  \<open>terminate\<close>: the handler, after what the helper has done so far. It kills the group whose number is
  in \<open>CHILD\<close>, which is 0 at first, and exits. Before the handlers are set the signal ends the helper
  by default.
\<close>

fun child_stored :: "shell_effect list \<Rightarrow> nat \<Rightarrow> nat" where
  "child_stored [] n = n"
| "child_stored (ChildStored m # es) n = child_stored es m"
| "child_stored (_ # es) n = child_stored es n"

definition terminate :: "shell_effect list \<Rightarrow> shell_effect list" where
  "terminate es =
     (let pid = child_stored es 0
      in es @ (if HandlersSet \<in> set es \<and> 0 < pid then [GroupKilled pid 9] else []) @ [HelperExited])"

section \<open>No shell is left behind\<close>

text \<open>What holds of a shell that was started.\<close>

definition child_ok :: "bool \<Rightarrow> shell_child \<Rightarrow> bool" where
  "child_ok pty c \<longleftrightarrow>
     hc_death_signal c = Some 9 \<and> hc_group c \<and> hc_session c = pty \<and> hc_terminal c = pty"

lemma shell_pre_exec_ok:
  "shell_pre_exec pty \<lparr>sc_state = child_new, sc_faults = fs\<rparr> = (Inr u, c) \<Longrightarrow> child_ok pty (sc_state c)"
  by (auto simp: shell_pre_exec_def sbind_eq_Inr_iff child_new_def child_ok_def dest!: attempt_ok split: if_splits)

lemma attempt_only_state [simp]: "sc_state (snd (attempt_only f s)) = sc_state s"
  by (simp add: attempt_def split: list.splits option.splits)

lemma open_pty_state: "sc_state (snd (open_pty s)) = sc_state s"
  unfolding open_pty_def by (intro sbind_keeps [where P = "\<lambda>t. sc_state t = sc_state s"]) simp_all

lemma spawn_shell_state:
  assumes "spawn_shell p pty f s = (r, s')"
  shows "\<not> is_ok r \<and> sc_state s' = sc_state s
    \<or> r = Inr (fr_pid f) \<and> (\<exists>c. child_ok pty c \<and> sc_state s' = sc_state s @ [ShellStarted p (fr_pid f) c])"
proof -
  obtain x t where t: "attempt_only os_error s = (x, t)" by fastforce
  then have st: "sc_state t = sc_state s" using attempt_only_state [of os_error s] by simp
  show ?thesis
  proof (cases x)
    case (Inl e)
    with assms t st show ?thesis by (auto simp: spawn_shell_def)
  next
    case (Inr u)
    obtain y c where y: "shell_pre_exec pty \<lparr>sc_state = child_new, sc_faults = fr_faults f\<rparr> = (y, c)" by fastforce
    with assms t st Inr shell_pre_exec_ok [of pty "fr_faults f" _ c] show ?thesis
      by (auto simp: spawn_shell_def shell_emit_def split: sum.splits option.splits)
  qed
qed

text \<open>What the helper has done when \<open>shell_start\<close> returns, by how far it got.\<close>

definition started :: "bool \<Rightarrow> u32 \<Rightarrow> shell_args \<Rightarrow> nat \<Rightarrow> shell_child \<Rightarrow> shell_effect list" where
  "started test uid args pid c =
     [HandlersSet, ShellStarted (shell_process test uid args) pid c, ChildStored pid]"


lemma shell_start_state:
  assumes "shell_start test uid args f s = (r, s')" and "sc_state s = []"
  shows "\<not> is_ok r \<and> sc_state s' \<in> {[], [HandlersSet]}
    \<or> (\<exists>c. child_ok (sa_pty args) c \<and> sc_state s' = started test uid args (fr_pid f) c
        \<and> (\<forall>pid. r = Inr pid \<longrightarrow> pid = fr_pid f))"
proof -
  obtain x1 s1 where 1: "(if sa_pty args then open_pty s else (Inr (), s)) = (x1, s1)" by fastforce
  have st1: "sc_state s1 = []" using 1 assms(2) open_pty_state [of s] by (auto split: if_splits)
  let ?s1 = "shell_emit [HandlersSet] s1"
  obtain x2 s2 where 2: "spawn_shell (shell_process test uid args) (sa_pty args) f ?s1 = (x2, s2)" by fastforce
  define rest where "rest = (\<lambda>pid s. sbind (attempt_only os_error (shell_emit [ChildStored pid] s)) (\<lambda>_ s.
      sbind (if sa_pty args then attempt_only os_error s else (Inr (), s)) (\<lambda>_ s.
      sbind (attempt_only os_error s) (\<lambda>_ s. (Inr pid :: err + nat, s)))))"
  have eq: "shell_start test uid args f s = sbind (x1, s1) (\<lambda>_ s.
      sbind (spawn_shell (shell_process test uid args) (sa_pty args) f (shell_emit [HandlersSet] s)) rest)"
    unfolding shell_start_def 1 rest_def ..
  show ?thesis
  proof (cases x1)
    case (Inl e)
    with assms(1) eq st1 show ?thesis by auto
  next
    case (Inr u)
    then have r: "(r, s') = sbind (x2, s2) rest" using assms(1) eq 2 by simp
    show ?thesis
    proof (cases x2)
      case (Inl e)
      with r spawn_shell_state [OF 2] st1 show ?thesis by (simp add: shell_emit_def)
    next
      case (Inr pid)
      with spawn_shell_state [OF 2] st1 obtain c where pid: "pid = fr_pid f" and c: "child_ok (sa_pty args) c"
        and st2: "sc_state s2 = [HandlersSet, ShellStarted (shell_process test uid args) pid c]"
        by (auto simp: shell_emit_def)
      have "sc_state (snd (rest pid s2)) = sc_state s2 @ [ChildStored pid]"
        unfolding rest_def
        by (intro sbind_keeps [where P = "\<lambda>t. sc_state t = sc_state s2 @ [ChildStored pid]"])
          (simp_all add: shell_emit_def)
      moreover have "fst (rest pid s2) = Inr n \<Longrightarrow> n = pid" for n
        by (auto simp: rest_def sbind_def split: sum.splits prod.splits if_splits)
      ultimately show ?thesis using r Inr pid c st2 by (auto simp: started_def dest: sym)
    qed
  qed
qed

text \<open>What the helper has done when \<open>shell_run\<close> returns.\<close>

lemma shell_run_state:
  assumes "shell_run test uid args f io put s w = Some (r, s', w')" and "sc_state s = []"
  shows "\<not> is_ok r \<and> sc_state s' \<in> {[], [HandlersSet]}
    \<or> (\<exists>c. child_ok (sa_pty args) c \<and> sc_state s' = started test uid args (fr_pid f) c
        @ (if is_ok r then [SocketShut, GroupKilled (fr_pid f) 9, ChildStored 0] else []))"
proof -
  obtain x s1 where 1: "shell_start test uid args f s = (x, s1)" by fastforce
  note start = shell_start_state [OF 1 assms(2)]
  show ?thesis
  proof (cases x)
    case (Inl e)
    with assms(1) 1 start show ?thesis by (auto simp: shell_run_def)
  next
    case (Inr pid)
    with start obtain c where c: "child_ok (sa_pty args) c" "sc_state s1 = started test uid args (fr_pid f) c"
      and pid: "pid = fr_pid f" by auto
    obtain y s2 where 2: "attempt_only os_error s1 = (y, s2)" by fastforce
    then have "sc_state s2 = sc_state s1" using attempt_only_state [of os_error s1] by simp
    with assms(1) 1 2 Inr c pid show ?thesis
      by (auto simp: shell_run_def Let_def shell_emit_def split: prod.splits sum.splits if_splits)
  qed
qed

text \<open>
  C6: a helper does not leave its shell behind. Whatever call fails and whenever the helper is told to
  end, at any point of what it does, a shell that was started has a process group of its own and the
  parent death signal SIGKILL; once its number is stored the handler kills that group, and in the
  moment before the death signal ends the shell with the helper. A run that ends well has done
  exactly this, in this order: set the handlers, started the shell, stored its number, shut the
  connection, killed the group, so that background processes of the shell end too, and only then
  cleared the number. A run that fails has stored the number and has not cleared it.
\<close>

theorem shell_not_left_behind:
  assumes "shell_run test uid args f io put \<lparr>sc_state = [], sc_faults = fs\<rparr> w = Some (r, s', w')"
    and "sc_state s' = es @ later" and "ShellStarted p pid c \<in> set es" and "0 < fr_pid f"
  shows "pid = fr_pid f \<and> p = shell_process test uid args \<and> child_ok (sa_pty args) c
    \<and> (ChildStored pid \<in> set es \<longrightarrow> GroupKilled pid 9 \<in> set (terminate es))
    \<and> sc_state s' = [HandlersSet, ShellStarted p pid c, ChildStored pid]
        @ (if is_ok r then [SocketShut, GroupKilled pid 9, ChildStored 0] else [])"
proof -
  have mem: "ShellStarted p pid c \<in> set (sc_state s')" using assms(2,3) by simp
  have "sc_state \<lparr>sc_state = [], sc_faults = fs\<rparr> = []" by simp
  from shell_run_state [OF assms(1) this] mem obtain d where d: "child_ok (sa_pty args) d"
    and st': "sc_state s' = started test uid args (fr_pid f) d
        @ (if is_ok r then [SocketShut, GroupKilled (fr_pid f) 9, ChildStored 0] else [])"
    by auto
  note st = st' [unfolded assms(2)]
  from mem have eq: "pid = fr_pid f" "p = shell_process test uid args" "c = d"
    unfolding assms(2) st by (auto simp: started_def split: if_splits)
  have "take (length es) (es @ later) = es" by simp
  then have es: "es = take (length es) (started test uid args (fr_pid f) d
      @ (if is_ok r then [SocketShut, GroupKilled (fr_pid f) 9, ChildStored 0] else []))"
    unfolding st by simp
  have "GroupKilled pid 9 \<in> set (terminate es)" if "ChildStored pid \<in> set es"
  proof -
    have "length es \<le> 6" using arg_cong [OF st, of length] by (simp add: started_def split: if_splits)
    then have "length es = 0 \<or> length es = 1 \<or> length es = 2 \<or> length es = 3 \<or> length es = 4
        \<or> length es = 5 \<or> length es = 6" by linarith
    with es that eq(1) assms(4) show ?thesis
      by (elim disjE) (simp_all add: started_def terminate_def Let_def split: if_splits)
  qed
  then show ?thesis using d eq st' by (simp add: started_def)
qed

text \<open>A command whose helper is told to end right after the shell was started, and one that ends by itself.\<close>

definition demo_fork :: fork_result where
  "demo_fork = \<lparr>fr_pid = 100, fr_faults = replicate 2 None, fr_exec = None\<rparr>"

definition demo_io :: shell_io where
  "demo_io = \<lparr>si_out = [Inr [104, 105]], si_err = [], si_schedule = [0, 1, 0], si_status = Some 0, si_signal = None\<rparr>"

theorem shell_not_left_behind_witness:
  "\<exists>c s' w'. shell_run False 2000 (plain_command ''id'') demo_fork demo_io append_put
        \<lparr>sc_state = [], sc_faults = replicate 4 None\<rparr> [] = Some (Inr (), s', w')
     \<and> w' = [104, 105] \<and> child_ok False c
     \<and> sc_state s' = started False 2000 (plain_command ''id'') 100 c @ [SocketShut, GroupKilled 100 9, ChildStored 0]
     \<and> GroupKilled 100 9 \<in> set (terminate (started False 2000 (plain_command ''id'') 100 c))"
proof -
  let ?s = "\<lparr>sc_state = [], sc_faults = replicate 4 None\<rparr>"
  obtain s' where run: "shell_run False 2000 (plain_command ''id'') demo_fork demo_io append_put ?s [] = Some (Inr (), s', [104, 105])"
    by (simp add: shell_run_def shell_start_def spawn_shell_def shell_pre_exec_def attempt_def shell_emit_def
        plain_command_def demo_fork_def demo_io_def eval_nat_numeral child_new_def shell_writers_def
        writer_step_def output_round_def append_put_def shell_end_def)
  from shell_run_state [OF run] obtain c where
      st: "sc_state s' = started False 2000 (plain_command ''id'') 100 c @ [SocketShut, GroupKilled 100 9, ChildStored 0]"
    by (auto simp: demo_fork_def)
  have "0 < fr_pid demo_fork" by (simp add: demo_fork_def)
  from shell_not_left_behind [OF run st _ this, of "shell_process False 2000 (plain_command ''id'')" 100 c] run st
  show ?thesis by (auto simp: started_def plain_command_def)
qed

end
