(* ===== verification/Startup.thy ===== *)
theory Startup
  imports Processes Command_Line
begin

text \<open>
  \<open>run\<close> of \<open>src/src/unix/daemon.rs\<close> around its main loop: the checks, the state directory and the
  control socket before it, the removal of the socket after it. Who can reach the control socket, and
  what a second instance does.
\<close>

section \<open>The control socket\<close>

text \<open>
  \<open>up_socket\<close> is the mode of the file \<open>control.sock\<close>, if there is one; \<open>up_seen\<close> lists the modes
  that the socket of this process has had. A socket is bound with the mode 0777 without the bits of
  the mask, and not over an existing file (98 is \<open>EADDRINUSE\<close>).
\<close>

record start_state =
  up_umask :: u16
  up_socket :: "u16 option"
  up_seen :: "u16 list"

type_synonym start_sys = "start_state scripted"

definition with_mode :: "u16 \<Rightarrow> start_state \<Rightarrow> start_state" where
  "with_mode m s = s\<lparr>up_socket := Some m, up_seen := up_seen s @ [m]\<rparr>"

definition bind_control :: "start_sys \<Rightarrow> (unit, start_sys) outcome" where
  "bind_control s =
     (if up_socket (sc_state s) \<noteq> None then (Inl (os_error 98), s)
      else attempt os_error (\<lambda>t. with_mode (and 511 (not (up_umask t))) t) s)"

text \<open>An old socket is removed, the new one made, then closed to others and made non-blocking.\<close>

definition open_control :: "start_sys \<Rightarrow> (unit, start_sys) outcome" where
  "open_control s =
     sbind (if up_socket (sc_state s) \<noteq> None then attempt os_error (\<lambda>t. t\<lparr>up_socket := None\<rparr>) s
            else (Inr (), s)) (\<lambda>_ s.
     sbind (bind_control s) (\<lambda>_ s.
     sbind (attempt os_error (with_mode 384) s) (\<lambda>_ s. attempt_only os_error s)))"

section \<open>The start and the whole run\<close>

text \<open>
  \<open>opened\<close> is what \<open>Store::open\<close> gives, which locks the state directory; the last call starts the
  thread of the native monitor.
\<close>

definition supervisor_start ::
    "bool \<Rightarrow> bool \<Rightarrow> err + ksu_info \<Rightarrow> err + store \<Rightarrow> start_sys \<Rightarrow> (store, start_sys) outcome" where
  "supervisor_start android test check opened s =
     (case rbind (ensure (\<not> test \<or> \<not> android) (Msg ''test mode is unavailable on Android'')) (\<lambda>_.
             if test then Inr () else rbind check (\<lambda>_. Inr ())) of
        Inl e \<Rightarrow> (Inl e, s)
      | Inr _ \<Rightarrow>
          let s = s\<lparr>sc_state := (sc_state s)\<lparr>up_umask := 63\<rparr>\<rparr>
          in case opened of
               Inl e \<Rightarrow> (Inl e, s)
             | Inr store \<Rightarrow>
                 sbind (open_control s) (\<lambda>_ s.
                 sbind (if test then (Inr (), s) else attempt_only os_error s) (\<lambda>_ s. (Inr store, s))))"

text \<open>The result, the supervisor's final state if its loop ran, and the files.\<close>

definition supervisor_main ::
    "codec \<Rightarrow> key_check \<Rightarrow> (u8 list \<Rightarrow> control option) \<Rightarrow> bool \<Rightarrow> bool \<Rightarrow> err + ksu_info \<Rightarrow> err + store
       \<Rightarrow> env \<Rightarrow> env \<Rightarrow> turn list \<Rightarrow> start_sys \<Rightarrow> (err + unit) \<times> daemon option \<times> start_sys" where
  "supervisor_main cd kc parse android test check opened e e' ts s =
     (case supervisor_start android test check opened s of
        (Inl x, s) \<Rightarrow> (Inl x, None, s)
      | (Inr store, s) \<Rightarrow>
          (Inr (), Some (daemon_run cd kc parse e e' test ts store),
           snd (attempt os_error (\<lambda>t. t\<lparr>up_socket := None\<rparr>) s)))"

section \<open>Who reaches the control socket\<close>

text \<open>No permission for the group or for others.\<close>

definition private_mode :: "u16 \<Rightarrow> bool" where
  "private_mode m \<longleftrightarrow> and m 63 = 0"

definition guarded :: "start_sys \<Rightarrow> bool" where
  "guarded s \<longleftrightarrow> up_umask (sc_state s) = 63 \<and> list_all private_mode (up_seen (sc_state s))"

lemma private_modes: "private_mode 448" "private_mode 384"
  by (simp_all add: private_mode_def)

lemma guarded_attempt:
  "guarded s \<Longrightarrow> (\<And>t. up_umask (op t) = up_umask t) \<Longrightarrow>
    (\<And>t. up_umask t = 63 \<Longrightarrow> list_all private_mode (up_seen t) \<Longrightarrow> list_all private_mode (up_seen (op t))) \<Longrightarrow>
    guarded (snd (attempt f op s))"
  by (auto simp: guarded_def attempt_def split: list.splits option.splits)

lemma open_control_guarded: "guarded s \<Longrightarrow> guarded (snd (open_control s))"
  unfolding open_control_def bind_control_def
  by (auto intro!: sbind_keeps [where P = guarded] guarded_attempt simp: with_mode_def private_modes)

lemma open_control_mode: "open_control s = (Inr u, s') \<Longrightarrow> up_socket (sc_state s') = Some 384"
  by (auto simp: open_control_def sbind_eq_Inr_iff with_mode_def dest!: attempt_ok)

lemma store_open_held: "\<not> is_ok (fst (store_open cd kc is_link HeldByOther fresh draws1 draws2 d))"
  by (auto simp: store_open_def store_lock_def sbind_def split: sum.splits prod.splits if_splits)

lemma control_phase_refused:
  "\<not> dm_test d \<Longrightarrow> cc_peer call \<noteq> Inr 0 \<Longrightarrow> control_phase cd parse e (Some call) d = d"
  by (cases "cc_peer call") (auto simp: control_phase_def control_body_def)



end
