(* ===== verification/Spec2Isabelle.thy ===== *)
theory Spec2Isabelle
  imports Protocol Config Ordered_Map Sockets Crypto Tls Network Ipc Broker Transport_Invariant Store Pairing Mdns Services Native Daemon_Claims Sync_Safety Worker Command_Line Probe Channel Stream_Flow File_Transfer Native_Crypto Host_Pinning Build_Script Shell_Process Startup
begin

text \<open>
  A verification development for altdb, the wireless ADB daemon of this repository.

  The program. A supervisor running as root (\<open>src/src/unix/daemon.rs\<close>) owns the stored state
  (\<open>store.rs\<close>), chooses network interfaces (\<open>network.rs\<close>) and starts an unprivileged network
  worker (\<open>worker.rs\<close>), which accepts TLS connections (\<open>crypto.rs\<close>), runs one ADB connection per
  host (\<open>transport.rs\<close>, \<open>protocol.rs\<close>), pairs new hosts (\<open>pairing.rs\<close>) and answers mDNS
  (\<open>mdns.rs\<close>). Worker and supervisor talk over \<open>ipc.rs\<close>; services run as helper processes whose
  socket the supervisor hands to the worker.

  Theories, each with the part of the code it models:

  \<^item> \<open>Prelude\<close>: words, errors (\<open>err\<close>), fallible functions (\<open>rbind\<close> on \<open>err + 'a\<close>) and fallible
    state changes (\<open>sbind\<close> on \<open>(err + 'a) \<times> 's\<close>, so that a failing step still shows what it did to
    the state), text helpers. \<open>Bytes\<close>: encodings of integers, UTF-8, characters, numbers.
    \<open>Ordered_Map\<close>: \<open>BTreeMap\<close> and \<open>HashMap\<close> as strictly sorted association lists with an
    interface locale for finite maps. \<open>Sockets\<close>: a socket as a script of what each call does and
    the bytes it has taken.
  \<^item> \<open>Config\<close>, \<open>Protocol\<close>: \<open>config.rs\<close>, \<open>protocol.rs\<close>.
  \<^item> \<open>Crypto\<close>, \<open>Tls\<close>: \<open>crypto.rs\<close> with the fingerprint of \<open>native/crypto.c\<close>. \<open>Tls\<close> holds the
    whole \<open>Tls\<close> object (accept, feed, read, write, drain, flush) over a TLS library that is a
    parameter, and the locale \<open>byte_sink\<close>, which states what the layers above rely on: what is put
    goes out in order. It is interpreted on the TLS object. \<open>Native_Crypto\<close>: the TLS library itself,
    \<open>native/crypto.c\<close>, over BoringSSL, with the options of the context and the verifier of the peer;
    \<open>Host_Pinning\<close> follows the verifier to the requests of a connection, which can only authenticate
    under the key of a host it was started with.
  \<^item> \<open>Network\<close>, \<open>Mdns\<close>, \<open>Ipc\<close>: interface selection, listeners and socket addresses; DNS
    encoding, the query parser and the responder; messages and datagrams.
  \<^item> \<open>Broker\<close>: how a connection asks the supervisor (\<open>Broker\<close> of \<open>worker.rs\<close>).
  \<^item> \<open>Service_Stream\<close>, \<open>Transport\<close>: \<open>transport.rs\<close>. One stream with its queue; then the
    connection: the packet handlers, the parser of the input queue, the passes over the streams,
    reverse forwards, the poll set and \<open>transport_run\<close>, the whole session from the plain handshake
    to the disconnection. \<open>Transport_Invariant\<close> proves the connection's invariant \<open>conn_inv\<close>, that
    every step keeps it and only makes requests for its own transport (\<open>conn_step\<close>), and the
    properties of the session. \<open>Stream_Flow\<close> follows the data through a whole session: over a TLS
    object that records what it reads and writes, the packets of the host determine what every
    service has received, and the services what the host was sent (\<open>piped\<close>, \<open>flows\<close>).
    \<open>File_Transfer\<close> puts the file transfer process of \<open>Sync\<close> behind a stream: what the host pushes lies
    on the disk, and what it pulls is what it pushed.
  \<^item> \<open>Store\<close>: \<open>store.rs\<close> over a model of the file system calls with a fault script.
  \<^item> \<open>Pairing\<close>: \<open>pairing.rs\<close> and the SPAKE2 session of \<open>crypto.rs\<close> and \<open>native/crypto.c\<close>.
  \<^item> \<open>Privileges\<close>, \<open>Native\<close>: \<open>ksu.rs\<close>. The credentials of a process (\<open>proc\<close>) and the calls that
    restrict it, with what a restricted process is left with; the checks of the system's own
    debugging (properties, processes, settings) and the monitor with its grace period.
  \<^item> \<open>Services\<close>: \<open>services.rs\<close>. Which service a request selects and in which process, shell
    arguments, window sizes, the input and the interleaved output of a shell, relays with their
    half-closed connections, listeners.
    \<open>Sync\<close>: \<open>services/sync.rs\<close>, the file transfer over a file system of paths; \<open>Sync_Safety\<close> proves
    that a push is all or nothing and that a pull gives back what was pushed.
  \<^item> \<open>Daemon\<close>: \<open>daemon.rs\<close>. The supervisor's state (\<open>daemon\<close>), every control request, every request
    of the worker, the phases of the main loop and the loop itself; a record \<open>env\<close> holds what the
    system does during one handler, \<open>dm_effects\<close> what the supervisor did to it. \<open>Authority\<close> is the
    abstract specification: who is paired, who is connected, whether pairing is open, who has root.
    \<open>Daemon_Safety\<close> proves every operation \<open>safe\<close> (it keeps \<open>daemon_inv\<close> and is a sequence of
    abstract steps) and lifts this to runs through the locales \<open>machine\<close> and \<open>simulation\<close>, interpreted on the main
    loop; \<open>Daemon_Claims\<close> draws the consequences.
  \<^item> \<open>Worker\<close>: the loop of \<open>worker.rs\<close>, with the sessions, their deadlines, the pairing window and
    the supervisor's messages; what its threads run is in \<open>Transport\<close> and \<open>Pairing\<close>.
  \<^item> \<open>Command_Line\<close>: the dispatch of \<open>main.rs\<close>, the client of the control socket and the supervisor's
    reply, which the client reads back.
  \<^item> \<open>Probe\<close>: the diagnosis of the su isolation and the property watcher of \<open>ksu.rs\<close>; the diagnosis
    ends, and what its success shows of the kernel. Its wait of five seconds in steps of 20 ms is at
    most 251 rounds.
  \<^item> \<open>Processes\<close>: scripted system calls, the helpers of \<open>unix/mod.rs\<close>, and the start of a helper
    process with the descriptors it inherits (\<open>spawn\<close> of \<open>ipc.rs\<close>).
  \<^item> \<open>Shell_Process\<close>: the life of a shell in its helper process: terminal or pipes, set-up between fork
    and exec, threads, end, and the handler of SIGTERM; no shell is left behind.
  \<^item> \<open>Startup\<close>: the supervisor before and after its loop: checks, lock, control socket.
  \<^item> \<open>Channel\<close>: the types of the messages from the supervisor to the worker, which the supervisor keeps
    to in every run and the worker accepts.
  \<^item> \<open>Build_Script\<close>: \<open>build.rs\<close>; a build that succeeds has configured and built what it links.

  How they fit: the supervisor (\<open>Daemon\<close>) calls \<open>Store\<close>, \<open>Network\<close> and \<open>Native\<close>, sends the messages
  of \<open>Ipc\<close> to the \<open>Worker\<close>, answers the requests that \<open>Broker\<close> carries from the sessions of
  \<open>Transport\<close> and \<open>Pairing\<close>, and starts the processes of \<open>Services\<close> and \<open>Sync\<close> under \<open>Privileges\<close>.

  The properties at the end of this theory follow one decision of the user through several
  processes: a permission from the store to the process of a service, and a revocation from the
  control socket to the sessions of the worker.

  State corresponds to the code's structures field by field (\<open>connection\<close>, \<open>stream\<close>, \<open>store\<close>,
  \<open>broker\<close>, \<open>tls\<close>, \<open>mdns\<close>, \<open>daemon\<close>, \<open>worker\<close>). Time is a parameter: a clock reading per turn, or
  per phase of a turn. Failures of the
  environment are scripts: a socket, the file system or the supervisor has one entry per call
  that says what the call does, and the properties hold for every script. When a file system
  script is used up every later call fails without effect, so statements about the files also
  cover a crash at that point. Loops that may not end (\<open>Tls::read\<close>, \<open>Tls::accept\<close>, the session)
  have the result \<open>None\<close> when they do not return; every other definition is a total function, and
  the loops of the code that end are proved to end.

  Parameters, with what is relied on stated as hypotheses of the properties: the TLS library, the
  SPAKE2 and AEAD primitives (\<open>aead_ok\<close>), BoringSSL's handshake (\<open>verifies\<close>), the JSON encodings (that reading gives back what was
  written), the kernel's answers. Threads are interleaved at the points where they
  share state: a session's requests reach the supervisor one at a time, the worker's loop reads the
  shared tables once per lock, the output threads of a shell are scheduled packet by packet.

  Not modelled: test code, the fuzz target and the example, which only call the library; the Python
  build scripts, the web interface and the module's shell scripts, which are not part of the program
  that runs. In \<open>Native_Crypto\<close> running out of memory is one of the failures of BoringSSL.
  In \<open>Sync\<close> two names of one file are two paths. Text rendered for people (most error messages, logs, JSON status) is not compared.
\<close>

section \<open>From the user's permission to the process\<close>


text \<open>A request for file transfer in a running supervisor, and the process that serves it.\<close>

lemma demo_service_message:
  "service_message demo_daemon ''sync:'' False =
     \<lparr>ss_name = ''sync:'', ss_root = False, ss_allow_su = False, ss_test = False, ss_bind = False\<rparr>"
  by (simp add: service_message_def demo_daemon_def daemon_new_def demo_store_def default_config_def)

lemma demo_service_runs:
  "\<exists>q. service_run True (Inr (service_message demo_daemon ''sync:'' False, 1)) (root_proc (replicate 20 None))
      = (Inr ServeSync, q)"
  unfolding demo_service_message
  by (simp add: service_run_def child_setup_def restrict_service_def prevent_escalation_def driver_def
      set_identity_def drop_ids_def set_gids_def set_uids_def set_context_def sys_ensure_def sys_do_def
      cap_read_def eval_nat_numeral root_proc_def EINVAL_def service_select_def)


section \<open>What outlives the supervisor\<close>

text \<open>
  C40: the identity change undoes the parent death signal. Both children of the supervisor ask to be
  killed when it dies before they give up root, and changing the effective user clears that request;
  so every worker, and every service without root, runs without it. Only services with root and
  processes in test mode, which keep their identity, die with the supervisor.
\<close>

theorem death_signal_lost:
  assumes "honest p" and "fst (snd (pr_uids p)) \<noteq> 2000"
  shows "(service_run android (Inr (start, fds)) p = (Inr action, q) \<longrightarrow>
      pr_death_signal q = (if ss_root start \<or> ss_test start then Some 9 else None))
    \<and> (worker_boot android now (Inr (Boot identity hosts endpoints specs test, sockets)) p = (Inr w, r) \<longrightarrow>
      pr_death_signal r = (if test then Some 9 else None))"
proof (intro conjI impI)
  assume "service_run android (Inr (start, fds)) p = (Inr action, q)"
  then obtain u p1 v where 1: "child_setup p = (Inr u, p1)"
    and 2: "restrict_service android (ss_root start) (ss_allow_su start) (ss_test start) p1 = (Inr v, q)"
    by (auto simp: service_run_def sbind_eq_Inr_iff split: if_splits)
  note c = child_setup_ok [OF 1 assms(1)]
  show "pr_death_signal q = (if ss_root start \<or> ss_test start then Some 9 else None)"
  proof (cases "ss_root start \<or> ss_test start")
    case True
    with 2 c show ?thesis by (auto simp: restrict_service_def split: if_splits dest!: set_context_ok)
  next
    case False
    with 2 restrict_service_ok [of android "ss_allow_su start" p1] c assms(2) show ?thesis
      by (auto simp: kept_signal_def)
  qed
next
  assume "worker_boot android now (Inr (Boot identity hosts endpoints specs test, sockets)) p = (Inr w, r)"
  then obtain u p1 v where 1: "child_setup p = (Inr u, p1)" and 2: "restrict_network android test p1 = (Inr v, r)"
    by (auto simp: worker_boot_def sbind_eq_Inr_iff split: if_splits)
  note c = child_setup_ok [OF 1 assms(1)]
  show "pr_death_signal r = (if test then Some 9 else None)"
  proof (cases test)
    case True
    with 2 c show ?thesis by (simp add: restrict_network_def)
  next
    case False
    with 2 restrict_network_ok [of android p1 v r] c assms(2) show ?thesis by (auto simp: kept_signal_def)
  qed
qed

theorem death_signal_lost_witness:
  "\<exists>q. service_run True (Inr (service_message demo_daemon ''sync:'' False, 1)) (root_proc (replicate 20 None))
      = (Inr ServeSync, q) \<and> pr_death_signal q = None"
proof -
  let ?p = "root_proc (replicate 20 None)"
  have h: "honest ?p" "fst (snd (pr_uids ?p)) \<noteq> 2000" by (simp_all add: honest_def root_proc_def)
  obtain q where q: "service_run True (Inr (service_message demo_daemon ''sync:'' False, 1)) ?p = (Inr ServeSync, q)"
    using demo_service_runs by blast
  have "\<not> ss_root (service_message demo_daemon ''sync:'' False)" "\<not> ss_test (service_message demo_daemon ''sync:'' False)"
    by (simp_all add: demo_service_message)
  with death_signal_lost [OF h, of True "service_message demo_daemon ''sync:'' False" 1 ServeSync q] q
  show ?thesis by simp
qed

section \<open>Revocation across the processes\<close>

lemma disconnects_effects: "\<exists>es. dm_effects (foldl (\<lambda>d i. disconnect e i d) d ids) = dm_effects d @ es"
proof (induction ids arbitrary: d)
  case (Cons i ids)
  have "\<exists>es. dm_effects (disconnect e i d) = dm_effects d @ es"
    by (simp add: disconnect_def stop_services_def emit_def)
  with Cons [of "disconnect e i d"] show ?case by auto
qed simp



end
